(* ===== verification/Prelude.thy ===== *)
theory Prelude
  imports Main "HOL-Library.Word" "HOL-Library.Sublist"
begin

text \<open>
  Shared vocabulary of the development: the error monad on sum types (an exception is
  \<open>Inl\<close>), the operations of Python's \<open>str\<close>, \<open>bytes\<close> and \<open>dict\<close> that the host tools
  use, and the generic lemmas about them.  A text decoded as latin-1 is a HOL
  \<open>string\<close> (one \<open>char\<close> per byte); Python's unbounded integers are \<open>int\<close>;
  a dictionary whose order matters is an association list in insertion order.
\<close>

type_synonym bytes = "8 word list"

named_theorems err_simps "rewrite rules of the error monad"
named_theorems text_simps "rewrite rules of the text operations"

section \<open>Exceptions as sums\<close>

definition bindE :: "'e + 'a \<Rightarrow> ('a \<Rightarrow> 'e + 'b) \<Rightarrow> 'e + 'b" where
  "bindE m f = (case m of Inl e \<Rightarrow> Inl e | Inr x \<Rightarrow> f x)"

definition guardE :: "bool \<Rightarrow> 'e \<Rightarrow> 'e + unit" where
  "guardE b e = (if b then Inr () else Inl e)"

fun mapE :: "('a \<Rightarrow> 'e + 'b) \<Rightarrow> 'a list \<Rightarrow> 'e + 'b list" where
  "mapE f [] = Inr []"
| "mapE f (x # xs) = bindE (f x) (\<lambda>y. bindE (mapE f xs) (\<lambda>ys. Inr (y # ys)))"

lemma bindE_simps [simp]:
  "bindE (Inl e) f = Inl e"
  "bindE (Inr x) f = f x"
  by (simp_all add: bindE_def)

lemma bindE_eq_Inr [err_simps]:
  "bindE m f = Inr y \<longleftrightarrow> (\<exists>x. m = Inr x \<and> f x = Inr y)"
  by (cases m) auto

lemma bindE_eq_Inl [err_simps]:
  "bindE m f = Inl e \<longleftrightarrow> m = Inl e \<or> (\<exists>x. m = Inr x \<and> f x = Inl e)"
  by (cases m) auto

lemma guardE_eq [err_simps]:
  "guardE b e = Inr u \<longleftrightarrow> b"
  "guardE b e = Inl e' \<longleftrightarrow> \<not> b \<and> e' = e"
  by (auto simp: guardE_def)

lemma guardE_True [simp]: "guardE True e = Inr ()"
  by (simp add: guardE_def)

lemma guardE_False [simp]: "guardE False e = Inl e"
  by (simp add: guardE_def)

lemma bindE_cong [fundef_cong]:
  "m = m' \<Longrightarrow> (\<And>x. m' = Inr x \<Longrightarrow> f x = f' x) \<Longrightarrow> bindE m f = bindE m' f'"
  by (cases m') auto

lemma mapE_length: "mapE f xs = Inr ys \<Longrightarrow> length ys = length xs"
  by (induction xs arbitrary: ys) (auto simp: err_simps)

lemma mapE_nth: "mapE f xs = Inr ys \<Longrightarrow> i < length xs \<Longrightarrow> f (xs ! i) = Inr (ys ! i)"
proof (induction xs arbitrary: ys i)
  case Nil
  then show ?case by simp
next
  case (Cons x xs)
  then show ?case by (cases i) (auto simp: err_simps)
qed

lemma mapE_Inr_map: "(\<And>x. x \<in> set xs \<Longrightarrow> f x = Inr (g x)) \<Longrightarrow> mapE f xs = Inr (map g xs)"
  by (induction xs) auto

lemma mapE_Inl: "mapE f xs = Inl e \<Longrightarrow> \<exists>x\<in>set xs. f x = Inl e"
  by (induction xs) (auto simp: err_simps)

lemma mapE_cong [fundef_cong]:
  "xs = ys \<Longrightarrow> (\<And>x. x \<in> set ys \<Longrightarrow> f x = g x) \<Longrightarrow> mapE f xs = mapE g ys"
  by (induction ys arbitrary: xs) auto

section \<open>Text\<close>

text \<open>\<open>str.split(c)\<close>: never empty, the parts joined by \<open>c\<close> give the text back.\<close>

fun split_on :: "char \<Rightarrow> string \<Rightarrow> string list" where
  "split_on c [] = [[]]"
| "split_on c (x # xs) =
     (if x = c then [] # split_on c xs
      else (case split_on c xs of [] \<Rightarrow> [[x]] | l # ls \<Rightarrow> (x # l) # ls))"

fun join_with :: "string \<Rightarrow> string list \<Rightarrow> string" where
  "join_with s [] = []"
| "join_with s [x] = x"
| "join_with s (x # y # zs) = x @ s @ join_with s (y # zs)"

text \<open>\<open>str.partition(c)\<close>: what is before the first \<open>c\<close>, whether there is one, what is after.\<close>

fun partition_on :: "char \<Rightarrow> string \<Rightarrow> string \<times> bool \<times> string" where
  "partition_on c [] = ([], False, [])"
| "partition_on c (x # xs) =
     (if x = c then ([], True, xs)
      else (case partition_on c xs of (a, b, r) \<Rightarrow> (x # a, b, r)))"

definition starts_with :: "string \<Rightarrow> string \<Rightarrow> bool" where
  "starts_with p s \<longleftrightarrow> take (length p) s = p"

text \<open>\<open>str.isdigit\<close> on a latin-1 character: the ASCII digits and the superscripts
  one, two and three, which \<open>int()\<close> then refuses.\<close>

definition ascii_digit :: "char \<Rightarrow> bool" where
  "ascii_digit c \<longleftrightarrow> 48 \<le> (of_char c :: nat) \<and> (of_char c :: nat) \<le> 57"

definition isdigit_char :: "char \<Rightarrow> bool" where
  "isdigit_char c \<longleftrightarrow> ascii_digit c \<or> (of_char c :: nat) \<in> {178, 179, 185}"

definition isdigit :: "string \<Rightarrow> bool" where
  "isdigit s \<longleftrightarrow> s \<noteq> [] \<and> list_all isdigit_char s"

definition dec_digit :: "char \<Rightarrow> int" where
  "dec_digit c = of_char c - 48"

definition dec_value :: "string \<Rightarrow> int" where
  "dec_value s = foldl (\<lambda>v c. 10 * v + dec_digit c) 0 s"

definition is_hex_char :: "char \<Rightarrow> bool" where
  "is_hex_char c \<longleftrightarrow> c \<in> set ''0123456789ABCDEF''"

definition hex_digit :: "char \<Rightarrow> int" where
  "hex_digit c = (if (of_char c :: int) \<le> 57 then of_char c - 48 else of_char c - 55)"

definition hex_value :: "string \<Rightarrow> int" where
  "hex_value s = foldl (\<lambda>v c. 16 * v + hex_digit c) 0 s"

text \<open>\<open>f\"{n:X}\"\<close> and \<open>str(n)\<close> for a natural number.\<close>

definition hex_char :: "nat \<Rightarrow> char" where
  "hex_char d = (if d < 10 then char_of (48 + d) else char_of (55 + d))"

fun show_hex :: "nat \<Rightarrow> string" where
  "show_hex n = (if n < 16 then [hex_char n] else show_hex (n div 16) @ [hex_char (n mod 16)])"

fun show_nat :: "nat \<Rightarrow> string" where
  "show_nat n = (if n < 10 then [char_of (48 + n)] else show_nat (n div 10) @ [char_of (48 + n mod 10)])"

declare show_hex.simps [simp del] show_nat.simps [simp del]

definition show_int :: "int \<Rightarrow> string" where
  "show_int i = (if i < 0 then CHR ''-'' # show_nat (nat (- i)) else show_nat (nat i))"

text \<open>\<open>f\"{n:0<w>d}\"\<close> for a natural number.\<close>

definition zfill :: "nat \<Rightarrow> string \<Rightarrow> string" where
  "zfill w s = replicate (w - length s) (CHR ''0'') @ s"

section \<open>Dictionaries in insertion order\<close>

text \<open>\<open>d[k] = v\<close>: a key keeps its place, a new one goes to the end.\<close>

fun assoc_put :: "'k \<Rightarrow> 'v \<Rightarrow> ('k \<times> 'v) list \<Rightarrow> ('k \<times> 'v) list" where
  "assoc_put k v [] = [(k, v)]"
| "assoc_put k v ((k', v') # xs) = (if k' = k then (k, v) # xs else (k', v') # assoc_put k v xs)"

lemma map_of_assoc_put [simp]: "map_of (assoc_put k v xs) = (map_of xs)(k \<mapsto> v)"
  by (induction xs) (auto simp: fun_eq_iff)

lemma keys_assoc_put: "set (map fst (assoc_put k v xs)) = insert k (set (map fst xs))"
  by (induction xs rule: assoc_put.induct [of _ k v]) (simp_all add: insert_commute insert_absorb)

lemma distinct_assoc_put: "distinct (map fst xs) \<Longrightarrow> distinct (map fst (assoc_put k v xs))"
proof (induction xs)
  case Nil
  then show ?case by simp
next
  case (Cons x xs)
  then show ?case using keys_assoc_put [of k v xs] by (cases x) (simp del: set_map, blast)
qed

section \<open>Facts about text\<close>

lemma split_on_not_Nil [simp]: "split_on c s \<noteq> []"
  by (induction s) (auto split: list.splits)

lemma split_on_no_sep: "x \<in> set (split_on c s) \<Longrightarrow> c \<notin> set x"
proof (induction s arbitrary: x)
  case Nil
  then show ?case by simp
next
  case (Cons a s)
  then show ?case by (cases "split_on c s") (auto split: if_splits)
qed

lemma split_on_id: "c \<notin> set s \<Longrightarrow> split_on c s = [s]"
  by (induction s) auto

lemma split_on_append: "split_on c (a @ c # b) = split_on c a @ split_on c b"
proof (induction a)
  case Nil
  then show ?case by simp
next
  case (Cons x a)
  then show ?case by (cases "split_on c a") auto
qed

lemma split_on_append_sep:
  "c \<notin> set a \<Longrightarrow> split_on c (a @ c # b) = a # split_on c b"
  by (simp add: split_on_append split_on_id)

lemma split_join:
  assumes "\<forall>x\<in>set xs. c \<notin> set x" and "xs \<noteq> []"
  shows "split_on c (join_with [c] xs) = xs"
  using assms by (induction "[c]" xs rule: join_with.induct) (auto simp: split_on_id split_on_append_sep)

lemma join_split: "join_with [c] (split_on c s) = s"
proof (induction s)
  case Nil
  then show ?case by simp
next
  case (Cons x s)
  obtain l ls where s: "split_on c s = l # ls"
    by (cases "split_on c s") auto
  with Cons show ?case by (cases ls) auto
qed

lemma split_on_take:
  "\<exists>k p r. split_on c (take n s) = take k (split_on c s) @ [p] \<and> k < length (split_on c s)
     \<and> split_on c s ! k = p @ r"
proof (induction s arbitrary: n)
  case Nil
  have "split_on c (take n []) = take 0 (split_on c []) @ [[]] \<and> (0::nat) < length (split_on c [])
     \<and> split_on c [] ! 0 = [] @ []" by simp
  then show ?case by blast
next
  case (Cons x s)
  show ?case
  proof (cases n)
    case 0
    have "split_on c (take n (x # s)) = take 0 (split_on c (x # s)) @ [[]]"
      using 0 by simp
    moreover have "0 < length (split_on c (x # s))"
      using split_on_not_Nil [of c "x # s"] by (meson length_greater_0_conv)
    ultimately show ?thesis by (metis append_Nil)
  next
    case (Suc m)
    obtain k p r where IH: "split_on c (take m s) = take k (split_on c s) @ [p]"
        "k < length (split_on c s)" "split_on c s ! k = p @ r"
      using Cons.IH [of m] by blast
    show ?thesis
    proof (cases "x = c")
      case True
      with IH Suc have "split_on c (take n (x # s)) = take (Suc k) (split_on c (x # s)) @ [p]
         \<and> Suc k < length (split_on c (x # s)) \<and> split_on c (x # s) ! Suc k = p @ r"
        by simp
      then show ?thesis by blast
    next
      case False
      obtain l ls where s: "split_on c s = l # ls"
        by (cases "split_on c s") auto
      show ?thesis
      proof (cases k)
        case 0
        with False IH Suc s have "split_on c (take n (x # s)) = take 0 (split_on c (x # s)) @ [x # p]
           \<and> 0 < length (split_on c (x # s)) \<and> split_on c (x # s) ! 0 = (x # p) @ r"
          by simp
        then show ?thesis by blast
      next
        case (Suc j)
        with False IH \<open>n = Suc m\<close> s have "split_on c (take n (x # s)) = take k (split_on c (x # s)) @ [p]
           \<and> k < length (split_on c (x # s)) \<and> split_on c (x # s) ! k = p @ r"
          by simp
        then show ?thesis by blast
      qed
    qed
  qed
qed

lemma hex_char_code: "d < 16 \<Longrightarrow> (of_char (hex_char d) :: nat) = (if d < 10 then 48 + d else 55 + d)"
  by (simp add: hex_char_def take_bit_eq_mod)

lemma hex_digit_char [simp]: "d < 16 \<Longrightarrow> hex_digit (hex_char d) = int d"
proof -
  assume d: "d < 16"
  have "(of_char (hex_char d) :: int) = int (of_char (hex_char d) :: nat)"
    by (simp only: of_nat_of_char)
  with hex_char_code [OF d] show ?thesis by (auto simp: hex_digit_def)
qed

lemma is_hex_hex_char [simp]: "d < 16 \<Longrightarrow> is_hex_char (hex_char d)"
proof -
  have "\<forall>d\<in>set [0..<16]. is_hex_char (hex_char d)" by code_simp
  then show "d < 16 \<Longrightarrow> is_hex_char (hex_char d)" by simp
qed

lemma hex_value_snoc: "hex_value (s @ [c]) = 16 * hex_value s + hex_digit c"
  by (simp add: hex_value_def)

lemma hex_value_show [simp]: "hex_value (show_hex n) = int n"
proof (induction n rule: show_hex.induct)
  case (1 n)
  show ?case
  proof (cases "n < 16")
    case True
    then show ?thesis by (subst show_hex.simps) (simp add: hex_value_def)
  next
    case False
    with 1 have "hex_value (show_hex (n div 16)) = int (n div 16)" by blast
    with False show ?thesis
      by (subst show_hex.simps) (simp add: hex_value_snoc zdiv_int zmod_int)
  qed
qed

lemma show_hex_chars: "list_all is_hex_char (show_hex n)"
proof (induction n rule: show_hex.induct)
  case (1 n)
  then show ?case by (subst show_hex.simps) simp
qed

lemma show_hex_not_Nil [simp]: "show_hex n \<noteq> []"
  by (subst show_hex.simps) simp

lemma hex_digit_nonneg: "is_hex_char c \<Longrightarrow> 0 \<le> hex_digit c \<and> hex_digit c < 16"
  by (auto simp: is_hex_char_def hex_digit_def)

lemma hex_value_bounds:
  "list_all is_hex_char s \<Longrightarrow> 0 \<le> hex_value s \<and> hex_value s < 16 ^ length s"
proof (induction s rule: rev_induct)
  case Nil
  then show ?case by (simp add: hex_value_def)
next
  case (snoc c s)
  then have "0 \<le> hex_value s" "hex_value s < 16 ^ length s" "0 \<le> hex_digit c" "hex_digit c < 16"
    using hex_digit_nonneg [of c] by auto
  then show ?case by (simp add: hex_value_snoc)
qed

lemma comma_not_hex: "list_all is_hex_char s \<Longrightarrow> CHR '','' \<notin> set s"
proof -
  have "\<not> is_hex_char (CHR '','')" by code_simp
  then show "list_all is_hex_char s \<Longrightarrow> CHR '','' \<notin> set s" by (auto simp: list_all_iff)
qed

end
