(* ===== verification/Catalog.thy ===== *)
theory Catalog
  imports Prelude "HOL-Library.List_Lexorder" "HOL-Library.Char_ord" "HOL-Library.Log_Nat"
begin

unbundle bit_operations_syntax

text \<open>
  \<open>components/uds/catalog.py\<close>, the semantic model of a diagnostic catalog and the two
  computations on a response: \<open>extract\<close> (the bits of a field) and \<open>evaluate\<close> (its scale table),
  with the limits \<open>_check_limits\<close> puts on a catalog and name resolution.

  A byte is \<open>8 word\<close>.  A \<open>str\<close> is the \<open>string\<close> of its UTF-8 bytes, so \<open>encode\<close> and a
  successful \<open>decode\<close> copy bytes and the order of code points is the order of \<open>string\<close>.
  \<open>Scale.factor\<close> and \<open>Scale.offset\<close> are binary32 after construction and are held as their bit
  patterns.  Python's \<open>float\<close> is binary64 without a sign on zero: a rational, an infinity or NaN.
\<close>

section \<open>Errors\<close>

datatype catalog_error =
    CatalogError string
  | FormatError string int
  | LimitError string string int
  | UnknownNameError string
  | AmbiguousNameError string "(nat \<times> nat) list"
  | StructError
  | IndexError
  | ValueError
  | UnicodeDecodeError

section \<open>Constants\<close>

definition MAGIC :: bytes where
  "MAGIC = map of_char ''ESPDCAT'' @ [0]"

definition FORMAT_VERSION :: int where "FORMAT_VERSION = 1"
definition HEADER_SIZE :: int where "HEADER_SIZE = 64"
definition FIRST_TABLE :: int where "FIRST_TABLE = 80"
definition NO_INDEX :: int where "NO_INDEX = 65535"
definition ECU_SIZE :: int where "ECU_SIZE = 24"
definition GROUP_SIZE :: int where "GROUP_SIZE = 20"
definition FIELD_SIZE :: int where "FIELD_SIZE = 20"
definition SCALE_SIZE :: int where "SCALE_SIZE = 24"
definition INDEX_ENTRY_SIZE :: int where "INDEX_ENTRY_SIZE = 12"
definition MAX_RECORDS :: int where "MAX_RECORDS = 65534"
definition MAX_NUMERIC_BITS :: int where "MAX_NUMERIC_BITS = 64"
definition MAX_BLOCK_BITS :: int where "MAX_BLOCK_BITS = 248"
definition MAX_BIT_END :: int where "MAX_BIT_END = 65535"
definition MAX_REQ_LEN :: int where "MAX_REQ_LEN = 255"
definition MAX_REPEAT_COUNT :: int where "MAX_REPEAT_COUNT = 255"
definition I32_MIN :: int where "I32_MIN = -2147483648"
definition I32_MAX :: int where "I32_MAX = 2147483647"
definition KIND_ECU :: nat where "KIND_ECU = 1"
definition KIND_GROUP :: nat where "KIND_GROUP = 2"
definition KIND_FIELD :: nat where "KIND_FIELD = 3"

definition SAFE_READ_SIDS :: "8 word set" where
  "SAFE_READ_SIDS = {0x22, 0x1A, 0x21, 0x19, 0x03, 0x07, 0x17}"

definition FNV_OFFSET :: "32 word" where "FNV_OFFSET = 0x811C9DC5"
definition FNV_PRIME :: "32 word" where "FNV_PRIME = 0x01000193"

text \<open>\<open>str.encode("utf-8")\<close>.\<close>

definition encode :: "string \<Rightarrow> bytes" where
  "encode s = map of_char s"

definition fnv1a32 :: "bytes \<Rightarrow> 32 word" where
  "fnv1a32 name = foldl (\<lambda>h b. (h XOR ucast b) * FNV_PRIME) FNV_OFFSET name"

section \<open>The semantic model\<close>

record scale_rec =
  s_low :: int
  s_high :: int
  s_factor :: "32 word"
  s_offset :: "32 word"
  s_text :: string
  s_invalid :: bool

record field_rec =
  f_name :: string
  bit_pos :: int
  bit_size :: int
  f_unit :: string
  f_signed :: bool
  byteswap :: bool
  f_ascii :: bool
  hexdump :: bool
  f_scales :: "scale_rec list"
  repeat_count :: int
  repeat_stride :: int

definition bit_end :: "field_rec \<Rightarrow> int" where
  "bit_end f = bit_pos f + (repeat_count f - 1) * repeat_stride f + bit_size f"

definition is_enum :: "field_rec \<Rightarrow> bool" where
  "is_enum f \<longleftrightarrow> list_ex (\<lambda>s. s_text s \<noteq> [] \<and> \<not> s_invalid s) (f_scales f)"

text \<open>The flag bits are disjoint, so the source's \<open>|=\<close> is the sum of the bits set.\<close>

definition field_flags :: "field_rec \<Rightarrow> int" where
  "field_flags f = (if f_signed f then 1 else 0) + (if byteswap f then 2 else 0)
     + (if f_ascii f then 4 else 0) + (if hexdump f then 8 else 0) + (if is_enum f then 16 else 0)"

record group_rec =
  g_name :: string
  g_request :: bytes
  g_fields :: "field_rec list"
  g_aliases :: "string list"
  needs_session :: bool
  needs_security :: bool
  security_level :: int

text \<open>\<open>Group(...)\<close>: the constructor normalises the aliases (sorted, distinct, without the name).\<close>

definition norm_aliases :: "string \<Rightarrow> string list \<Rightarrow> string list" where
  "norm_aliases name aliases = sort (remdups (removeAll name aliases))"

definition mk_group :: "string \<Rightarrow> bytes \<Rightarrow> field_rec list \<Rightarrow> string list \<Rightarrow> bool \<Rightarrow> bool \<Rightarrow> int \<Rightarrow> group_rec" where
  "mk_group name request flds aliases session security level =
     \<lparr>g_name = name, g_request = request, g_fields = flds, g_aliases = norm_aliases name aliases,
      needs_session = session, needs_security = security, security_level = level\<rparr>"

text \<open>\<open>request[0]\<close>: both the limits and the reader refuse an empty request before it is read.\<close>

definition sid :: "group_rec \<Rightarrow> 8 word" where
  "sid g = hd (g_request g)"

definition did :: "group_rec \<Rightarrow> int" where
  "did g = (if sid g = 0x22 \<and> length (g_request g) \<ge> 3
            then uint (g_request g ! 1) * 256 + uint (g_request g ! 2) else NO_INDEX)"

definition safe_read :: "group_rec \<Rightarrow> bool" where
  "safe_read g \<longleftrightarrow> sid g \<in> SAFE_READ_SIDS"

definition resp_min_len :: "group_rec \<Rightarrow> int" where
  "resp_min_len g = (foldl max (case g_fields g of [] \<Rightarrow> 0 | f # _ \<Rightarrow> bit_end f) (map bit_end (g_fields g)) + 7) div 8"

definition group_flags :: "group_rec \<Rightarrow> int" where
  "group_flags g = (if safe_read g then 1 else 0) + (if needs_session g then 2 else 0)
     + (if needs_security g then 4 else 0) + (security_level g mod 16) * 256"

record ecu_rec =
  e_name :: string
  request_id :: int
  response_id :: int
  extended_id :: bool
  block_size :: int
  st_min_raw :: int
  p2_ms :: int
  p2_ext_ms :: int
  e_groups :: "group_rec list"

definition ecu_flags :: "ecu_rec \<Rightarrow> int" where
  "ecu_flags e = (if extended_id e then 1 else 0)"

type_synonym catalog = "ecu_rec list"

definition cat_groups :: "catalog \<Rightarrow> group_rec list" where
  "cat_groups cat = concat (map e_groups cat)"

definition cat_fields :: "catalog \<Rightarrow> field_rec list" where
  "cat_fields cat = concat (map g_fields (cat_groups cat))"

section \<open>Name resolution\<close>

text \<open>\<open>Catalog._targets\<close>: every name with the kinds and flat indices it denotes, in the order
  the names are first met.\<close>

fun add_target :: "string \<Rightarrow> nat \<times> nat \<Rightarrow> (string \<times> (nat \<times> nat) list) list \<Rightarrow> (string \<times> (nat \<times> nat) list) list" where
  "add_target name t [] = [(name, [t])]"
| "add_target name t ((n, ts) # out) =
     (if n = name then (n, if t \<in> set ts then ts else ts @ [t]) # out
      else (n, ts) # add_target name t out)"

text \<open>The names in the order \<open>_targets\<close> adds them; an empty name is not added.\<close>

fun field_adds :: "nat \<Rightarrow> field_rec list \<Rightarrow> (string \<times> nat \<times> nat) list" where
  "field_adds fi [] = []"
| "field_adds fi (f # fs) = (f_name f, KIND_FIELD, fi) # field_adds (fi + 1) fs"

fun group_adds :: "nat \<Rightarrow> nat \<Rightarrow> group_rec list \<Rightarrow> (string \<times> nat \<times> nat) list" where
  "group_adds gi fi [] = []"
| "group_adds gi fi (g # gs) =
     (g_name g, KIND_GROUP, gi) # map (\<lambda>a. (a, KIND_GROUP, gi)) (g_aliases g)
     @ field_adds fi (g_fields g) @ group_adds (gi + 1) (fi + length (g_fields g)) gs"

fun ecu_adds :: "nat \<Rightarrow> nat \<Rightarrow> nat \<Rightarrow> catalog \<Rightarrow> (string \<times> nat \<times> nat) list" where
  "ecu_adds ei gi fi [] = []"
| "ecu_adds ei gi fi (e # es) =
     (e_name e, KIND_ECU, ei) # group_adds gi fi (e_groups e)
     @ ecu_adds (ei + 1) (gi + length (e_groups e)) (fi + length (cat_fields [e])) es"

definition targets :: "catalog \<Rightarrow> (string \<times> (nat \<times> nat) list) list" where
  "targets cat =
     foldl (\<lambda>out (name, k, i). if name \<noteq> [] then add_target name (k, i) out else out) [] (ecu_adds 0 0 0 cat)"

datatype resolution =
    REcu nat ecu_rec
  | RGroup nat group_rec ecu_rec
  | RField nat field_rec group_rec ecu_rec

fun locate_group :: "nat \<Rightarrow> nat \<Rightarrow> nat \<Rightarrow> nat \<Rightarrow> ecu_rec \<Rightarrow> group_rec list \<Rightarrow> resolution option" where
  "locate_group kind index gi fi e [] = None"
| "locate_group kind index gi fi e (g # gs) =
     (if kind = KIND_GROUP \<and> index = gi then Some (RGroup index g e)
      else if kind = KIND_FIELD \<and> fi \<le> index \<and> index < fi + length (g_fields g)
      then Some (RField index (g_fields g ! (index - fi)) g e)
      else locate_group kind index (gi + 1) (fi + length (g_fields g)) e gs)"

fun locate_ecu :: "nat \<Rightarrow> nat \<Rightarrow> nat \<Rightarrow> nat \<Rightarrow> nat \<Rightarrow> catalog \<Rightarrow> resolution option" where
  "locate_ecu kind index ei gi fi [] = None"
| "locate_ecu kind index ei gi fi (e # es) =
     (if kind = KIND_ECU \<and> index = ei then Some (REcu index e)
      else (case locate_group kind index gi fi e (e_groups e) of
              Some r \<Rightarrow> Some r
            | None \<Rightarrow> locate_ecu kind index (ei + 1) (gi + length (e_groups e)) (fi + length (cat_fields [e])) es))"

definition locate :: "catalog \<Rightarrow> nat \<times> nat \<Rightarrow> catalog_error + resolution" where
  "locate cat t =
     (case locate_ecu (fst t) (snd t) 0 0 0 cat of
        Some r \<Rightarrow> Inr r | None \<Rightarrow> Inl (CatalogError ''dangling index''))"

text \<open>\<open>want\<close> is the kind asked for, already looked up in \<open>_KIND_BY_NAME\<close>.  The suggestions and
  candidate texts the errors carry for the operator are not modelled, the hits themselves are.\<close>

definition resolve :: "catalog \<Rightarrow> string \<Rightarrow> nat option \<Rightarrow> catalog_error + resolution" where
  "resolve cat name want =
     (let ts = (case map_of (targets cat) name of None \<Rightarrow> [] | Some ts \<Rightarrow> ts);
          hits = filter (\<lambda>(k, i). want = None \<or> want = Some k) ts in
      case hits of
        [] \<Rightarrow> Inl (UnknownNameError name)
      | [t] \<Rightarrow> locate cat t
      | _ \<Rightarrow> Inl (AmbiguousNameError name hits))"

section \<open>Extraction\<close>

text \<open>\<open>xs[i]\<close> of Python: a negative index counts from the end.\<close>

definition py_nth :: "'a list \<Rightarrow> int \<Rightarrow> 'a option" where
  "py_nth xs i =
     (let j = (if i < 0 then int (length xs) + i else i)
      in if 0 \<le> j \<and> j < int (length xs) then Some (xs ! nat j) else None)"

fun extract_bits :: "bytes \<Rightarrow> int \<Rightarrow> nat \<Rightarrow> int \<Rightarrow> catalog_error + int" where
  "extract_bits response pos 0 raw = Inr raw"
| "extract_bits response pos (Suc n) raw =
     (case py_nth response (pos div 8) of
        None \<Rightarrow> Inl IndexError
      | Some b \<Rightarrow>
          extract_bits response (pos + 1) n
            (2 * raw + (uint b div 2 ^ nat (7 - pos mod 8)) mod 2))"

text \<open>\<open>int.to_bytes(n, "little")\<close> of a value that fits, \<open>int.from_bytes(bs, "little")\<close>.\<close>

fun le_digits :: "nat \<Rightarrow> int \<Rightarrow> int list" where
  "le_digits 0 v = []"
| "le_digits (Suc n) v = v mod 256 # le_digits n (v div 256)"

fun le_value :: "int list \<Rightarrow> int" where
  "le_value [] = 0"
| "le_value (d # ds) = d + 256 * le_value ds"

definition swap_bytes :: "nat \<Rightarrow> int \<Rightarrow> int" where
  "swap_bytes n v = le_value (rev (le_digits n v))"

definition extract_field :: "field_rec \<Rightarrow> bytes \<Rightarrow> int \<Rightarrow> catalog_error + int" where
  "extract_field f response k =
     (if f_ascii f \<or> hexdump f then Inl (CatalogError ''extract() is for numeric fields'')
      else
        bindE (extract_bits response (bit_pos f + k * repeat_stride f) (nat (bit_size f)) 0) (\<lambda>raw.
        let raw = (if byteswap f then swap_bytes (nat ((bit_size f + 7) div 8)) raw else raw);
            raw = (if f_signed f \<and> bit_size f < 64 \<and> (raw div 2 ^ nat (bit_size f - 1)) mod 2 = 1
                   then raw - 2 ^ nat (bit_size f) else raw)
        in Inr raw))"

section \<open>Evaluation\<close>

datatype pyfloat = Fin rat | PosInf | NegInf | NaN

text \<open>Rounding a rational to 53 significant bits, ties to even.  The operands here keep every
  result inside the exponent range of binary64, so the exponent is not bounded.\<close>

definition round_even :: "rat \<Rightarrow> int" where
  "round_even x =
     (let f = \<lfloor>x\<rfloor>; d = x - of_int f in
      if d < 1/2 then f else if d > 1/2 then f + 1 else if even f then f else f + 1)"

fun bit_len :: "nat \<Rightarrow> nat" where
  "bit_len n = (if n = 0 then 0 else 1 + bit_len (n div 2))"

declare bit_len.simps [simp del]

text \<open>The exponent \<open>e\<close> with \<open>2^e \<le> a/b < 2^(e+1)\<close> for positive \<open>a\<close> and \<open>b\<close>.\<close>

definition log2_floor :: "int \<Rightarrow> int \<Rightarrow> int" where
  "log2_floor a b =
     (if a \<ge> b then int (bit_len (nat (a div b))) - 1 else - int (bit_len (nat ((b - 1) div a))))"

definition pow2 :: "int \<Rightarrow> rat" where
  "pow2 e = (if e \<ge> 0 then 2 ^ nat e else 1 / 2 ^ nat (- e))"

definition round53 :: "rat \<Rightarrow> rat" where
  "round53 x =
     (if x = 0 then 0
      else
        (let (a, b) = quotient_of \<bar>x\<bar>; e = log2_floor a b
         in sgn x * of_int (round_even (\<bar>x\<bar> * pow2 (52 - e))) * pow2 (e - 52)))"

text \<open>The value of a binary32 bit pattern.\<close>

definition f32_value :: "32 word \<Rightarrow> pyfloat" where
  "f32_value w =
     (let s = bit w 31; ex = uint (drop_bit 23 w AND 0xFF); m = uint (w AND 0x7FFFFF) in
      if ex = 255 then (if m \<noteq> 0 then NaN else if s then NegInf else PosInf)
      else
        (let v = (if ex = 0 then of_int m * pow2 (- 149) else of_int (m + 8388608) * pow2 (ex - 150))
         in Fin (if s then - v else v)))"

fun fmul :: "pyfloat \<Rightarrow> pyfloat \<Rightarrow> pyfloat" where
  "fmul NaN y = NaN"
| "fmul x NaN = NaN"
| "fmul (Fin x) (Fin y) = Fin (round53 (x * y))"
| "fmul (Fin x) PosInf = (if x = 0 then NaN else if x > 0 then PosInf else NegInf)"
| "fmul (Fin x) NegInf = (if x = 0 then NaN else if x > 0 then NegInf else PosInf)"
| "fmul PosInf (Fin y) = (if y = 0 then NaN else if y > 0 then PosInf else NegInf)"
| "fmul NegInf (Fin y) = (if y = 0 then NaN else if y > 0 then NegInf else PosInf)"
| "fmul PosInf PosInf = PosInf"
| "fmul PosInf NegInf = NegInf"
| "fmul NegInf PosInf = NegInf"
| "fmul NegInf NegInf = PosInf"

fun fadd :: "pyfloat \<Rightarrow> pyfloat \<Rightarrow> pyfloat" where
  "fadd NaN y = NaN"
| "fadd x NaN = NaN"
| "fadd (Fin x) (Fin y) = Fin (round53 (x + y))"
| "fadd PosInf NegInf = NaN"
| "fadd NegInf PosInf = NaN"
| "fadd PosInf y = PosInf"
| "fadd NegInf y = NegInf"
| "fadd (Fin x) PosInf = PosInf"
| "fadd (Fin x) NegInf = NegInf"

definition py_float :: "int \<Rightarrow> pyfloat" where
  "py_float i = Fin (round53 (of_int i))"

definition linear_value :: "scale_rec \<Rightarrow> int \<Rightarrow> pyfloat" where
  "linear_value s raw = fadd (fmul (py_float raw) (f32_value (s_factor s))) (f32_value (s_offset s))"

definition text_or_none :: "string \<Rightarrow> string option" where
  "text_or_none t = (if t = [] then None else Some t)"

fun evaluate_rows :: "scale_rec list \<Rightarrow> int \<Rightarrow> pyfloat option \<times> string option" where
  "evaluate_rows [] raw = (None, None)"
| "evaluate_rows (s # ss) raw =
     (if s_low s \<le> raw \<and> raw \<le> s_high s then
        (if s_invalid s then (None, text_or_none (s_text s))
         else (Some (linear_value s raw), text_or_none (s_text s)))
      else evaluate_rows ss raw)"

definition evaluate :: "field_rec \<Rightarrow> int \<Rightarrow> pyfloat option \<times> string option" where
  "evaluate f raw =
     (if f_scales f = [] then (Some (py_float raw), None) else evaluate_rows (f_scales f) raw)"

section \<open>Limits\<close>

definition check_scale :: "field_rec \<Rightarrow> scale_rec \<Rightarrow> catalog_error + unit" where
  "check_scale f s =
     bindE (guardE (I32_MIN \<le> s_low s \<and> s_low s \<le> I32_MAX) (LimitError ''scale low'' (f_name f) (s_low s))) (\<lambda>_.
     guardE (I32_MIN \<le> s_high s \<and> s_high s \<le> I32_MAX) (LimitError ''scale high'' (f_name f) (s_high s)))"

definition check_field :: "field_rec \<Rightarrow> catalog_error + unit" where
  "check_field f =
     bindE (guardE (1 \<le> repeat_count f \<and> repeat_count f \<le> MAX_REPEAT_COUNT)
              (LimitError ''repeat_count'' (f_name f) (repeat_count f))) (\<lambda>_.
     bindE (if repeat_count f = 1
            then guardE (repeat_stride f = 0) (LimitError ''stride on a scalar'' (f_name f) (repeat_stride f))
            else guardE (\<not> repeat_stride f < bit_size f)
                   (LimitError ''elements would overlap'' (f_name f) (repeat_stride f))) (\<lambda>_.
     bindE (if f_ascii f \<or> hexdump f then
              bindE (guardE (\<not> (bit_size f mod 8 \<noteq> 0 \<or> \<not> (8 \<le> bit_size f \<and> bit_size f \<le> MAX_BLOCK_BITS)))
                       (LimitError ''block size'' (f_name f) (bit_size f))) (\<lambda>_.
              guardE (bit_pos f mod 8 = 0) (LimitError ''block alignment'' (f_name f) (bit_pos f)))
            else guardE (1 \<le> bit_size f \<and> bit_size f \<le> MAX_NUMERIC_BITS)
                   (LimitError ''bit_size'' (f_name f) (bit_size f))) (\<lambda>_.
     bindE (guardE (\<not> (bit_pos f < 0 \<or> bit_end f > MAX_BIT_END))
              (LimitError ''last bit'' (f_name f) (bit_end f))) (\<lambda>_.
     bindE (guardE (length (f_scales f) \<le> 255)
              (LimitError ''scale rows'' (f_name f) (int (length (f_scales f))))) (\<lambda>_.
     bindE (mapE (check_scale f) (f_scales f)) (\<lambda>_. Inr ()))))))"

fun check_names :: "string set \<Rightarrow> field_rec list \<Rightarrow> catalog_error + unit" where
  "check_names seen [] = Inr ()"
| "check_names seen (f # fs) =
     (if f_name f \<in> seen then Inl (LimitError ''field name used twice'' (f_name f) (bit_pos f))
      else check_names (insert (f_name f) seen) fs)"

definition check_group :: "group_rec \<Rightarrow> catalog_error + unit" where
  "check_group g =
     bindE (guardE (1 \<le> length (g_request g) \<and> int (length (g_request g)) \<le> MAX_REQ_LEN)
              (LimitError ''request length'' (g_name g) (int (length (g_request g))))) (\<lambda>_.
     bindE (guardE (0 \<le> security_level g \<and> security_level g \<le> 15)
              (LimitError ''security level'' (g_name g) (security_level g))) (\<lambda>_.
     bindE (check_names {} (g_fields g)) (\<lambda>_.
     bindE (guardE (map bit_pos (g_fields g) = sort (map bit_pos (g_fields g)))
              (LimitError ''field order'' (g_name g) 0)) (\<lambda>_.
     bindE (mapE check_field (g_fields g)) (\<lambda>_. Inr ())))))"

definition n_scales :: "catalog \<Rightarrow> int" where
  "n_scales cat = sum_list (map (\<lambda>f. int (length (f_scales f))) (cat_fields cat))"

definition check_limits :: "catalog \<Rightarrow> catalog_error + unit" where
  "check_limits cat =
     bindE (guardE (int (length cat) \<le> MAX_RECORDS) (LimitError ''ECUs'' [] (int (length cat)))) (\<lambda>_.
     bindE (guardE (int (length (cat_groups cat)) \<le> MAX_RECORDS)
              (LimitError ''groups'' [] (int (length (cat_groups cat))))) (\<lambda>_.
     bindE (guardE (int (length (cat_fields cat)) \<le> MAX_RECORDS)
              (LimitError ''fields'' [] (int (length (cat_fields cat))))) (\<lambda>_.
     bindE (mapE check_group (cat_groups cat)) (\<lambda>_.
     guardE (n_scales cat \<le> MAX_RECORDS) (LimitError ''scale rows'' [] (n_scales cat))))))"

section \<open>Facts about the limits\<close>

text \<open>The limits as the format document lists them, without the order the checks run in.\<close>

definition field_within :: "field_rec \<Rightarrow> bool" where
  "field_within f \<longleftrightarrow>
     1 \<le> repeat_count f \<and> repeat_count f \<le> 255 \<and>
     (if repeat_count f = 1 then repeat_stride f = 0 else bit_size f \<le> repeat_stride f) \<and>
     (if f_ascii f \<or> hexdump f
      then 8 dvd bit_size f \<and> 8 \<le> bit_size f \<and> bit_size f \<le> 248 \<and> 8 dvd bit_pos f
      else 1 \<le> bit_size f \<and> bit_size f \<le> 64) \<and>
     0 \<le> bit_pos f \<and> bit_end f \<le> 65535 \<and> length (f_scales f) \<le> 255 \<and>
     (\<forall>s\<in>set (f_scales f). - (2 ^ 31) \<le> s_low s \<and> s_low s < 2 ^ 31 \<and> - (2 ^ 31) \<le> s_high s \<and> s_high s < 2 ^ 31)"

definition group_within :: "group_rec \<Rightarrow> bool" where
  "group_within g \<longleftrightarrow>
     g_request g \<noteq> [] \<and> length (g_request g) \<le> 255 \<and> 0 \<le> security_level g \<and> security_level g \<le> 15 \<and>
     distinct (map f_name (g_fields g)) \<and> sorted (map bit_pos (g_fields g)) \<and>
     (\<forall>f\<in>set (g_fields g). field_within f)"

definition within_limits :: "catalog \<Rightarrow> bool" where
  "within_limits cat \<longleftrightarrow>
     length cat \<le> 65534 \<and> length (cat_groups cat) \<le> 65534 \<and> length (cat_fields cat) \<le> 65534 \<and>
     n_scales cat \<le> 65534 \<and> (\<forall>g\<in>set (cat_groups cat). group_within g)"

lemma mapE_unit: "(\<exists>us. mapE f xs = Inr us) \<longleftrightarrow> (\<forall>x\<in>set xs. f x = Inr ())"
  by (induction xs) (auto simp: err_simps)

lemma check_scale_iff:
  "check_scale f s = Inr () \<longleftrightarrow> - (2 ^ 31) \<le> s_low s \<and> s_low s < 2 ^ 31 \<and> - (2 ^ 31) \<le> s_high s \<and> s_high s < 2 ^ 31"
  by (auto simp: check_scale_def err_simps I32_MIN_def I32_MAX_def)

lemma check_field_iff: "check_field f = Inr () \<longleftrightarrow> field_within f"
proof -
  have "check_field f = Inr () \<longleftrightarrow>
     1 \<le> repeat_count f \<and> repeat_count f \<le> 255 \<and>
     (if repeat_count f = 1 then repeat_stride f = 0 else \<not> repeat_stride f < bit_size f) \<and>
     (if f_ascii f \<or> hexdump f
      then (bit_size f mod 8 = 0 \<and> 8 \<le> bit_size f \<and> bit_size f \<le> 248) \<and> bit_pos f mod 8 = 0
      else 1 \<le> bit_size f \<and> bit_size f \<le> 64) \<and>
     0 \<le> bit_pos f \<and> bit_end f \<le> 65535 \<and> length (f_scales f) \<le> 255 \<and>
     (\<exists>us. mapE (check_scale f) (f_scales f) = Inr us)"
    by (simp add: check_field_def err_simps MAX_REPEAT_COUNT_def MAX_BLOCK_BITS_def MAX_NUMERIC_BITS_def
          MAX_BIT_END_def not_less conj_ac cong: if_cong)
  then show ?thesis
    by (simp add: field_within_def mapE_unit check_scale_iff mod_eq_0_iff_dvd not_less)
qed

lemma check_names_iff:
  "check_names seen fs = Inr u \<longleftrightarrow> distinct (map f_name fs) \<and> f_name ` set fs \<inter> seen = {}"
  by (induction fs arbitrary: seen) auto

lemma check_group_iff: "check_group g = Inr () \<longleftrightarrow> group_within g"
proof -
  have sorted_iff: "xs = sort xs \<longleftrightarrow> sorted xs" for xs :: "int list"
    by (metis sorted_sort sorted_sort_id)
  have "check_group g = Inr () \<longleftrightarrow>
     1 \<le> length (g_request g) \<and> length (g_request g) \<le> 255 \<and> 0 \<le> security_level g \<and> security_level g \<le> 15 \<and>
     distinct (map f_name (g_fields g)) \<and> sorted (map bit_pos (g_fields g)) \<and>
     (\<exists>us. mapE check_field (g_fields g) = Inr us)"
    by (simp add: check_group_def err_simps MAX_REQ_LEN_def check_names_iff sorted_iff)
  then show ?thesis
    by (simp add: group_within_def mapE_unit check_field_iff Suc_le_eq)
qed

lemma check_limits_within: "check_limits cat = Inr () \<longleftrightarrow> within_limits cat"
proof -
  have "check_limits cat = Inr () \<longleftrightarrow>
     length cat \<le> 65534 \<and> length (cat_groups cat) \<le> 65534 \<and> length (cat_fields cat) \<le> 65534 \<and>
     (\<exists>us. mapE check_group (cat_groups cat) = Inr us) \<and> n_scales cat \<le> 65534"
    by (simp add: check_limits_def err_simps MAX_RECORDS_def)
  then show ?thesis by (auto simp: within_limits_def mapE_unit check_group_iff)
qed

text \<open>
  C31: \<open>_check_limits\<close> enforces exactly the format's limits.  It passes a catalog iff every count,
  request, field geometry and scale bound is within the documented range, field names are
  distinct within a group, fields are ordered by position and array elements do not overlap.
\<close>

theorem check_limits_iff: "check_limits cat = Inr () \<longleftrightarrow> within_limits cat"
  by (rule check_limits_within)

section \<open>Facts about extraction\<close>

text \<open>The response as one big-endian number.\<close>

definition be_value :: "bytes \<Rightarrow> int" where
  "be_value r = foldl (\<lambda>v b. 256 * v + uint b) 0 r"

lemma be_value_snoc: "be_value (r @ [b]) = 256 * be_value r + uint b"
  by (simp add: be_value_def)

lemma uint_byte: "0 \<le> uint (b :: 8 word)" "uint b < 256"
  using uint_lt2p [of b] by simp_all

lemma byte_shift_high: "(256 * v + uint (b :: 8 word)) div 2 ^ (8 + m) = v div 2 ^ m"
proof -
  have "(256 * v + uint b) div 2 ^ (8 + m) = ((256 * v + uint b) div 256) div 2 ^ m"
    by (simp add: power_add zdiv_zmult2_eq)
  also have "(256 * v + uint b) div 256 = v"
    using uint_byte [of b] by (simp add: div_add1_eq)
  finally show ?thesis .
qed

lemma byte_shift_low:
  assumes "j \<le> 7"
  shows "((256 * v + uint (b :: 8 word)) div 2 ^ j) mod 2 = (uint b div 2 ^ j) mod 2"
proof -
  have "(256::int) = 2 ^ j * (2 * 2 ^ (7 - j))"
    using assms by (simp flip: power_Suc power_add)
  then have "256 * v + uint b = uint b + 2 ^ j * (2 * (2 ^ (7 - j) * v))"
    by (simp add: mult.assoc)
  then have "(256 * v + uint b) div 2 ^ j = 2 * (2 ^ (7 - j) * v) + uint b div 2 ^ j"
    by (simp only: div_mult_self2 [of "2 ^ j" "uint b"] power_not_zero zero_neq_numeral not_False_eq_True)
  then show ?thesis by simp
qed

lemma be_value_bit:
  assumes "p < 8 * length r"
  shows "(be_value r div 2 ^ (8 * length r - 1 - p)) mod 2 = (uint (r ! (p div 8)) div 2 ^ (7 - p mod 8)) mod 2"
  using assms
proof (induction r rule: rev_induct)
  case Nil
  then show ?case by simp
next
  case (snoc b r)
  show ?case
  proof (cases "p < 8 * length r")
    case True
    then have e: "8 * length (r @ [b]) - 1 - p = 8 + (8 * length r - 1 - p)" by simp
    have "p div 8 < length r" using True by simp
    then have "(r @ [b]) ! (p div 8) = r ! (p div 8)" by (simp add: nth_append)
    then show ?thesis
      using snoc.IH [OF True] by (simp only: e be_value_snoc byte_shift_high)
  next
    case False
    define d where "d = p - 8 * length r"
    with False snoc.prems have d: "p = 8 * length r + d" "d < 8" by auto
    then have p: "p div 8 = length r" "p mod 8 = p - 8 * length r" by simp_all
    then have "8 * length (r @ [b]) - 1 - p = 7 - p mod 8" using False by simp
    with p show ?thesis by (simp add: be_value_snoc byte_shift_low nth_append)
  qed
qed

lemma extract_bits_value:
  assumes "p + n \<le> 8 * length r"
  shows "extract_bits r (int p) n raw = Inr (raw * 2 ^ n + (be_value r div 2 ^ (8 * length r - p - n)) mod 2 ^ n)"
  using assms
proof (induction n arbitrary: p raw)
  case 0
  then show ?case by simp
next
  case (Suc n)
  let ?m = "8 * length r - p - Suc n"
  let ?b = "(be_value r div 2 ^ (8 * length r - 1 - p)) mod 2"
  have nth: "py_nth r (int p div 8) = Some (r ! (p div 8))"
    using Suc.prems by (auto simp: py_nth_def Let_def nat_div_distrib)
  have bit: "(uint (r ! (p div 8)) div 2 ^ nat (7 - int p mod 8)) mod 2 = ?b"
    using Suc.prems be_value_bit [of p r] by (simp add: nat_diff_distrib nat_mod_distrib)
  have split: "(v :: int) mod 2 ^ Suc n = (v div 2 ^ n) mod 2 * 2 ^ n + v mod 2 ^ n" for v
    using mod_mult2_eq' [of v "2 ^ n" 2] by (simp add: mult.commute)
  have top: "(be_value r div 2 ^ ?m) div 2 ^ n = be_value r div 2 ^ (8 * length r - 1 - p)"
    using Suc.prems by (simp flip: zdiv_zmult2_eq power_add)
  have "extract_bits r (int p) (Suc n) raw = extract_bits r (int (p + 1)) n (2 * raw + ?b)"
    by (simp add: nth bit add.commute)
  also have "\<dots> = Inr ((2 * raw + ?b) * 2 ^ n + (be_value r div 2 ^ ?m) mod 2 ^ n)"
    using Suc.IH [of "p + 1"] Suc.prems by simp
  also have "(be_value r div 2 ^ ?m) mod 2 ^ Suc n = ?b * 2 ^ n + (be_value r div 2 ^ ?m) mod 2 ^ n"
    by (simp only: split [of "be_value r div 2 ^ ?m"] top)
  then have "(2 * raw + ?b) * 2 ^ n + (be_value r div 2 ^ ?m) mod 2 ^ n
      = raw * 2 ^ Suc n + (be_value r div 2 ^ ?m) mod 2 ^ Suc n"
    by (simp only: power_Suc distrib_right mult.assoc mult.commute [of 2] mult.left_commute add.assoc)
  finally show ?case .
qed

text \<open>The bits of element \<open>k\<close> of a field as an unsigned number.\<close>

definition field_slice :: "field_rec \<Rightarrow> bytes \<Rightarrow> int \<Rightarrow> int" where
  "field_slice f r k =
     (be_value r div 2 ^ nat (8 * int (length r) - (bit_pos f + k * repeat_stride f) - bit_size f))
       mod 2 ^ nat (bit_size f)"

definition fits_response :: "field_rec \<Rightarrow> bytes \<Rightarrow> int \<Rightarrow> bool" where
  "fits_response f r k \<longleftrightarrow>
     0 \<le> bit_pos f + k * repeat_stride f \<and>
     bit_pos f + k * repeat_stride f + bit_size f \<le> 8 * int (length r)"

lemma extract_bits_slice:
  assumes "fits_response f r k" and "0 \<le> bit_size f"
  shows "extract_bits r (bit_pos f + k * repeat_stride f) (nat (bit_size f)) 0 = Inr (field_slice f r k)"
proof -
  obtain p n where p: "bit_pos f + k * repeat_stride f = int p" and n: "bit_size f = int n"
    using assms by (metis fits_response_def nonneg_int_cases)
  have le: "p + n \<le> 8 * length r" using assms p n by (simp add: fits_response_def)
  then have "nat (8 * int (length r) - int p - int n) = 8 * length r - p - n" by linarith
  with extract_bits_value [OF le, of 0] show ?thesis
    by (simp add: p n field_slice_def)
qed

lemma field_slice_bounds: "0 \<le> field_slice f r k" "field_slice f r k < 2 ^ nat (bit_size f)"
  by (simp_all add: field_slice_def)



text \<open>Nothing sign-extends a signed field of exactly 64 bits: all ones read as \<open>2^64 - 1\<close>, where the
  device's \<open>int64_t\<close> reads -1.\<close>

lemma signed_64_not_extended:
  "extract_field \<lparr>f_name = ''t'', bit_pos = 0, bit_size = 64, f_unit = [], f_signed = True, byteswap = False,
      f_ascii = False, hexdump = False, f_scales = [], repeat_count = 1, repeat_stride = 0\<rparr>
      (replicate 8 0xFF) 0 = Inr (2 ^ 64 - 1)"
  by code_simp

section \<open>Facts about rounding\<close>

lemma pow2_powi: "pow2 e = 2 powi e"
  by (auto simp: pow2_def power_int_def power_one_over inverse_eq_divide)

lemma pow2_add: "pow2 (a + b) = pow2 a * pow2 b"
  by (simp add: pow2_powi power_int_add)

lemma pow2_pos: "0 < pow2 e"
  by (simp add: pow2_powi)

lemma pow2_less: "pow2 a < pow2 b \<Longrightarrow> a < b"
  by (metis linorder_not_less pow2_powi power_int_increasing one_le_numeral)

lemma pow2_nat: "pow2 (int n) = 2 ^ n"
  by (simp add: pow2_def)

lemma div_bounds: "0 < b \<Longrightarrow> a div b * b \<le> a \<and> a < (a div b + 1) * b" for a b :: int
  using div_mult_mod_eq [of a b] pos_mod_bound [of b a] pos_mod_sign [of b a]
  unfolding distrib_right mult_1_left by linarith

lemma bit_len_upper: "n < 2 ^ bit_len n"
proof (induction n rule: bit_len.induct)
  case (1 n)
  then show ?case
    by (cases "n = 0") (simp_all add: bit_len.simps [of n] bit_len.simps [of 0], linarith?)
qed

lemma bit_len_lower: "0 < n \<Longrightarrow> 2 ^ (bit_len n - 1) \<le> n"
proof (induction n rule: bit_len.induct)
  case (1 n)
  show ?case
  proof (cases "n div 2 = 0")
    case True
    with "1.prems" show ?thesis by (simp add: bit_len.simps [of n] bit_len.simps [of 0])
  next
    case False
    with 1 have "2 ^ (bit_len (n div 2) - 1) \<le> n div 2" by simp
    moreover have "0 < bit_len (n div 2)" using False by (subst bit_len.simps) simp
    then have "2 ^ bit_len (n div 2) = 2 * (2::nat) ^ (bit_len (n div 2) - 1)"
      by (metis Suc_diff_1 power_Suc)
    ultimately show ?thesis using "1.prems" by (simp add: bit_len.simps [of n])
  qed
qed

lemma scaled_le_rat: "2 ^ n * b \<le> (a :: int) \<Longrightarrow> 2 ^ n * of_int b \<le> (of_int a :: rat)"
  by (drule of_int_le_iff [where 'a = rat, THEN iffD2]) simp

lemma scaled_less_rat: "2 ^ n * b < (a :: int) \<Longrightarrow> 2 ^ n * of_int b < (of_int a :: rat)"
  by (drule of_int_less_iff [where 'a = rat, THEN iffD2]) simp

lemma le_scaled_rat: "a \<le> 2 ^ n * (b :: int) \<Longrightarrow> (of_int a :: rat) \<le> 2 ^ n * of_int b"
  by (drule of_int_le_iff [where 'a = rat, THEN iffD2]) simp

lemma less_scaled_rat: "a < 2 ^ n * (b :: int) \<Longrightarrow> (of_int a :: rat) < 2 ^ n * of_int b"
  by (drule of_int_less_iff [where 'a = rat, THEN iffD2]) simp

lemma log2_floor_bounds:
  assumes "0 < a" and "0 < b"
  shows "pow2 (log2_floor a b) * of_int b \<le> of_int a \<and> of_int a < pow2 (log2_floor a b + 1) * of_int b"
proof (cases "a \<ge> b")
  case True
  define q where "q = nat (a div b)"
  have q: "0 < q" and qi: "int q = a div b"
    using True assms by (simp_all add: q_def pos_imp_zdiv_pos_iff pos_imp_zdiv_nonneg_iff)
  have lo: "2 ^ (bit_len q - 1) \<le> int q" using bit_len_lower [OF q] by (metis of_nat_le_iff of_nat_numeral of_nat_power)
  have up: "int q + 1 \<le> 2 ^ bit_len q" using bit_len_upper [of q]
    by (metis Suc_leI add.commute of_nat_Suc of_nat_le_iff of_nat_numeral of_nat_power)
  have len: "0 < bit_len q" using q by (subst bit_len.simps) simp
  have e: "log2_floor a b = int (bit_len q - 1)" "log2_floor a b + 1 = int (bit_len q)"
    using True len by (simp_all add: log2_floor_def q_def of_nat_diff)
  have "int q * b \<le> a" using qi div_bounds [OF assms(2), of a] by simp
  then have 1: "2 ^ (bit_len q - 1) * b \<le> a" using mult_right_mono [OF lo, of b] assms by linarith
  have "a < (int q + 1) * b" using qi div_bounds [OF assms(2), of a] by simp
  then have 2: "a < 2 ^ bit_len q * b" using mult_right_mono [OF up, of b] assms by linarith
  show ?thesis
    unfolding e(2) unfolding e(1) pow2_nat using scaled_le_rat [OF 1] less_scaled_rat [OF 2] by (rule conjI)
next
  case False
  define q where "q = nat ((b - 1) div a)"
  have q: "0 < q" and qi: "int q = (b - 1) div a"
    using False assms by (simp_all add: q_def pos_imp_zdiv_pos_iff pos_imp_zdiv_nonneg_iff)
  define L where "L = bit_len q"
  have lo: "2 ^ (L - 1) \<le> int q" using bit_len_lower [OF q] unfolding L_def
    by (metis of_nat_le_iff of_nat_numeral of_nat_power)
  have up: "int q + 1 \<le> 2 ^ L" using bit_len_upper [of q] unfolding L_def
    by (metis Suc_leI add.commute of_nat_Suc of_nat_le_iff of_nat_numeral of_nat_power)
  have len: "0 < L" using q unfolding L_def by (subst bit_len.simps) simp
  have e: "log2_floor a b = - int L" using False by (simp add: log2_floor_def q_def L_def)
  have "b - 1 < (int q + 1) * a" using qi div_bounds [OF assms(1), of "b - 1"] by simp
  then have 1: "b \<le> 2 ^ L * a" using mult_right_mono [OF up, of a] assms by linarith
  have "int q * a \<le> b - 1" using qi div_bounds [OF assms(1), of "b - 1"] by simp
  then have 2: "2 ^ (L - 1) * a < b" using mult_right_mono [OF lo, of a] assms by linarith
  have p1: "pow2 (- int L) = 1 / 2 ^ L" using len by (simp add: pow2_def)
  have p2: "pow2 (- int L + 1) = 1 / 2 ^ (L - 1)"
  proof -
    obtain l where l: "L = Suc l" using len by (cases L) auto
    then have "- int L + 1 = - int l" by simp
    then show ?thesis by (simp add: pow2_def l)
  qed
  have "(of_int b :: rat) \<le> 2 ^ L * of_int a" by (rule le_scaled_rat [OF 1])
  moreover have "2 ^ (L - 1) * of_int a < (of_int b :: rat)" by (rule scaled_less_rat [OF 2])
  ultimately show ?thesis
    unfolding e p1 p2 by (simp add: divide_simps mult.commute)
qed

lemma round_even_int: "round_even (of_int n) = n"
  by (simp add: round_even_def)

lemma round53_exact:
  assumes "\<bar>n\<bar> < 2 ^ 53"
  shows "round53 (of_int n * pow2 k) = of_int n * pow2 k"
proof (cases "n = 0")
  case True
  then show ?thesis by (simp add: round53_def)
next
  case False
  let ?x = "of_int n * pow2 k"
  obtain a b where q: "quotient_of \<bar>?x\<bar> = (a, b)" by (cases "quotient_of \<bar>?x\<bar>")
  have x0: "\<bar>?x\<bar> > 0" using False pow2_pos [of k] by simp
  have b: "0 < b" and xab: "\<bar>?x\<bar> = of_int a / of_int b"
    using q quotient_of_denom_pos quotient_of_div by blast+
  then have a: "0 < a" using x0 by (simp add: zero_less_divide_iff)
  define e where "e = log2_floor a b"
  have lo: "pow2 e \<le> \<bar>?x\<bar>"
    using log2_floor_bounds [OF a b] b unfolding e_def [symmetric] xab by (simp add: pos_le_divide_eq)
  have absx: "\<bar>?x\<bar> = of_int \<bar>n\<bar> * pow2 k" using pow2_pos [of k] by (simp add: abs_mult)
  have "(of_int \<bar>n\<bar> :: rat) < 2 ^ 53"
    using assms by (metis of_int_less_iff of_int_numeral of_int_power)
  then have "\<bar>?x\<bar> < pow2 (53 + k)"
    using pow2_pos [of k] pow2_nat [of 53] unfolding absx pow2_add by simp
  then have "e < 53 + k" using lo by (intro pow2_less) linarith
  then have ek: "0 \<le> k + 52 - e" by simp
  have p: "pow2 (52 - e) * pow2 (e - 52) = 1"
    by (simp flip: pow2_add) (simp add: pow2_def)
  have "\<bar>?x\<bar> * pow2 (52 - e) = of_int \<bar>n\<bar> * pow2 (k + 52 - e)"
    unfolding absx mult.assoc pow2_add [symmetric] by (simp add: algebra_simps)
  also have "\<dots> = of_int (\<bar>n\<bar> * 2 ^ nat (k + 52 - e))" using ek by (simp add: pow2_def)
  finally have r: "of_int (round_even (\<bar>?x\<bar> * pow2 (52 - e))) = \<bar>?x\<bar> * pow2 (52 - e)"
    by (simp only: round_even_int)
  have "round53 ?x = sgn ?x * (\<bar>?x\<bar> * pow2 (52 - e)) * pow2 (e - 52)"
    using x0 by (simp only: round53_def q Let_def prod.case e_def [symmetric] r) auto
  also have "\<dots> = sgn ?x * \<bar>?x\<bar>" using p by (simp add: mult.assoc)
  finally show ?thesis by (simp add: sgn_mult_abs)
qed

lemma f32_significand:
  assumes "f32_value w = Fin q"
  shows "\<exists>m c. \<bar>m\<bar> < 2 ^ 24 \<and> q = of_int m * pow2 c"
proof -
  define m where "m = uint (w AND 0x7FFFFF)"
  have "uint (w AND 0x7FFFFF) \<le> uint (0x7FFFFF :: 32 word)"
    by (metis word_and_le1 word_le_def)
  then have m: "0 \<le> m" "m < 8388608" by (simp_all add: m_def)
  define ex where "ex = uint (drop_bit 23 w AND 0xFF)"
  have "\<exists>m' c. 0 \<le> m' \<and> m' < 2 ^ 24 \<and> (q = of_int m' * pow2 c \<or> q = - (of_int m' * pow2 c))"
  proof (cases "ex = 0")
    case True
    then have "q = of_int m * pow2 (- 149) \<or> q = - (of_int m * pow2 (- 149))"
      using assms unfolding f32_value_def Let_def m_def [symmetric] ex_def [symmetric] by (auto split: if_splits)
    with m show ?thesis by (intro exI [of _ m] exI [of _ "- 149"]) auto
  next
    case False
    then have "q = of_int (m + 8388608) * pow2 (ex - 150) \<or> q = - (of_int (m + 8388608) * pow2 (ex - 150))"
      using assms unfolding f32_value_def Let_def m_def [symmetric] ex_def [symmetric] by (auto split: if_splits)
    with m show ?thesis by (intro exI [of _ "m + 8388608"] exI [of _ "ex - 150"]) auto
  qed
  then obtain m' c where "0 \<le> m'" "m' < 2 ^ 24" "q = of_int m' * pow2 c \<or> q = of_int (- m') * pow2 c"
    by auto
  then show ?thesis by (metis abs_minus_cancel abs_of_nonneg)
qed

section \<open>Facts about evaluation\<close>

lemma evaluate_rows_find:
  "evaluate_rows ss raw =
     (case find (\<lambda>s. s_low s \<le> raw \<and> raw \<le> s_high s) ss of
        None \<Rightarrow> (None, None)
      | Some s \<Rightarrow> (if s_invalid s then None else Some (linear_value s raw), text_or_none (s_text s)))"
  by (induction ss) auto

lemma linear_exact:
  assumes "f32_value (s_factor s) = Fin q" and "f32_value (s_offset s) = Fin 0" and "\<bar>raw\<bar> < 2 ^ 29"
  shows "linear_value s raw = Fin (of_int raw * q)"
proof -
  obtain m c where mc: "\<bar>m\<bar> < 2 ^ 24" "q = of_int m * pow2 c"
    using f32_significand [OF assms(1)] by blast
  have "\<bar>raw\<bar> < 2 ^ 53" using assms(3) by simp
  from round53_exact [OF this, of 0] have "round53 (of_int raw) = of_int raw"
    by (simp add: pow2_def)
  moreover have "\<bar>raw * m\<bar> < 2 ^ 53"
  proof -
    have "\<bar>raw\<bar> * \<bar>m\<bar> \<le> (2 ^ 29 - 1) * (2 ^ 24 - 1)"
      using assms(3) mc(1) by (intro mult_mono) auto
    then show ?thesis by (simp add: abs_mult)
  qed
  from round53_exact [OF this, of c] have "round53 (of_int raw * q) = of_int raw * q"
    by (simp add: mc(2) mult.assoc)
  ultimately show ?thesis by (simp add: linear_value_def py_float_def assms)
qed



section \<open>Facts about name resolution\<close>

text \<open>The records a name denotes, read off the catalog.\<close>

definition bears :: "catalog \<Rightarrow> string \<Rightarrow> nat \<times> nat \<Rightarrow> bool" where
  "bears cat name t \<longleftrightarrow>
     (case t of (k, i) \<Rightarrow>
        (k = KIND_ECU \<and> i < length cat \<and> e_name (cat ! i) = name) \<or>
        (k = KIND_GROUP \<and> i < length (cat_groups cat) \<and>
           (g_name (cat_groups cat ! i) = name \<or> name \<in> set (g_aliases (cat_groups cat ! i)))) \<or>
        (k = KIND_FIELD \<and> i < length (cat_fields cat) \<and> f_name (cat_fields cat ! i) = name))"

definition denoted :: "catalog \<Rightarrow> string \<Rightarrow> nat option \<Rightarrow> (nat \<times> nat) set" where
  "denoted cat name want = {t. bears cat name t \<and> (want = None \<or> want = Some (fst t))}"

fun refers :: "catalog \<Rightarrow> resolution \<Rightarrow> nat \<times> nat \<Rightarrow> bool" where
  "refers cat (REcu i e) t = (t = (KIND_ECU, i) \<and> cat ! i = e)"
| "refers cat (RGroup i g e) t = (t = (KIND_GROUP, i) \<and> cat_groups cat ! i = g \<and> e \<in> set cat \<and> g \<in> set (e_groups e))"
| "refers cat (RField i f g e) t =
     (t = (KIND_FIELD, i) \<and> cat_fields cat ! i = f \<and> e \<in> set cat \<and> g \<in> set (e_groups e) \<and> f \<in> set (g_fields g))"

lemma kinds_distinct: "KIND_ECU \<noteq> KIND_GROUP" "KIND_ECU \<noteq> KIND_FIELD" "KIND_GROUP \<noteq> KIND_FIELD"
  "KIND_GROUP \<noteq> KIND_ECU" "KIND_FIELD \<noteq> KIND_ECU" "KIND_FIELD \<noteq> KIND_GROUP"
  by (simp_all add: KIND_ECU_def KIND_GROUP_def KIND_FIELD_def)

lemma ex_enum_Cons:
  "(\<exists>x. (j, x) \<in> set (enumerate i (y # ys)) \<and> P x) \<longleftrightarrow>
     (j = i \<and> P y) \<or> (\<exists>x. (j, x) \<in> set (enumerate (i + 1) ys) \<and> P x)"
  by auto

lemma ex_enum:
  "(\<exists>x. (i, x) \<in> set (enumerate 0 xs) \<and> P x) \<longleftrightarrow> i < length xs \<and> P (xs ! i)"
  by (auto simp: in_set_enumerate_eq)

lemma ex_enum_append:
  "(\<exists>x. (j, x) \<in> set (enumerate i (xs @ ys)) \<and> P x) \<longleftrightarrow>
     (\<exists>x. (j, x) \<in> set (enumerate i xs) \<and> P x) \<or> (\<exists>x. (j, x) \<in> set (enumerate (i + length xs) ys) \<and> P x)"
  by (auto simp: enumerate_append_eq add.commute)

lemma field_adds_set:
  "(n, k, j) \<in> set (field_adds fi fs) \<longleftrightarrow> k = KIND_FIELD \<and> (\<exists>f. (j, f) \<in> set (enumerate fi fs) \<and> f_name f = n)"
  by (induction fs arbitrary: fi) auto

lemma group_adds_set:
  "(n, k, j) \<in> set (group_adds gi fi gs) \<longleftrightarrow>
     (k = KIND_GROUP \<and> (\<exists>g. (j, g) \<in> set (enumerate gi gs) \<and> (g_name g = n \<or> n \<in> set (g_aliases g)))) \<or>
     (k = KIND_FIELD \<and> (\<exists>f. (j, f) \<in> set (enumerate fi (concat (map g_fields gs))) \<and> f_name f = n))"
proof (induction gs arbitrary: gi fi)
  case Nil
  then show ?case by simp
next
  case (Cons g gs)
  have "(n, k, j) \<in> set (group_adds gi fi (g # gs)) \<longleftrightarrow>
      (k = KIND_GROUP \<and> j = gi \<and> (g_name g = n \<or> n \<in> set (g_aliases g))) \<or>
      (n, k, j) \<in> set (field_adds fi (g_fields g)) \<or>
      (n, k, j) \<in> set (group_adds (gi + 1) (fi + length (g_fields g)) gs)"
    by auto
  also have "\<dots> \<longleftrightarrow> (k = KIND_GROUP \<and> (\<exists>g'. (j, g') \<in> set (enumerate gi (g # gs)) \<and> (g_name g' = n \<or> n \<in> set (g_aliases g')))) \<or>
     (k = KIND_FIELD \<and> (\<exists>f. (j, f) \<in> set (enumerate fi (concat (map g_fields (g # gs)))) \<and> f_name f = n))"
    unfolding Cons.IH field_adds_set list.map concat.simps ex_enum_Cons ex_enum_append by blast
  finally show ?case .
qed

lemma cat_groups_Cons: "cat_groups (e # es) = e_groups e @ cat_groups es"
  by (simp add: cat_groups_def)

lemma cat_fields_Cons: "cat_fields (e # es) = cat_fields [e] @ cat_fields es"
  by (simp add: cat_fields_def cat_groups_def)

lemma ecu_adds_set:
  "(n, k, j) \<in> set (ecu_adds ei gi fi cat) \<longleftrightarrow>
     (k = KIND_ECU \<and> (\<exists>e. (j, e) \<in> set (enumerate ei cat) \<and> e_name e = n)) \<or>
     (k = KIND_GROUP \<and> (\<exists>g. (j, g) \<in> set (enumerate gi (cat_groups cat)) \<and> (g_name g = n \<or> n \<in> set (g_aliases g)))) \<or>
     (k = KIND_FIELD \<and> (\<exists>f. (j, f) \<in> set (enumerate fi (cat_fields cat)) \<and> f_name f = n))"
proof (induction cat arbitrary: ei gi fi)
  case Nil
  then show ?case by (simp add: cat_groups_def cat_fields_def)
next
  case (Cons e es)
  have one: "concat (map g_fields (e_groups e)) = cat_fields [e]" by (simp add: cat_fields_def cat_groups_def)
  have "(n, k, j) \<in> set (ecu_adds ei gi fi (e # es)) \<longleftrightarrow>
      (k = KIND_ECU \<and> j = ei \<and> e_name e = n) \<or> (n, k, j) \<in> set (group_adds gi fi (e_groups e)) \<or>
      (n, k, j) \<in> set (ecu_adds (ei + 1) (gi + length (e_groups e)) (fi + length (cat_fields [e])) es)"
    by auto
  then show ?case
    unfolding Cons.IH group_adds_set one cat_groups_Cons cat_fields_Cons [of e es] ex_enum_Cons ex_enum_append
    by blast
qed

lemma add_target_lookup:
  "map_of (add_target name t out) n =
     (if n = name then Some (case map_of out n of None \<Rightarrow> [t] | Some ts \<Rightarrow> if t \<in> set ts then ts else ts @ [t])
      else map_of out n)"
  by (induction out) auto

definition hits_of :: "(string \<times> (nat \<times> nat) list) list \<Rightarrow> string \<Rightarrow> (nat \<times> nat) list" where
  "hits_of out n = (case map_of out n of None \<Rightarrow> [] | Some ts \<Rightarrow> ts)"

lemma targets_fold:
  assumes "n \<noteq> []" and "distinct (hits_of out n)"
  shows "set (hits_of (foldl (\<lambda>out (name, k, i). if name \<noteq> [] then add_target name (k, i) out else out) out adds) n)
      = set (hits_of out n) \<union> {t. (n, t) \<in> set adds}
   \<and> distinct (hits_of (foldl (\<lambda>out (name, k, i). if name \<noteq> [] then add_target name (k, i) out else out) out adds) n)"
  using assms
proof (induction adds arbitrary: out)
  case Nil
  then show ?case by simp
next
  case (Cons a adds)
  obtain name k i where a: "a = (name, k, i)" by (cases a)
  define out' where "out' = (if name \<noteq> [] then add_target name (k, i) out else out)"
  have d: "distinct (hits_of out' n)"
    using Cons.prems by (auto simp: out'_def hits_of_def add_target_lookup split: option.splits)
  have s: "set (hits_of out' n) = set (hits_of out n) \<union> {t. (n, t) = (name, k, i)}"
    using Cons.prems by (auto simp: out'_def hits_of_def add_target_lookup split: option.splits)
  have e: "{t. (n, t) \<in> set (a # adds)} = {t. (n, t) = (name, k, i)} \<union> {t. (n, t) \<in> set adds}"
    by (auto simp: a)
  show ?case
    using Cons.IH [OF Cons.prems(1) d]
    by (simp only: foldl.simps a [symmetric] e) (simp only: a prod.case out'_def [symmetric] s Un_assoc simp_thms)
qed

lemma targets_hits:
  assumes "n \<noteq> []"
  shows "set (hits_of (targets cat) n) = {t. bears cat n t}" and "distinct (hits_of (targets cat) n)"
proof -
  have h: "set (hits_of (targets cat) n) = {t. (n, t) \<in> set (ecu_adds 0 0 0 cat)} \<and> distinct (hits_of (targets cat) n)"
    using targets_fold [OF assms, of "[]" "ecu_adds 0 0 0 cat"] by (simp add: targets_def hits_of_def)
  have "(n, t) \<in> set (ecu_adds 0 0 0 cat) \<longleftrightarrow> bears cat n t" for t
  proof -
    obtain k i where t: "t = (k, i)" by (cases t)
    show ?thesis unfolding t bears_def ecu_adds_set prod.case ex_enum by simp
  qed
  with h show "set (hits_of (targets cat) n) = {t. bears cat n t}" "distinct (hits_of (targets cat) n)"
    by simp_all
qed

lemma locate_group_GROUP:
  "(index, g) \<in> set (enumerate gi gs) \<Longrightarrow> locate_group KIND_GROUP index gi fi e gs = Some (RGroup index g e)"
proof (induction gs arbitrary: gi fi)
  case Nil
  then show ?case by simp
next
  case (Cons h gs)
  then show ?case
    by (cases "index = gi") (auto simp: kinds_distinct in_set_enumerate_eq)
qed

lemma locate_group_none:
  "locate_group KIND_ECU index gi fi e gs = None"
  "index \<notin> {gi..<gi + length gs} \<Longrightarrow> locate_group KIND_GROUP index gi fi e gs = None"
  "index \<notin> {fi..<fi + length (concat (map g_fields gs))} \<Longrightarrow> locate_group KIND_FIELD index gi fi e gs = None"
  by (induction gs arbitrary: gi fi) (auto simp: kinds_distinct)

lemma locate_group_FIELD:
  "(index, f) \<in> set (enumerate fi (concat (map g_fields gs))) \<Longrightarrow>
   \<exists>g\<in>set gs. f \<in> set (g_fields g) \<and> locate_group KIND_FIELD index gi fi e gs = Some (RField index f g e)"
proof (induction gs arbitrary: gi fi)
  case Nil
  then show ?case by simp
next
  case (Cons g gs)
  show ?case
  proof (cases "fi \<le> index \<and> index < fi + length (g_fields g)")
    case True
    then have "f = g_fields g ! (index - fi)" using Cons.prems
      by (auto simp: in_set_enumerate_eq nth_append)
    with True show ?thesis by (auto simp: kinds_distinct)
  next
    case False
    have "(index, f) \<in> set (enumerate (fi + length (g_fields g)) (concat (map g_fields gs)))"
      using Cons.prems False by (auto simp: enumerate_append_eq in_set_enumerate_eq add.commute)
    from Cons.IH [OF this, of "gi + 1"] False show ?thesis by (auto simp: kinds_distinct)
  qed
qed

lemma locate_ecu_finds:
  "(j, e) \<in> set (enumerate ei cat) \<Longrightarrow> locate_ecu KIND_ECU j ei gi fi cat = Some (REcu j e)"
  "(j, g) \<in> set (enumerate gi (cat_groups cat)) \<Longrightarrow>
     \<exists>e\<in>set cat. g \<in> set (e_groups e) \<and> locate_ecu KIND_GROUP j ei gi fi cat = Some (RGroup j g e)"
  "(j, f) \<in> set (enumerate fi (cat_fields cat)) \<Longrightarrow>
     \<exists>e\<in>set cat. \<exists>g\<in>set (e_groups e). f \<in> set (g_fields g) \<and>
       locate_ecu KIND_FIELD j ei gi fi cat = Some (RField j f g e)"
proof (induction cat arbitrary: ei gi fi)
  case Nil
  { case 1 then show ?case by simp }
  { case 2 then show ?case by (simp add: cat_groups_def) }
  { case 3 then show ?case by (simp add: cat_fields_def cat_groups_def) }
next
  case (Cons a es)
  have one: "concat (map g_fields (e_groups a)) = cat_fields [a]" by (simp add: cat_fields_def cat_groups_def)
  {
    case 1
    then show ?case using Cons.IH(1) [of "ei + 1"]
      by (cases "j = ei") (auto simp: locate_group_none in_set_enumerate_eq)
  next
    case 2
    show ?case
    proof (cases "(j, g) \<in> set (enumerate gi (e_groups a))")
      case True
      then have "g \<in> set (e_groups a)" by (metis in_set_enumerate_eq nth_mem snd_conv fst_conv
          less_diff_conv2)
      with True show ?thesis by (auto simp: locate_group_GROUP kinds_distinct)
    next
      case False
      with 2 have m: "(j, g) \<in> set (enumerate (gi + length (e_groups a)) (cat_groups es))"
        by (auto simp: cat_groups_Cons enumerate_append_eq add.commute)
      then have "j \<notin> {gi..<gi + length (e_groups a)}" by (auto simp: in_set_enumerate_eq)
      with Cons.IH(2) [OF m, of "ei + 1" "fi + length (cat_fields [a])"] show ?thesis
        by (auto simp: locate_group_none kinds_distinct)
    qed
  next
    case 3
    show ?case
    proof (cases "(j, f) \<in> set (enumerate fi (cat_fields [a]))")
      case True
      then obtain g where "g \<in> set (e_groups a)" "f \<in> set (g_fields g)"
          "locate_group KIND_FIELD j gi fi a (e_groups a) = Some (RField j f g a)"
        using locate_group_FIELD [of j f fi "e_groups a" gi a] by (auto simp: one)
      then show ?thesis by (auto simp: kinds_distinct)
    next
      case False
      with 3 have m: "(j, f) \<in> set (enumerate (fi + length (cat_fields [a])) (cat_fields es))"
        by (auto simp: cat_fields_Cons [of a es] enumerate_append_eq add.commute)
      then have "j \<notin> {fi..<fi + length (concat (map g_fields (e_groups a)))}"
        by (auto simp: in_set_enumerate_eq one)
      with Cons.IH(3) [OF m, of "ei + 1" "gi + length (e_groups a)"] show ?thesis
        by (auto simp: locate_group_none kinds_distinct)
    qed
  }
qed

lemma locate_bears:
  assumes "bears cat name t"
  shows "\<exists>r. locate cat t = Inr r \<and> refers cat r t"
proof -
  obtain k i where t: "t = (k, i)" by (cases t)
  from assms consider
      (ecu) e where "k = KIND_ECU" "i < length cat" "(i, e) \<in> set (enumerate 0 cat)"
    | (group) g where "k = KIND_GROUP" "i < length (cat_groups cat)" "(i, g) \<in> set (enumerate 0 (cat_groups cat))"
    | (fld) f where "k = KIND_FIELD" "i < length (cat_fields cat)" "(i, f) \<in> set (enumerate 0 (cat_fields cat))"
    by (auto simp: bears_def t in_set_enumerate_eq)
  then show ?thesis
  proof cases
    case ecu
    with locate_ecu_finds(1) [OF ecu(3), of 0 0] show ?thesis
      by (auto simp: t locate_def in_set_enumerate_eq)
  next
    case group
    with locate_ecu_finds(2) [OF group(3), of 0 0] show ?thesis
      by (auto simp: t locate_def in_set_enumerate_eq)
  next
    case fld
    with locate_ecu_finds(3) [OF fld(3), of 0 0] show ?thesis
      by (auto simp: t locate_def in_set_enumerate_eq)
  qed
qed

text \<open>
  C28: name resolution finds the one record of that name or says why not.  For a nonempty name
  \<open>resolve\<close> returns a record iff exactly one record of the wanted kind bears the name, and it is
  that record, found where the flat tables hold it; it reports an unknown name iff none does,
  and an ambiguous one with exactly the records that do; it never reports a dangling index.
\<close>

theorem resolve_unique:
  assumes "name \<noteq> []"
  shows "case resolve cat name want of
      Inr r \<Rightarrow> \<exists>t. denoted cat name want = {t} \<and> refers cat r t
    | Inl (UnknownNameError n) \<Rightarrow> n = name \<and> denoted cat name want = {}
    | Inl (AmbiguousNameError n hits) \<Rightarrow> n = name \<and> set hits = denoted cat name want \<and> 2 \<le> card (denoted cat name want)
    | Inl _ \<Rightarrow> False"
proof -
  define hits where "hits = filter (\<lambda>(k, i). want = None \<or> want = Some k) (hits_of (targets cat) name)"
  have hs: "set hits = denoted cat name want" and hd: "distinct hits"
    using targets_hits [OF assms, of cat] by (auto simp: hits_def denoted_def)
  have card: "card (denoted cat name want) = length hits"
    using hs hd distinct_card by metis
  have res: "resolve cat name want =
      (case hits of [] \<Rightarrow> Inl (UnknownNameError name) | [t] \<Rightarrow> locate cat t | _ \<Rightarrow> Inl (AmbiguousNameError name hits))"
    unfolding resolve_def Let_def hits_of_def [symmetric] hits_def [symmetric] by (rule refl)
  consider "hits = []" | t where "hits = [t]" | a b c where "hits = a # b # c"
    by (metis list.exhaust)
  then show ?thesis
  proof cases
    case 1
    with res hs show ?thesis by simp
  next
    case (2 t)
    then have "denoted cat name want = {t}" using hs by simp
    moreover from this have "bears cat name t" by (auto simp: denoted_def)
    ultimately show ?thesis using locate_bears [of cat name t] 2 res by auto
  next
    case (3 a b c)
    with res hs card show ?thesis by simp
  qed
qed

definition two_ecus :: catalog where
  "two_ecus = map (\<lambda>n. \<lparr>e_name = n, request_id = 0x7E0, response_id = 0x7E8, extended_id = False, block_size = 8,
     st_min_raw = 0, p2_ms = 50, p2_ext_ms = 5000, e_groups = []\<rparr>) [''engine'', ''gearbox'']"

theorem resolve_unique_witness:
  "case resolve two_ecus ''gearbox'' (Some KIND_ECU) of
      Inr r \<Rightarrow> \<exists>t. denoted two_ecus ''gearbox'' (Some KIND_ECU) = {t} \<and> refers two_ecus r t
    | Inl (UnknownNameError n) \<Rightarrow> n = ''gearbox'' \<and> denoted two_ecus ''gearbox'' (Some KIND_ECU) = {}
    | Inl (AmbiguousNameError n hits) \<Rightarrow> n = ''gearbox'' \<and> set hits = denoted two_ecus ''gearbox'' (Some KIND_ECU) \<and>
        2 \<le> card (denoted two_ecus ''gearbox'' (Some KIND_ECU))
    | Inl _ \<Rightarrow> False"
  by (rule resolve_unique) simp

end
