(* ===== verification/Binary.thy ===== *)
theory Binary
  imports Prelude
begin

unbundle bit_operations_syntax

text \<open>
  What the catalog's file format uses of Python's \<open>struct\<close>, \<open>zlib\<close> and \<open>bytes.decode\<close>:
  little-endian packing and unpacking of integers with the range check of \<open>pack\<close> and the
  length check of \<open>unpack_from\<close>, the CRC-32 and the validity of UTF-8.  A \<open>float\<close> member
  (\<open>f\<close>) travels as its four bytes.
\<close>

section \<open>Integers as bytes\<close>

fun le_bytes :: "nat \<Rightarrow> int \<Rightarrow> bytes" where
  "le_bytes 0 v = []"
| "le_bytes (Suc n) v = word_of_int v # le_bytes n (v div 256)"

fun le_uint :: "bytes \<Rightarrow> int" where
  "le_uint [] = 0"
| "le_uint (b # bs) = uint b + 256 * le_uint bs"

definition le_sint :: "bytes \<Rightarrow> int" where
  "le_sint bs =
     (let v = le_uint bs in if 2 * v < 256 ^ length bs then v else v - 256 ^ length bs)"

lemma le_bytes_length [simp]: "length (le_bytes n v) = n"
  by (induction n arbitrary: v) auto

lemma le_uint_bytes: "le_uint (le_bytes n v) = v mod 256 ^ n"
proof (induction n arbitrary: v)
  case 0
  then show ?case by simp
next
  case (Suc n)
  have "le_uint (le_bytes (Suc n) v) = v mod 256 + 256 * (v div 256 mod 256 ^ n)"
    by (simp add: Suc.IH uint_word_of_int)
  also have "\<dots> = v mod (256 * 256 ^ n)" by (simp add: zmod_zmult2_eq)
  finally show ?case by simp
qed

lemma le_uint_bounds: "0 \<le> le_uint bs \<and> le_uint bs < 256 ^ length bs"
proof (induction bs)
  case Nil
  then show ?case by simp
next
  case (Cons b bs)
  have "0 \<le> uint b" "uint b < 256" using uint_lt2p [of b] by simp_all
  with Cons show ?case by simp
qed

lemma le_uint_nonneg [simp]: "0 \<le> le_uint bs"
  using le_uint_bounds by blast

section \<open>The members of a struct\<close>

text \<open>\<open>U n\<close> is an unsigned member of \<open>n\<close> bytes, \<open>I n\<close> a signed one.\<close>

datatype code = U nat | I nat

fun code_size :: "code \<Rightarrow> nat" where
  "code_size (U n) = n"
| "code_size (I n) = n"

definition calcsize :: "code list \<Rightarrow> nat" where
  "calcsize fmt = sum_list (map code_size fmt)"

fun code_fits :: "code \<Rightarrow> int \<Rightarrow> bool" where
  "code_fits (U n) v \<longleftrightarrow> 0 \<le> v \<and> v < 256 ^ n"
| "code_fits (I n) v \<longleftrightarrow> - (256 ^ n) \<le> 2 * v \<and> 2 * v < 256 ^ n"

fun code_get :: "code \<Rightarrow> bytes \<Rightarrow> int" where
  "code_get (U n) bs = le_uint bs"
| "code_get (I n) bs = le_sint bs"

fun unpack :: "code list \<Rightarrow> bytes \<Rightarrow> int list" where
  "unpack [] bs = []"
| "unpack (c # fmt) bs = code_get c (take (code_size c) bs) # unpack fmt (drop (code_size c) bs)"

text \<open>\<open>Struct.pack\<close>: \<open>None\<close> is the \<open>struct.error\<close> of a value out of range.\<close>

fun pack :: "code list \<Rightarrow> int list \<Rightarrow> bytes option" where
  "pack [] [] = Some []"
| "pack (c # fmt) (v # vs) =
     (if code_fits c v then map_option (\<lambda>bs. le_bytes (code_size c) v @ bs) (pack fmt vs) else None)"
| "pack _ _ = None"

text \<open>\<open>Struct.unpack_from(data, off)\<close> and \<open>Struct.pack_into(blob, off, ...)\<close> for an offset that
  is not negative; \<open>None\<close> is the \<open>struct.error\<close>.\<close>

definition unpack_from :: "code list \<Rightarrow> bytes \<Rightarrow> nat \<Rightarrow> int list option" where
  "unpack_from fmt data off =
     (if off + calcsize fmt \<le> length data then Some (unpack fmt (drop off data)) else None)"

definition put_bytes :: "bytes \<Rightarrow> nat \<Rightarrow> bytes \<Rightarrow> bytes" where
  "put_bytes blob off bs = take off blob @ bs @ drop (off + length bs) blob"

definition pack_into :: "code list \<Rightarrow> bytes \<Rightarrow> nat \<Rightarrow> int list \<Rightarrow> bytes option" where
  "pack_into fmt blob off vs =
     (case pack fmt vs of
        None \<Rightarrow> None
      | Some bs \<Rightarrow> if off + length bs \<le> length blob then Some (put_bytes blob off bs) else None)"

lemma calcsize_simps [simp]:
  "calcsize [] = 0" "calcsize (c # fmt) = code_size c + calcsize fmt"
  by (simp_all add: calcsize_def)

lemma pack_length: "pack fmt vs = Some bs \<Longrightarrow> length bs = calcsize fmt"
  by (induction fmt vs arbitrary: bs rule: pack.induct) (auto split: if_splits)

lemma code_get_bytes: "code_fits c v \<Longrightarrow> code_get c (le_bytes (code_size c) v) = v"
proof (cases c)
  case (U n)
  assume "code_fits c v"
  with U show ?thesis by (simp add: le_uint_bytes)
next
  case (I n)
  assume "code_fits c v"
  with I have b: "- (256 ^ n) \<le> 2 * v" "2 * v < 256 ^ n" by simp_all
  show ?thesis
  proof (cases "0 \<le> v")
    case True
    with b have "v mod 256 ^ n = v" by simp
    with I b show ?thesis by (simp add: le_sint_def le_uint_bytes)
  next
    case False
    have "v mod 256 ^ n = (v + 256 ^ n) mod 256 ^ n" by simp
    also have "\<dots> = v + 256 ^ n" using False b by (intro mod_pos_pos_trivial) auto
    finally show ?thesis using I b by (simp add: le_sint_def le_uint_bytes)
  qed
qed

lemma unpack_pack: "pack fmt vs = Some bs \<Longrightarrow> unpack fmt (bs @ rest) = vs"
proof (induction fmt vs arbitrary: bs rule: pack.induct)
  case (2 c fmt v vs)
  then obtain bs' where "code_fits c v" "pack fmt vs = Some bs'" "bs = le_bytes (code_size c) v @ bs'"
    by (auto split: if_splits)
  with 2 show ?case by (simp add: code_get_bytes)
qed auto

lemma unpack_length [simp]: "length (unpack fmt bs) = length fmt"
  by (induction fmt bs rule: unpack.induct) auto

lemma unpack_take: "calcsize fmt \<le> n \<Longrightarrow> unpack fmt (take n bs) = unpack fmt bs"
proof (induction fmt arbitrary: bs n)
  case Nil
  then show ?case by simp
next
  case (Cons c fmt)
  then have "calcsize fmt \<le> n - code_size c" by simp
  from Cons.IH [OF this, of "drop (code_size c) bs"] Cons.prems show ?case
    by (simp add: drop_take min_def)
qed

section \<open>CRC-32\<close>

text \<open>\<open>zlib.crc32\<close>: the reflected polynomial, bit by bit.\<close>

definition crc_shift :: "32 word \<Rightarrow> 32 word" where
  "crc_shift c = (if bit c 0 then drop_bit 1 c XOR 0xEDB88320 else drop_bit 1 c)"

definition crc_byte :: "32 word \<Rightarrow> 8 word \<Rightarrow> 32 word" where
  "crc_byte c b = (crc_shift ^^ 8) (c XOR ucast b)"

definition crc32 :: "bytes \<Rightarrow> int" where
  "crc32 bs = uint (NOT (foldl crc_byte (NOT 0) bs))"

section \<open>UTF-8\<close>

definition is_cont :: "8 word \<Rightarrow> bool" where
  "is_cont b \<longleftrightarrow> 0x80 \<le> b \<and> b \<le> 0xBF"

text \<open>The well-formed sequences of \<open>bytes.decode("utf-8")\<close> in strict mode.\<close>

fun utf8_valid :: "bytes \<Rightarrow> bool" where
  "utf8_valid [] = True"
| "utf8_valid (a # bs) =
     (if a \<le> 0x7F then utf8_valid bs
      else (case bs of
          [] \<Rightarrow> False
        | b # bs1 \<Rightarrow>
            (if 0xC2 \<le> a \<and> a \<le> 0xDF then is_cont b \<and> utf8_valid bs1
             else (case bs1 of
                [] \<Rightarrow> False
              | c # bs2 \<Rightarrow>
                  (if 0xE0 \<le> a \<and> a \<le> 0xEF then
                     is_cont b \<and> is_cont c \<and> (a = 0xE0 \<longrightarrow> 0xA0 \<le> b) \<and> (a = 0xED \<longrightarrow> b \<le> 0x9F) \<and> utf8_valid bs2
                   else (case bs2 of
                      [] \<Rightarrow> False
                    | d # bs3 \<Rightarrow>
                        0xF0 \<le> a \<and> a \<le> 0xF4 \<and> is_cont b \<and> is_cont c \<and> is_cont d \<and>
                        (a = 0xF0 \<longrightarrow> 0x90 \<le> b) \<and> (a = 0xF4 \<longrightarrow> b \<le> 0x8F) \<and> utf8_valid bs3))))))"

declare utf8_valid.simps(2) [simp del]

end
