(* ===== verification/CatalogFile.thy ===== *)
theory CatalogFile
  imports Catalog Binary "HOL-Library.Product_Lexorder"
begin

text \<open>
  The catalog's file: \<open>write_catalog\<close> and \<open>read_catalog\<close> of \<open>components/uds/catalog.py\<close>.
  Offsets are \<open>nat\<close>, the members of a record \<open>int\<close>, a packed record a list of them in the
  order of the \<open>struct\<close> format.  A scale row's factor and offset travel as bit patterns.
\<close>

section \<open>The records\<close>

definition header_fmt :: "code list" where
  "header_fmt = [U 2, U 2, U 4, U 4, U 4, U 2, U 2, U 4, U 2, U 2, U 4, U 2, U 2, U 4, U 2, U 2,
                 U 4, U 4, U 4, U 4, U 4, U 4, U 4]"

definition ecu_fmt :: "code list" where
  "ecu_fmt = [U 4, U 4, U 4, U 2, U 1, U 1, U 2, U 2, U 2, U 2]"

definition group_fmt :: "code list" where
  "group_fmt = [U 4, U 4, U 1, U 1, U 2, U 2, U 2, U 2, U 2]"

definition field_fmt :: "code list" where
  "field_fmt = [U 4, U 4, U 2, U 1, U 1, U 2, U 1, U 1, U 2, U 2]"

definition scale_fmt :: "code list" where
  "scale_fmt = [I 4, I 4, U 4, U 4, U 4, U 2, U 2]"

definition index_fmt :: "code list" where
  "index_fmt = [U 4, U 4, U 4]"

lemmas fmt_defs = header_fmt_def ecu_fmt_def group_fmt_def field_fmt_def scale_fmt_def index_fmt_def

text \<open>The header with its extension; the magic is the eight bytes in front.\<close>

record header =
  h_version :: int
  h_flags :: int
  total_size :: int
  h_crc :: int
  ecus_off :: int
  ecu_count :: int
  groups_off :: int
  group_count :: int
  fields_off :: int
  field_count :: int
  scales_off :: int
  scale_count :: int
  reqbytes_off :: int
  reqbytes_len :: int
  strings_off :: int
  strings_len :: int
  index_off :: int
  index_count :: int

definition header_of :: "int list \<Rightarrow> header" where
  "header_of v =
     \<lparr>h_version = v ! 0, h_flags = v ! 1, total_size = v ! 2, h_crc = v ! 3,
      ecus_off = v ! 4, ecu_count = v ! 5, groups_off = v ! 7, group_count = v ! 8,
      fields_off = v ! 10, field_count = v ! 11, scales_off = v ! 13, scale_count = v ! 14,
      reqbytes_off = v ! 16, reqbytes_len = v ! 17, strings_off = v ! 18, strings_len = v ! 19,
      index_off = v ! 20, index_count = v ! 21\<rparr>"

section \<open>The writer\<close>

text \<open>The locals of \<open>write_catalog\<close> that its walk fills: the string pool with the offsets handed
  out, the request pool, the scale rows with the runs already stored, the flat records, the
  names to index with their targets, and the running group and field indices.  A dictionary keyed
  by scale runs compares rows by \<open>==\<close>, which identifies the two zeros of a float (NaN rows are
  compared by their bits here, by identity in the source).\<close>

record walk =
  pool :: bytes
  interned :: "(string \<times> nat) list"
  reqpool :: bytes
  req_offs :: "(bytes \<times> nat) list"
  scale_rows :: "scale_rec list"
  scale_runs :: "(scale_rec list \<times> nat) list"
  ecu_recs :: "int list list"
  group_recs :: "int list list"
  field_recs :: "int list list"
  index_names :: "(string \<times> nat \<times> nat) list"
  any_text :: bool
  next_group :: nat
  next_field :: nat

definition new_walk :: walk where
  "new_walk = \<lparr>pool = [0], interned = [([], 0)], reqpool = [], req_offs = [], scale_rows = [], scale_runs = [],
     ecu_recs = [], group_recs = [], field_recs = [], index_names = [], any_text = False,
     next_group = 0, next_field = 0\<rparr>"

definition intern :: "string \<Rightarrow> walk \<Rightarrow> walk" where
  "intern s w =
     (case map_of (interned w) s of
        Some off \<Rightarrow> w
      | None \<Rightarrow> w\<lparr>interned := (s, length (pool w)) # interned w, pool := pool w @ encode s @ [0]\<rparr>)"

text \<open>The offset \<open>intern\<close> returns.\<close>

definition interned_at :: "walk \<Rightarrow> string \<Rightarrow> int" where
  "interned_at w s = (case map_of (interned w) s of None \<Rightarrow> 0 | Some off \<Rightarrow> int off)"

definition intern_req :: "bytes \<Rightarrow> walk \<Rightarrow> walk" where
  "intern_req b w =
     (case map_of (req_offs w) b of
        Some off \<Rightarrow> w
      | None \<Rightarrow> w\<lparr>req_offs := (b, length (reqpool w)) # req_offs w, reqpool := reqpool w @ b\<rparr>)"

definition req_at :: "walk \<Rightarrow> bytes \<Rightarrow> int" where
  "req_at w b = (case map_of (req_offs w) b of None \<Rightarrow> 0 | Some off \<Rightarrow> int off)"

definition f32_eq :: "32 word \<Rightarrow> 32 word \<Rightarrow> bool" where
  "f32_eq a b \<longleftrightarrow> a = b \<or> (a AND 0x7FFFFFFF = 0 \<and> b AND 0x7FFFFFFF = 0)"

definition scale_eq :: "scale_rec \<Rightarrow> scale_rec \<Rightarrow> bool" where
  "scale_eq a b \<longleftrightarrow> s_low a = s_low b \<and> s_high a = s_high b \<and> f32_eq (s_factor a) (s_factor b) \<and>
     f32_eq (s_offset a) (s_offset b) \<and> s_text a = s_text b \<and> s_invalid a = s_invalid b"

definition run_eq :: "scale_rec list \<Rightarrow> scale_rec list \<Rightarrow> bool" where
  "run_eq xs ys \<longleftrightarrow> length xs = length ys \<and> list_all2 scale_eq xs ys"

definition find_run :: "walk \<Rightarrow> scale_rec list \<Rightarrow> nat option" where
  "find_run w run = map_option snd (find (\<lambda>(r, off). run_eq r run) (scale_runs w))"

definition intern_scales :: "scale_rec list \<Rightarrow> walk \<Rightarrow> walk" where
  "intern_scales run w =
     (if run = [] then w
      else (case find_run w run of
        Some first \<Rightarrow> w
      | None \<Rightarrow> w\<lparr>scale_runs := (run, length (scale_rows w)) # scale_runs w, scale_rows := scale_rows w @ run\<rparr>))"

definition run_at :: "walk \<Rightarrow> scale_rec list \<Rightarrow> int" where
  "run_at w run = (if run = [] then 0 else case find_run w run of None \<Rightarrow> 0 | Some first \<Rightarrow> int first)"

definition add_name :: "string \<Rightarrow> nat \<Rightarrow> nat \<Rightarrow> walk \<Rightarrow> walk" where
  "add_name name kind idx w = w\<lparr>index_names := index_names w @ [(name, kind, idx)]\<rparr>"

definition walk_scale :: "scale_rec \<Rightarrow> walk \<Rightarrow> walk" where
  "walk_scale s w = intern (s_text s) (w\<lparr>any_text := any_text w \<or> s_text s \<noteq> []\<rparr>)"

definition walk_field :: "field_rec \<Rightarrow> walk \<Rightarrow> walk" where
  "walk_field f w =
     (let w = intern (f_name f) w;
          w = add_name (f_name f) KIND_FIELD (next_field w) w;
          w = intern (f_unit f) w;
          w = fold walk_scale (f_scales f) w;
          w = intern_scales (f_scales f) w
      in w\<lparr>field_recs := field_recs w @
             [[interned_at w (f_name f), interned_at w (f_unit f), bit_pos f, bit_size f, field_flags f,
               run_at w (f_scales f), int (length (f_scales f)), repeat_count f, repeat_stride f, int (next_group w)]],
           next_field := next_field w + 1\<rparr>)"

definition walk_alias :: "string \<Rightarrow> walk \<Rightarrow> walk" where
  "walk_alias a w = add_name a KIND_GROUP (next_group w) (intern a w)"

definition walk_group :: "group_rec \<Rightarrow> walk \<Rightarrow> walk" where
  "walk_group g w =
     (let w = intern (g_name g) w;
          w = add_name (g_name g) KIND_GROUP (next_group w) w;
          w = fold walk_alias (g_aliases g) w;
          w = intern_req (g_request g) w;
          first = next_field w;
          w = fold walk_field (g_fields g) w
      in w\<lparr>group_recs := group_recs w @
             [[interned_at w (g_name g), req_at w (g_request g), int (length (g_request g)), uint (sid g),
               group_flags g, int first, int (length (g_fields g)), did g, resp_min_len g]],
           next_group := next_group w + 1\<rparr>)"

definition walk_ecu :: "ecu_rec \<Rightarrow> walk \<Rightarrow> walk" where
  "walk_ecu e w =
     (let ei = length (ecu_recs w);
          w = intern (e_name e) w;
          w = add_name (e_name e) KIND_ECU ei w;
          first = next_group w;
          w = fold walk_group (e_groups e) w
      in w\<lparr>ecu_recs := ecu_recs w @
             [[interned_at w (e_name e), request_id e, response_id e, ecu_flags e, block_size e, st_min_raw e,
               p2_ms e, p2_ext_ms e, int first, int (length (e_groups e))]]\<rparr>)"

definition walk_catalog :: "catalog \<Rightarrow> walk" where
  "walk_catalog cat = fold walk_ecu cat new_walk"

text \<open>The entries of the name index: duplicates dropped, sorted by hash, target and reference.\<close>

fun first_seen :: "'a set \<Rightarrow> 'a list \<Rightarrow> 'a list" where
  "first_seen seen [] = []"
| "first_seen seen (x # xs) = (if x \<in> seen then first_seen seen xs else x # first_seen (insert x seen) xs)"

definition target_of :: "nat \<Rightarrow> nat \<Rightarrow> int" where
  "target_of kind idx = push_bit 28 (int kind) OR int idx"

definition index_entries :: "walk \<Rightarrow> (int \<times> int \<times> int) list" where
  "index_entries w =
     sort_key (\<lambda>(hash, ref, target). (hash, target, ref))
       (map (\<lambda>(name, kind, idx). (uint (fnv1a32 (encode name)), interned_at w name, target_of kind idx))
          (first_seen {} (index_names w)))"

definition scale_row :: "walk \<Rightarrow> scale_rec \<Rightarrow> int list" where
  "scale_row w s = [s_low s, s_high s, uint (s_factor s), uint (s_offset s), interned_at w (s_text s),
     (if s_text s \<noteq> [] then 1 else 0) + (if s_invalid s then 2 else 0), 0]"

definition struct_write :: "code list \<Rightarrow> bytes \<Rightarrow> nat \<Rightarrow> int list \<Rightarrow> catalog_error + bytes" where
  "struct_write fmt blob off vs =
     (case pack_into fmt blob off vs of None \<Rightarrow> Inl StructError | Some b \<Rightarrow> Inr b)"

fun write_rows :: "code list \<Rightarrow> nat \<Rightarrow> bytes \<Rightarrow> int list list \<Rightarrow> catalog_error + bytes" where
  "write_rows fmt off blob [] = Inr blob"
| "write_rows fmt off blob (r # rs) =
     bindE (struct_write fmt blob off r) (\<lambda>blob. write_rows fmt (off + calcsize fmt) blob rs)"

text \<open>The layout: the tables in the order of the format, the request pool padded to four bytes,
  the index and the strings last.\<close>

definition layout :: "walk \<Rightarrow> (int \<times> int \<times> int) list \<Rightarrow> header" where
  "layout w entries =
     (let ecus = 80; groups = ecus + int (length (ecu_recs w)) * ECU_SIZE;
          flds = groups + int (length (group_recs w)) * GROUP_SIZE;
          scales = flds + int (length (field_recs w)) * FIELD_SIZE;
          reqs = scales + int (length (scale_rows w)) * SCALE_SIZE;
          idx = reqs + int (length (reqpool w)); idx = idx + (- idx) mod 4;
          strs = idx + int (length entries) * INDEX_ENTRY_SIZE
      in \<lparr>h_version = FORMAT_VERSION, h_flags = 1 + (if any_text w then 2 else 0),
          total_size = strs + int (length (pool w)), h_crc = 0,
          ecus_off = ecus, ecu_count = int (length (ecu_recs w)),
          groups_off = groups, group_count = int (length (group_recs w)),
          fields_off = flds, field_count = int (length (field_recs w)),
          scales_off = scales, scale_count = int (length (scale_rows w)),
          reqbytes_off = reqs, reqbytes_len = int (length (reqpool w)),
          strings_off = strs, strings_len = int (length (pool w)),
          index_off = idx, index_count = int (length entries)\<rparr>)"

definition header_row :: "header \<Rightarrow> int list" where
  "header_row h = [h_version h, h_flags h, total_size h, h_crc h, ecus_off h, ecu_count h, 0,
     groups_off h, group_count h, 0, fields_off h, field_count h, 0, scales_off h, scale_count h, 0,
     reqbytes_off h, reqbytes_len h, strings_off h, strings_len h, index_off h, index_count h, 0]"

definition write_catalog :: "catalog \<Rightarrow> catalog_error + bytes" where
  "write_catalog cat =
     bindE (check_limits cat) (\<lambda>_.
     let w = walk_catalog cat; entries = index_entries w; h = layout w entries;
         blob = put_bytes (replicate (nat (total_size h)) 0) 0 MAGIC in
     bindE (struct_write header_fmt blob 8 (header_row h)) (\<lambda>blob.
     bindE (write_rows ecu_fmt (nat (ecus_off h)) blob (ecu_recs w)) (\<lambda>blob.
     bindE (write_rows group_fmt (nat (groups_off h)) blob
              (map (\<lambda>r. r[1 := reqbytes_off h + r ! 1]) (group_recs w))) (\<lambda>blob.
     bindE (write_rows field_fmt (nat (fields_off h)) blob (field_recs w)) (\<lambda>blob.
     bindE (write_rows scale_fmt (nat (scales_off h)) blob (map (scale_row w) (scale_rows w))) (\<lambda>blob.
     let blob = put_bytes blob (nat (reqbytes_off h)) (reqpool w) in
     bindE (write_rows index_fmt (nat (index_off h)) blob
              (map (\<lambda>(hash, ref, target). [hash, ref, target]) entries)) (\<lambda>blob.
     let blob = put_bytes blob (nat (strings_off h)) (pool w) in
     struct_write [U 4] blob 16 [crc32 (drop (nat HEADER_SIZE) blob)])))))))"

section \<open>The reader\<close>

definition struct_read :: "code list \<Rightarrow> bytes \<Rightarrow> int \<Rightarrow> catalog_error + int list" where
  "struct_read fmt data off =
     (case unpack_from fmt data (nat off) of None \<Rightarrow> Inl StructError | Some v \<Rightarrow> Inr v)"

definition check_table :: "header \<Rightarrow> string \<Rightarrow> int \<Rightarrow> int \<Rightarrow> int \<Rightarrow> catalog_error + unit" where
  "check_table h name off count rec_size =
     (if count = 0 then Inr ()
      else if off mod 4 \<noteq> 0 then Inl (FormatError (name @ '' table is not 4-byte aligned'') off)
      else if \<not> (FIRST_TABLE \<le> off \<and> off + count * rec_size \<le> total_size h)
      then Inl (FormatError (name @ '' table outside'') off)
      else Inr ())"

definition check_pool :: "header \<Rightarrow> string \<Rightarrow> int \<Rightarrow> int \<Rightarrow> catalog_error + unit" where
  "check_pool h name off len =
     guardE (FIRST_TABLE \<le> off \<and> off + len \<le> total_size h) (FormatError (name @ '' pool outside'') off)"

definition byte_at :: "bytes \<Rightarrow> int \<Rightarrow> catalog_error + 8 word" where
  "byte_at data i = (case py_nth data i of None \<Rightarrow> Inl IndexError | Some b \<Rightarrow> Inr b)"

definition read_header :: "bytes \<Rightarrow> catalog_error + header" where
  "read_header data =
     bindE (guardE (\<not> int (length data) < FIRST_TABLE) (FormatError ''blob too short'' (int (length data)))) (\<lambda>_.
     bindE (struct_read header_fmt data 8) (\<lambda>v.
     let h = header_of v in
     bindE (guardE (take 8 data = MAGIC) (FormatError ''bad magic'' 0)) (\<lambda>_.
     bindE (guardE (h_version h = FORMAT_VERSION) (FormatError ''format_version'' (h_version h))) (\<lambda>_.
     bindE (guardE (FIRST_TABLE \<le> total_size h \<and> total_size h \<le> int (length data))
              (FormatError ''total_size'' (total_size h))) (\<lambda>_.
     bindE (check_table h ''ecu'' (ecus_off h) (ecu_count h) ECU_SIZE) (\<lambda>_.
     bindE (check_table h ''group'' (groups_off h) (group_count h) GROUP_SIZE) (\<lambda>_.
     bindE (check_table h ''field'' (fields_off h) (field_count h) FIELD_SIZE) (\<lambda>_.
     bindE (check_table h ''scale'' (scales_off h) (scale_count h) SCALE_SIZE) (\<lambda>_.
     bindE (check_table h ''index'' (index_off h) (index_count h) INDEX_ENTRY_SIZE) (\<lambda>_.
     bindE (check_pool h ''request-byte'' (reqbytes_off h) (reqbytes_len h)) (\<lambda>_.
     bindE (check_pool h ''string'' (strings_off h) (strings_len h)) (\<lambda>_.
     bindE (guardE (\<not> strings_len h < 1) (FormatError ''string pool is empty'' 0)) (\<lambda>_.
     bindE (byte_at data (strings_off h)) (\<lambda>b.
     bindE (guardE (b = 0) (FormatError ''string pool's first byte is not NUL'' 0)) (\<lambda>_.
     bindE (byte_at data (strings_off h + strings_len h - 1)) (\<lambda>b.
     bindE (guardE (b = 0) (FormatError ''string pool is not NUL-terminated'' 0)) (\<lambda>_.
     let actual = crc32 (drop (nat HEADER_SIZE) (take (nat (total_size h)) data)) in
     bindE (guardE (actual = h_crc h) (FormatError ''crc32 mismatch'' actual)) (\<lambda>_.
     Inr h))))))))))))))))))"

text \<open>\<open>data.index(0, start)\<close> and the decoded bytes before it.\<close>

fun until_nul :: "bytes \<Rightarrow> bytes option" where
  "until_nul [] = None"
| "until_nul (b # bs) = (if b = 0 then Some [] else map_option ((#) b) (until_nul bs))"

definition decode :: "bytes \<Rightarrow> catalog_error + string" where
  "decode bs = (if utf8_valid bs then Inr (map (\<lambda>b. char_of (unat b)) bs) else Inl UnicodeDecodeError)"

definition read_str :: "header \<Rightarrow> bytes \<Rightarrow> int \<Rightarrow> string \<Rightarrow> int \<Rightarrow> catalog_error + string" where
  "read_str h data ref what i =
     bindE (guardE (\<not> ref \<ge> strings_len h) (FormatError (what @ '': string ref outside the pool'') i)) (\<lambda>_.
     case until_nul (drop (nat (strings_off h + ref)) data) of
       None \<Rightarrow> Inl ValueError
     | Some bs \<Rightarrow> decode bs)"

definition read_scale :: "header \<Rightarrow> bytes \<Rightarrow> int \<Rightarrow> catalog_error + scale_rec" where
  "read_scale h data i =
     bindE (struct_read scale_fmt data (scales_off h + i * SCALE_SIZE)) (\<lambda>v.
     bindE (read_str h data (v ! 4) ''scale'' i) (\<lambda>t.
     Inr \<lparr>s_low = v ! 0, s_high = v ! 1, s_factor = word_of_int (v ! 2), s_offset = word_of_int (v ! 3),
          s_text = t, s_invalid = odd (v ! 5 div 2)\<rparr>))"

text \<open>\<open>flags & 1\<close>, \<open>flags & 2\<close>, ... as the bit of the number.\<close>

definition flag :: "int \<Rightarrow> nat \<Rightarrow> bool" where
  "flag v n \<longleftrightarrow> odd (v div 2 ^ n)"

definition py_slice :: "'a list \<Rightarrow> int \<Rightarrow> int \<Rightarrow> 'a list" where
  "py_slice xs off len = take (nat len) (drop (nat off) xs)"

definition read_field :: "header \<Rightarrow> bytes \<Rightarrow> scale_rec list \<Rightarrow> int \<Rightarrow> catalog_error + field_rec \<times> int" where
  "read_field h data scales i =
     bindE (struct_read field_fmt data (fields_off h + i * FIELD_SIZE)) (\<lambda>v.
     let bits = v ! 3; pos = v ! 2; flags = v ! 4 in
     bindE (guardE (\<not> v ! 5 + v ! 6 > scale_count h) (FormatError ''field: scale run outside the scale table'' i)) (\<lambda>_.
     bindE (guardE (\<not> v ! 9 \<ge> group_count h) (FormatError ''field: group_index out of range'' i)) (\<lambda>_.
     bindE (if flag flags 2 \<or> flag flags 3 then
              bindE (guardE (\<not> (bits mod 8 \<noteq> 0 \<or> \<not> (8 \<le> bits \<and> bits \<le> MAX_BLOCK_BITS)))
                       (FormatError ''field: block size invalid'' i)) (\<lambda>_.
              guardE (pos mod 8 = 0) (FormatError ''field: block is unaligned'' i))
            else guardE (1 \<le> bits \<and> bits \<le> MAX_NUMERIC_BITS) (FormatError ''field: bit_size outside 1..64'' i)) (\<lambda>_.
     bindE (read_str h data (v ! 0) ''field'' i) (\<lambda>name.
     bindE (read_str h data (v ! 1) ''field unit'' i) (\<lambda>un.
     Inr (\<lparr>f_name = name, bit_pos = pos, bit_size = bits, f_unit = un, f_signed = flag flags 0,
           byteswap = flag flags 1, f_ascii = flag flags 2, hexdump = flag flags 3,
           f_scales = py_slice scales (v ! 5) (v ! 6), repeat_count = max (v ! 7) 1,
           repeat_stride = v ! 8\<rparr>, v ! 9)))))))"

text \<open>One entry of the name index; \<open>aliases\<close> holds a set of names per group as a list.\<close>

definition read_entry :: "header \<Rightarrow> bytes \<Rightarrow> int \<Rightarrow> (int \<times> int) \<Rightarrow> string list list
    \<Rightarrow> catalog_error + (int \<times> int) \<times> string list list" where
  "read_entry h data i prev aliases =
     bindE (struct_read index_fmt data (index_off h + i * INDEX_ENTRY_SIZE)) (\<lambda>v.
     let hash = v ! 0; ref = v ! 1; target = v ! 2 in
     bindE (guardE (\<not> (hash, target) < prev) (FormatError ''name index not sorted'' i)) (\<lambda>_.
     bindE (read_str h data ref ''index entry'' i) (\<lambda>name.
     bindE (guardE (uint (fnv1a32 (encode name)) = hash) (FormatError ''index entry: hash does not match'' i)) (\<lambda>_.
     let kind = target div 2 ^ 28; idx = target mod 2 ^ 28 in
     bindE (guardE (\<not> (kind = int KIND_ECU \<and> idx \<ge> ecu_count h)) (FormatError ''index entry: ecu out of range'' i)) (\<lambda>_.
     bindE (if kind = int KIND_GROUP then
              bindE (guardE (\<not> idx \<ge> group_count h) (FormatError ''index entry: group out of range'' i)) (\<lambda>_.
              Inr (aliases[nat idx := (aliases ! nat idx) @ [name]]))
            else Inr aliases) (\<lambda>aliases.
     bindE (guardE (\<not> (kind = int KIND_FIELD \<and> idx \<ge> field_count h)) (FormatError ''index entry: field out of range'' i)) (\<lambda>_.
     Inr ((hash, target), aliases))))))))"

fun read_index :: "header \<Rightarrow> bytes \<Rightarrow> int \<Rightarrow> nat \<Rightarrow> (int \<times> int) \<Rightarrow> string list list \<Rightarrow> catalog_error + string list list" where
  "read_index h data i 0 prev aliases = Inr aliases"
| "read_index h data i (Suc n) prev aliases =
     bindE (read_entry h data i prev aliases) (\<lambda>(prev, aliases). read_index h data (i + 1) n prev aliases)"

definition read_group :: "header \<Rightarrow> bytes \<Rightarrow> field_rec list \<Rightarrow> int list \<Rightarrow> string list list \<Rightarrow> int \<times> int list
    \<Rightarrow> catalog_error + group_rec" where
  "read_group h data flds fgroup aliases iv =
     (case iv of (i, v) \<Rightarrow>
     let req_off = v ! 1; req_len = v ! 2; gflags = v ! 4; first = v ! 5; n = v ! 6 in
     bindE (guardE (\<not> first + n > field_count h) (FormatError ''group: field run outside the field table'' i)) (\<lambda>_.
     bindE (guardE (reqbytes_off h \<le> req_off \<and> req_off + req_len \<le> reqbytes_off h + reqbytes_len h)
              (FormatError ''group: request bytes outside the pool'' i)) (\<lambda>_.
     let request = py_slice data req_off req_len in
     bindE (guardE (\<not> req_len < 1) (FormatError ''group: empty request'' i)) (\<lambda>_.
     bindE (byte_at request 0) (\<lambda>b.
     bindE (guardE (uint b = v ! 3) (FormatError ''group: sid is not the first request byte'' i)) (\<lambda>_.
     bindE (read_str h data (v ! 0) ''group'' i) (\<lambda>name.
     let g = mk_group name request (py_slice flds first n) (aliases ! nat i) (flag gflags 1) (flag gflags 2)
               (gflags div 2 ^ 8 mod 16) in
     bindE (case filter (\<lambda>k. fgroup ! nat k \<noteq> i) (map (\<lambda>k. first + int k) [0..<nat n]) of
              [] \<Rightarrow> Inr ()
            | k # _ \<Rightarrow> Inl (FormatError ''field: group_index disagrees with group'' k)) (\<lambda>_.
     Inr g))))))))"

definition read_ecu :: "header \<Rightarrow> bytes \<Rightarrow> group_rec list \<Rightarrow> int \<Rightarrow> catalog_error + ecu_rec" where
  "read_ecu h data groups i =
     bindE (struct_read ecu_fmt data (ecus_off h + i * ECU_SIZE)) (\<lambda>v.
     bindE (guardE (\<not> v ! 8 + v ! 9 > group_count h) (FormatError ''ecu: group range outside the group table'' i)) (\<lambda>_.
     bindE (read_str h data (v ! 0) ''ecu'' i) (\<lambda>name.
     Inr \<lparr>e_name = name, request_id = v ! 1, response_id = v ! 2, extended_id = flag (v ! 3) 0,
          block_size = v ! 4, st_min_raw = v ! 5, p2_ms = v ! 6, p2_ext_ms = v ! 7,
          e_groups = py_slice groups (v ! 8) (v ! 9)\<rparr>)))"

definition upto_count :: "int \<Rightarrow> int list" where
  "upto_count n = map int [0..<nat n]"

definition read_catalog :: "bytes \<Rightarrow> catalog_error + catalog" where
  "read_catalog data =
     bindE (read_header data) (\<lambda>h.
     bindE (mapE (read_scale h data) (upto_count (scale_count h))) (\<lambda>scales.
     bindE (mapE (read_field h data scales) (upto_count (field_count h))) (\<lambda>flds.
     bindE (read_index h data 0 (nat (index_count h)) (-1, -1) (replicate (nat (group_count h)) [])) (\<lambda>aliases.
     bindE (mapE (\<lambda>i. struct_read group_fmt data (groups_off h + i * GROUP_SIZE)) (upto_count (group_count h))) (\<lambda>raws.
     bindE (mapE (read_group h data (map fst flds) (map snd flds) aliases) (zip (upto_count (group_count h)) raws)) (\<lambda>groups.
     mapE (read_ecu h data groups) (upto_count (ecu_count h))))))))"

section \<open>Facts about the reader\<close>

named_theorems safe_intros "rules for computations that only raise the reader's own errors"

text \<open>The exceptions the reader may raise: its own \<open>FormatError\<close> and, beyond its contract, the
  \<open>UnicodeDecodeError\<close> of a string that is not UTF-8.\<close>

definition own_error :: "catalog_error \<Rightarrow> bool" where
  "own_error e \<longleftrightarrow> (\<exists>s n. e = FormatError s n) \<or> e = UnicodeDecodeError"

definition safe :: "catalog_error + 'a \<Rightarrow> bool" where
  "safe m \<longleftrightarrow> (\<forall>e. m = Inl e \<longrightarrow> own_error e)"

lemma safe_Inr [simp, safe_intros]: "safe (Inr x)"
  by (simp add: safe_def)

lemma safe_FormatError [simp, safe_intros]: "safe (Inl (FormatError s n))"
  by (simp add: safe_def own_error_def)

lemma safe_guardE [safe_intros]: "safe (guardE b (FormatError s n))"
  by (simp add: guardE_def)

lemma safe_bindE [safe_intros]: "safe m \<Longrightarrow> (\<And>x. m = Inr x \<Longrightarrow> safe (f x)) \<Longrightarrow> safe (bindE m f)"
proof (cases m)
  case (Inl e)
  assume "safe m"
  with Inl show ?thesis by (simp add: safe_def)
next
  case (Inr x)
  assume "\<And>x. m = Inr x \<Longrightarrow> safe (f x)"
  from this [OF Inr] Inr show ?thesis by simp
qed

lemma safe_mapE: "(\<And>x. x \<in> set xs \<Longrightarrow> safe (f x)) \<Longrightarrow> safe (mapE f xs)"
  by (induction xs) (auto intro!: safe_bindE safe_Inr)

lemma unpack_nth:
  "i < length fmt \<Longrightarrow> unpack fmt bs ! i = code_get (fmt ! i) (take (code_size (fmt ! i)) (drop (calcsize (take i fmt)) bs))"
proof (induction fmt arbitrary: bs i)
  case Nil
  then show ?case by simp
next
  case (Cons c fmt)
  then show ?case by (cases i) (simp_all add: add.commute)
qed

lemma unpack_nth_U: "i < length fmt \<Longrightarrow> fmt ! i = U n \<Longrightarrow> 0 \<le> unpack fmt bs ! i"
  by (simp add: unpack_nth)

lemma struct_read_Inr:
  "struct_read fmt data off = Inr v \<longleftrightarrow> nat off + calcsize fmt \<le> length data \<and> v = unpack fmt (drop (nat off) data)"
  by (auto simp: struct_read_def unpack_from_def)

lemma struct_read_safe [safe_intros]: "nat off + calcsize fmt \<le> length data \<Longrightarrow> safe (struct_read fmt data off)"
  by (simp add: struct_read_def unpack_from_def)

lemma fmt_sizes:
  "calcsize header_fmt = 72" "calcsize ecu_fmt = 24" "calcsize group_fmt = 20"
  "calcsize field_fmt = 20" "calcsize scale_fmt = 24" "calcsize index_fmt = 12"
  by (simp_all add: fmt_defs)

lemma byte_at_in: "0 \<le> i \<Longrightarrow> i < int (length data) \<Longrightarrow> byte_at data i = Inr (data ! nat i)"
  by (simp add: byte_at_def py_nth_def)

text \<open>What the checks before the CRC establish.\<close>

definition table_in :: "header \<Rightarrow> int \<Rightarrow> int \<Rightarrow> int \<Rightarrow> bool" where
  "table_in h off count rec_size \<longleftrightarrow> count = 0 \<or> 80 \<le> off \<and> off + count * rec_size \<le> total_size h"

definition header_nonneg :: "header \<Rightarrow> bool" where
  "header_nonneg h \<longleftrightarrow> 0 \<le> ecus_off h \<and> 0 \<le> ecu_count h \<and> 0 \<le> groups_off h \<and> 0 \<le> group_count h \<and>
     0 \<le> fields_off h \<and> 0 \<le> field_count h \<and> 0 \<le> scales_off h \<and> 0 \<le> scale_count h \<and>
     0 \<le> index_off h \<and> 0 \<le> index_count h \<and>
     0 \<le> reqbytes_off h \<and> 0 \<le> reqbytes_len h \<and> 0 \<le> strings_off h \<and> 0 \<le> strings_len h"

definition header_ok :: "header \<Rightarrow> bytes \<Rightarrow> bool" where
  "header_ok h data \<longleftrightarrow>
     header_nonneg h \<and> 80 \<le> total_size h \<and> total_size h \<le> int (length data) \<and>
     table_in h (ecus_off h) (ecu_count h) 24 \<and> table_in h (groups_off h) (group_count h) 20 \<and>
     table_in h (fields_off h) (field_count h) 20 \<and> table_in h (scales_off h) (scale_count h) 24 \<and>
     table_in h (index_off h) (index_count h) 12 \<and>
     reqbytes_off h + reqbytes_len h \<le> total_size h \<and>
     strings_off h + strings_len h \<le> total_size h \<and> 1 \<le> strings_len h \<and>
     data ! nat (strings_off h + strings_len h - 1) = 0"

lemma check_table_Inr:
  "check_table h nm off count rec_size = Inr u \<Longrightarrow> table_in h off count rec_size"
  by (auto simp: check_table_def table_in_def FIRST_TABLE_def split: if_splits)

lemma check_table_safe [safe_intros]: "safe (check_table h nm off count rec_size)"
  by (simp add: check_table_def)

lemma check_pool_safe [safe_intros]: "safe (check_pool h nm off len)"
  by (simp add: check_pool_def safe_guardE)

lemma header_of_nonneg: "header_nonneg (header_of (unpack header_fmt bs))"
  by (simp add: header_nonneg_def header_of_def unpack_nth fmt_defs)

lemma read_header_ok:
  assumes "read_header data = Inr h"
  shows "header_ok h data"
    and "h_crc h = crc32 (drop 64 (take (nat (total_size h)) data))"
    and "take 8 data = MAGIC" and "h = header_of (unpack header_fmt (drop 8 data))"
proof -
  obtain v where v: "v = unpack header_fmt (drop 8 data)" and h: "h = header_of v"
    using assms by (auto simp: read_header_def err_simps Let_def struct_read_Inr)
  then show "h = header_of (unpack header_fmt (drop 8 data))" by simp
  have nn: "header_nonneg h" using header_of_nonneg v h by simp
  show "h_crc h = crc32 (drop 64 (take (nat (total_size h)) data))" "take 8 data = MAGIC"
    using assms by (auto simp: read_header_def err_simps Let_def HEADER_SIZE_def)
  have "80 \<le> total_size h" "total_size h \<le> int (length data)"
       "check_table h ''ecu'' (ecus_off h) (ecu_count h) ECU_SIZE = Inr ()"
       "check_table h ''group'' (groups_off h) (group_count h) GROUP_SIZE = Inr ()"
       "check_table h ''field'' (fields_off h) (field_count h) FIELD_SIZE = Inr ()"
       "check_table h ''scale'' (scales_off h) (scale_count h) SCALE_SIZE = Inr ()"
       "check_table h ''index'' (index_off h) (index_count h) INDEX_ENTRY_SIZE = Inr ()"
       "reqbytes_off h + reqbytes_len h \<le> total_size h" "strings_off h + strings_len h \<le> total_size h"
       "80 \<le> strings_off h" "1 \<le> strings_len h"
       "byte_at data (strings_off h + strings_len h - 1) = Inr 0"
    using assms by (auto simp: read_header_def err_simps Let_def check_pool_def FIRST_TABLE_def)
  then show "header_ok h data"
    using nn by (auto simp: header_ok_def ECU_SIZE_def GROUP_SIZE_def FIELD_SIZE_def SCALE_SIZE_def
      INDEX_ENTRY_SIZE_def byte_at_in dest: check_table_Inr)
qed

lemma read_header_safe: "safe (read_header data)"
proof -
  have b: "safe (byte_at data i)" if "0 \<le> i" "i < int (length data)" for i
    using byte_at_in [OF that] by simp
  show ?thesis
    unfolding read_header_def Let_def
    apply (intro safe_intros)
     apply (simp add: err_simps FIRST_TABLE_def fmt_sizes)
    subgoal by (rule b) (auto simp: err_simps check_pool_def FIRST_TABLE_def)
    subgoal by (rule b) (auto simp: err_simps check_pool_def FIRST_TABLE_def)
    done
qed

lemma until_nul_Some:
  "0 \<in> set bs \<Longrightarrow> \<exists>t. until_nul bs = Some t"
  by (induction bs) auto

lemma read_str_safe:
  assumes ok: "header_ok h data" and ref: "0 \<le> ref"
  shows "safe (read_str h data ref what i)"
proof (cases "strings_len h \<le> ref")
  case True
  then show ?thesis by (simp add: read_str_def)
next
  case False
  define k where "k = nat (strings_off h + strings_len h - 1)"
  have k: "nat (strings_off h + ref) \<le> k" "k < length data" "data ! k = 0"
    using ok ref False by (auto simp: header_ok_def header_nonneg_def k_def)
  then have "drop (nat (strings_off h + ref)) data ! (k - nat (strings_off h + ref)) = 0" by simp
  moreover have "k - nat (strings_off h + ref) < length (drop (nat (strings_off h + ref)) data)" using k by simp
  ultimately have "0 \<in> set (drop (nat (strings_off h + ref)) data)" by (metis nth_mem)
  from until_nul_Some [OF this] obtain t where "until_nul (drop (nat (strings_off h + ref)) data) = Some t" ..
  with False show ?thesis by (simp add: read_str_def decode_def safe_def own_error_def)
qed

text \<open>A row of a table that passed the check lies inside the blob.\<close>

lemma table_row:
  assumes "table_in h off count rec_size" and "i \<in> set (upto_count count)" and "0 \<le> off" and "0 \<le> rec_size"
    and "total_size h \<le> T"
  shows "nat (off + i * rec_size) + nat rec_size \<le> nat T"
proof -
  from assms(2) have i: "0 \<le> i" "i < count" by (auto simp: upto_count_def)
  then have "off + count * rec_size \<le> total_size h" using assms(1) by (auto simp: table_in_def)
  moreover have "(i + 1) * rec_size \<le> count * rec_size" using i assms(4) by (intro mult_right_mono) auto
  ultimately have "off + i * rec_size + rec_size \<le> T" using assms(5) by (simp add: algebra_simps)
  moreover have "0 \<le> i * rec_size" using i assms(4) by simp
  ultimately show ?thesis using assms(3,4) by linarith
qed

lemma row_safe:
  assumes ok: "header_ok h data"
  shows "i \<in> set (upto_count (scale_count h)) \<Longrightarrow> nat (scales_off h + i * 24) + 24 \<le> length data"
    "i \<in> set (upto_count (field_count h)) \<Longrightarrow> nat (fields_off h + i * 20) + 20 \<le> length data"
    "i \<in> set (upto_count (group_count h)) \<Longrightarrow> nat (groups_off h + i * 20) + 20 \<le> length data"
    "i \<in> set (upto_count (ecu_count h)) \<Longrightarrow> nat (ecus_off h + i * 24) + 24 \<le> length data"
    "i \<in> set (upto_count (index_count h)) \<Longrightarrow> nat (index_off h + i * 12) + 12 \<le> length data"
proof -
  have t: "total_size h \<le> int (length data)" using ok by (simp add: header_ok_def)
  note row = table_row [where T = "int (length data)", OF _ _ _ _ t]
  show "i \<in> set (upto_count (scale_count h)) \<Longrightarrow> nat (scales_off h + i * 24) + 24 \<le> length data"
    using row [of "scales_off h" "scale_count h" 24 i] ok by (simp add: header_ok_def header_nonneg_def)
  show "i \<in> set (upto_count (field_count h)) \<Longrightarrow> nat (fields_off h + i * 20) + 20 \<le> length data"
    using row [of "fields_off h" "field_count h" 20 i] ok by (simp add: header_ok_def header_nonneg_def)
  show "i \<in> set (upto_count (group_count h)) \<Longrightarrow> nat (groups_off h + i * 20) + 20 \<le> length data"
    using row [of "groups_off h" "group_count h" 20 i] ok by (simp add: header_ok_def header_nonneg_def)
  show "i \<in> set (upto_count (ecu_count h)) \<Longrightarrow> nat (ecus_off h + i * 24) + 24 \<le> length data"
    using row [of "ecus_off h" "ecu_count h" 24 i] ok by (simp add: header_ok_def header_nonneg_def)
  show "i \<in> set (upto_count (index_count h)) \<Longrightarrow> nat (index_off h + i * 12) + 12 \<le> length data"
    using row [of "index_off h" "index_count h" 12 i] ok by (simp add: header_ok_def header_nonneg_def)
qed

lemma member_nonneg [simp]:
  "0 \<le> unpack scale_fmt bs ! 4"
  "0 \<le> unpack field_fmt bs ! 0" "0 \<le> unpack field_fmt bs ! Suc 0" "0 \<le> unpack field_fmt bs ! 2" "0 \<le> unpack field_fmt bs ! 8" "0 \<le> unpack field_fmt bs ! 5" "0 \<le> unpack field_fmt bs ! 6"
  "0 \<le> unpack index_fmt bs ! 0" "0 \<le> unpack index_fmt bs ! Suc 0" "0 \<le> unpack index_fmt bs ! 2"
  "0 \<le> unpack group_fmt bs ! 0" "0 \<le> unpack group_fmt bs ! Suc 0" "0 \<le> unpack group_fmt bs ! 2"
  "0 \<le> unpack group_fmt bs ! 5" "0 \<le> unpack group_fmt bs ! 6"
  "0 \<le> unpack ecu_fmt bs ! 0" "0 \<le> unpack ecu_fmt bs ! 8" "0 \<le> unpack ecu_fmt bs ! 9"
  by (simp_all add: unpack_nth fmt_defs)

lemma read_scale_safe:
  "header_ok h data \<Longrightarrow> i \<in> set (upto_count (scale_count h)) \<Longrightarrow> safe (read_scale h data i)"
  unfolding read_scale_def SCALE_SIZE_def
  by (intro safe_intros read_str_safe) (auto simp: row_safe fmt_sizes struct_read_Inr)

lemma read_field_safe:
  "header_ok h data \<Longrightarrow> i \<in> set (upto_count (field_count h)) \<Longrightarrow> safe (read_field h data scales i)"
  unfolding read_field_def FIELD_SIZE_def Let_def
  apply (intro safe_intros read_str_safe)
      apply (simp add: row_safe fmt_sizes)
  apply (auto simp: row_safe fmt_sizes struct_read_Inr intro!: safe_intros)
  done

lemma read_entry_safe:
  "header_ok h data \<Longrightarrow> i \<in> set (upto_count (index_count h)) \<Longrightarrow> safe (read_entry h data i prev aliases)"
  unfolding read_entry_def INDEX_ENTRY_SIZE_def Let_def
  apply (intro safe_intros read_str_safe)
      apply (simp add: row_safe fmt_sizes)
  apply (auto simp: row_safe fmt_sizes struct_read_Inr intro!: safe_intros)
  done

lemma read_index_safe:
  "header_ok h data \<Longrightarrow> 0 \<le> i \<Longrightarrow> i + int n \<le> index_count h \<Longrightarrow> safe (read_index h data i n prev aliases)"
proof (induction n arbitrary: i prev aliases)
  case 0
  then show ?case by simp
next
  case (Suc n)
  have i: "i \<in> set (upto_count (index_count h))"
    using Suc.prems by (auto simp: upto_count_def image_iff intro!: bexI [of _ "nat i"])
  show ?case
    unfolding read_index.simps
  proof (rule safe_bindE)
    show "safe (read_entry h data i prev aliases)" using read_entry_safe Suc.prems(1) i by blast
    show "safe (case x of (prev, aliases) \<Rightarrow> read_index h data (i + 1) n prev aliases)" for x
      using Suc by (cases x) simp
  qed
qed

lemma py_slice_length:
  "0 \<le> off \<Longrightarrow> 0 \<le> len \<Longrightarrow> off + len \<le> int (length xs) \<Longrightarrow> length (py_slice xs off len) = nat len"
  by (simp add: py_slice_def)

lemma read_group_safe:
  assumes ok: "header_ok h data" and v: "v = unpack group_fmt bs"
  shows "safe (read_group h data flds fgroup aliases (i, v))"
proof -
  have b: "safe (byte_at (py_slice data (v ! 1) (v ! 2)) 0)"
    if "reqbytes_off h \<le> v ! 1" "v ! 1 + v ! 2 \<le> reqbytes_off h + reqbytes_len h" "1 \<le> v ! 2"
  proof -
    have "length (py_slice data (v ! 1) (v ! 2)) = nat (v ! 2)"
      using that ok by (intro py_slice_length) (auto simp: v header_ok_def)
    then show ?thesis using byte_at_in [of 0 "py_slice data (v ! 1) (v ! 2)"] that by simp
  qed
  show ?thesis
    unfolding read_group_def Let_def prod.case
    apply (intro safe_intros read_str_safe)
    subgoal by (rule b) (auto simp: err_simps)
    subgoal by (rule ok)
    subgoal by (simp add: v)
    subgoal by (simp split: list.split)
    done
qed

lemma read_ecu_safe:
  "header_ok h data \<Longrightarrow> i \<in> set (upto_count (ecu_count h)) \<Longrightarrow> safe (read_ecu h data groups i)"
  unfolding read_ecu_def ECU_SIZE_def
  by (intro safe_intros read_str_safe) (auto simp: row_safe fmt_sizes struct_read_Inr)

lemma upto_count_length [simp]: "length (upto_count n) = nat n"
  by (simp add: upto_count_def)

text \<open>
  C27: a corrupt file is refused by one of the reader's own errors.  Whatever the bytes,
  \<open>read_catalog\<close> never fails by an index out of range, a short \<open>unpack_from\<close> or a missing
  terminator; besides \<open>FormatError\<close>, which its contract names, the one exception is the
  \<open>UnicodeDecodeError\<close> of a string that is not UTF-8.
\<close>

theorem read_catalog_errors:
  "case read_catalog data of
     Inr cat \<Rightarrow> \<exists>h. read_header data = Inr h \<and> h_crc h = crc32 (drop 64 (take (nat (total_size h)) data))
   | Inl (FormatError s n) \<Rightarrow> True
   | Inl UnicodeDecodeError \<Rightarrow> True
   | Inl _ \<Rightarrow> False"
proof -
  have safe: "safe (read_catalog data)"
    unfolding read_catalog_def
  proof (rule safe_bindE [OF read_header_safe])
    fix h
    assume "read_header data = Inr h"
    then have ok: "header_ok h data" by (rule read_header_ok)
    show "safe (bindE (mapE (read_scale h data) (upto_count (scale_count h))) (\<lambda>scales.
     bindE (mapE (read_field h data scales) (upto_count (field_count h))) (\<lambda>flds.
     bindE (read_index h data 0 (nat (index_count h)) (-1, -1) (replicate (nat (group_count h)) [])) (\<lambda>aliases.
     bindE (mapE (\<lambda>i. struct_read group_fmt data (groups_off h + i * GROUP_SIZE)) (upto_count (group_count h))) (\<lambda>raws.
     bindE (mapE (read_group h data (map fst flds) (map snd flds) aliases) (zip (upto_count (group_count h)) raws)) (\<lambda>groups.
     mapE (read_ecu h data groups) (upto_count (ecu_count h))))))))"
    proof (intro safe_bindE safe_mapE read_index_safe ok read_scale_safe read_field_safe read_ecu_safe)
      show "0 + int (nat (index_count h)) \<le> index_count h"
        using ok by (simp add: header_ok_def header_nonneg_def)
      show "safe (struct_read group_fmt data (groups_off h + i * GROUP_SIZE))"
        if "i \<in> set (upto_count (group_count h))" for i
        using row_safe(3) [OF ok that] by (intro safe_intros) (simp add: fmt_sizes GROUP_SIZE_def)
      fix flds aliases raws iv
      assume raws: "mapE (\<lambda>i. struct_read group_fmt data (groups_off h + i * GROUP_SIZE)) (upto_count (group_count h)) = Inr raws"
        and iv: "iv \<in> set (zip (upto_count (group_count h)) raws)"
      obtain i v where i: "iv = (i, v)" by (cases iv)
      from iv obtain k where "k < length raws" "v = raws ! k" by (auto simp: i in_set_zip)
      then have "\<exists>bs. v = unpack group_fmt bs"
        using mapE_nth [OF raws, of k] mapE_length [OF raws] by (auto simp: struct_read_Inr)
      then show "safe (read_group h data (map fst flds) (map snd flds) aliases iv)"
        using read_group_safe [OF ok] i by blast
    qed auto
  qed
  show ?thesis
  proof (cases "read_catalog data")
    case (Inr cat)
    then obtain h where "read_header data = Inr h" by (auto simp: read_catalog_def err_simps)
    with read_header_ok(2) Inr show ?thesis by auto
  next
    case (Inl e)
    with safe have "own_error e" by (simp add: safe_def)
    with Inl show ?thesis by (auto simp: own_error_def)
  qed
qed

text \<open>The geometry every field of a catalog read from a file has.\<close>

definition field_sane :: "field_rec \<Rightarrow> bool" where
  "field_sane f \<longleftrightarrow> 0 \<le> bit_pos f \<and> 1 \<le> bit_size f \<and> 0 \<le> repeat_stride f \<and> 1 \<le> repeat_count f"

lemma read_field_sane: "read_field h data scales i = Inr (f, k) \<Longrightarrow> field_sane f"
  by (auto simp: read_field_def err_simps Let_def struct_read_Inr field_sane_def split: if_splits)

lemma slice_in: "x \<in> set (py_slice xs off len) \<Longrightarrow> x \<in> set xs"
  by (auto simp: py_slice_def dest: in_set_takeD in_set_dropD)

lemma mapE_all:
  assumes "mapE f xs = Inr ys" and "\<And>x y. x \<in> set xs \<Longrightarrow> f x = Inr y \<Longrightarrow> P y"
  shows "\<forall>y\<in>set ys. P y"
proof
  fix y
  assume "y \<in> set ys"
  then obtain i where i: "i < length xs" "ys ! i = y" using mapE_length [OF assms(1)] by (auto simp: in_set_conv_nth)
  from mapE_nth [OF assms(1) i(1)] i show "P y" using assms(2) [of "xs ! i" y] by simp
qed

lemma read_catalog_sane:
  assumes "read_catalog data = Inr cat"
  shows "\<forall>f\<in>set (cat_fields cat). field_sane f"
proof -
  obtain h scales flds aliases raws groups where
    f: "mapE (read_field h data scales) (upto_count (field_count h)) = Inr flds" and
    g: "mapE (read_group h data (map fst flds) (map snd flds) aliases) (zip (upto_count (group_count h)) raws) = Inr groups" and
    e: "mapE (read_ecu h data groups) (upto_count (ecu_count h)) = Inr cat"
    using assms by (auto simp: read_catalog_def err_simps)
  have fs: "\<forall>f\<in>set (map fst flds). field_sane f"
    using mapE_all [OF f, of "\<lambda>p. field_sane (fst p)"] read_field_sane by fastforce
  have "\<forall>g\<in>set groups. set (g_fields g) \<subseteq> set (map fst flds)"
  proof (rule mapE_all [OF g])
    fix iv g
    assume "read_group h data (map fst flds) (map snd flds) aliases iv = Inr g"
    then show "set (g_fields g) \<subseteq> set (map fst flds)"
      by (auto dest!: slice_in simp: read_group_def err_simps Let_def mk_group_def split: prod.splits list.splits simp del: set_map)
  qed
  moreover have "\<forall>e\<in>set cat. set (e_groups e) \<subseteq> set groups"
  proof (rule mapE_all [OF e])
    fix i e
    assume "read_ecu h data groups i = Inr e"
    then show "set (e_groups e) \<subseteq> set groups"
      by (auto dest!: slice_in simp: read_ecu_def err_simps)
  qed
  ultimately show ?thesis
    using fs unfolding cat_fields_def cat_groups_def set_concat set_map by blast
qed

end
