(* ===== verification/CatalogWalk.thy ===== *)
theory CatalogWalk
  imports CatalogFile
begin

text \<open>
  What the walk of \<open>write_catalog\<close> leaves in its pools and records.  The first part relates
  \<open>pack\<close>, \<open>pack_into\<close> and \<open>unpack_from\<close> on tables of equal records; the second shows that every
  offset handed out stays valid while the pools grow, so that the flat records can be stated over
  the final pools: \<open>walk_catalog_step\<close>.
\<close>

section \<open>Rows written and read back\<close>

lemma put_bytes_at: "put_bytes (a @ b) (length a) bs = a @ bs @ drop (length bs) b"
  by (simp add: put_bytes_def)

lemma concat_uniform: "(\<And>p. p \<in> set ps \<Longrightarrow> length p = n) \<Longrightarrow> length (concat ps) = length ps * n"
  by (induction ps) auto

lemma drop_concat_uniform:
  "(\<And>p. p \<in> set ps \<Longrightarrow> length p = n) \<Longrightarrow> i < length ps \<Longrightarrow>
   drop (i * n) (concat ps @ c) = ps ! i @ concat (drop (Suc i) ps) @ c"
proof (induction ps arbitrary: i)
  case Nil
  then show ?case by simp
next
  case (Cons p ps)
  then show ?case by (cases i) (auto simp: add.commute)
qed

definition packed :: "code list \<Rightarrow> int list list \<Rightarrow> bytes list \<Rightarrow> bool" where
  "packed fmt rows ps \<longleftrightarrow> list_all2 (\<lambda>r p. pack fmt r = Some p) rows ps"

lemma packed_length:
  assumes "packed fmt rows ps"
  shows "length ps = length rows" and "p \<in> set ps \<Longrightarrow> length p = calcsize fmt"
    and "length (concat ps) = length rows * calcsize fmt"
proof -
  show l: "length ps = length rows" using assms by (simp add: packed_def list_all2_lengthD)
  show p: "length p = calcsize fmt" if "p \<in> set ps" for p
    using assms that by (auto simp: packed_def list_all2_conv_all_nth in_set_conv_nth dest: pack_length)
  show "length (concat ps) = length rows * calcsize fmt"
    using concat_uniform [of ps "calcsize fmt"] p l by simp
qed

lemma packed_read:
  assumes "packed fmt rows ps" and "i < length rows" and "n = length a + i * calcsize fmt"
  shows "unpack_from fmt (a @ concat ps @ c) n = Some (rows ! i)"
proof -
  have i: "i < length ps" using assms packed_length(1) by metis
  have "drop (i * calcsize fmt) (concat ps @ c) = ps ! i @ concat (drop (Suc i) ps) @ c"
    using packed_length(2) [OF assms(1)] i by (intro drop_concat_uniform) auto
  then have d: "drop n (a @ concat ps @ c) = ps ! i @ concat (drop (Suc i) ps) @ c"
    by (simp add: assms(3))
  have p: "pack fmt (rows ! i) = Some (ps ! i)"
    using assms(1,2) by (simp add: packed_def list_all2_conv_all_nth)
  have "n + calcsize fmt \<le> length (a @ concat ps @ c)"
  proof -
    have "Suc i * calcsize fmt \<le> length rows * calcsize fmt" using assms(2) by (intro mult_right_mono) auto
    then show ?thesis using packed_length(3) [OF assms(1)] by (simp add: assms(3))
  qed
  with d unpack_pack [OF p] show ?thesis by (simp add: unpack_from_def)
qed

lemma write_rows_packed:
  assumes "\<And>r. r \<in> set rows \<Longrightarrow> \<exists>p. pack fmt r = Some p" and "length rows * calcsize fmt \<le> length b"
  shows "\<exists>ps. packed fmt rows ps \<and>
     write_rows fmt (length a) (a @ b) rows = Inr (a @ concat ps @ drop (length rows * calcsize fmt) b)"
  using assms
proof (induction rows arbitrary: a b)
  case Nil
  then show ?case by (simp add: packed_def)
next
  case (Cons r rows)
  from Cons.prems(1) [of r] obtain p where p: "pack fmt r = Some p" by auto
  then have lp: "length p = calcsize fmt" by (rule pack_length)
  have room: "length (drop (length p) b) \<ge> length rows * calcsize fmt" using Cons.prems(2) lp by simp
  from Cons.IH [of "drop (length p) b" "a @ p"] Cons.prems(1) room obtain ps where
    ps: "packed fmt rows ps"
      "write_rows fmt (length (a @ p)) ((a @ p) @ drop (length p) b) rows
         = Inr ((a @ p) @ concat ps @ drop (length rows * calcsize fmt) (drop (length p) b))" by auto
  have "struct_write fmt (a @ b) (length a) r = Inr (a @ p @ drop (length p) b)"
    using p lp Cons.prems(2) by (simp add: struct_write_def pack_into_def put_bytes_at)
  then have "write_rows fmt (length a) (a @ b) (r # rows)
      = Inr (a @ concat (p # ps) @ drop (length (r # rows) * calcsize fmt) b)"
    using ps(2) lp by (simp add: add.commute)
  moreover have "packed fmt (r # rows) (p # ps)" using p ps(1) by (simp add: packed_def)
  ultimately show ?case by blast
qed

lemma pack_Some_iff:
  "(\<exists>p. pack fmt vs = Some p) \<longleftrightarrow> list_all2 code_fits fmt vs"
proof (induction fmt vs rule: pack.induct)
  case (2 c fmt v vs)
  then show ?case by (cases "pack fmt vs") auto
qed auto

section \<open>The pools\<close>

text \<open>What a string must satisfy to be stored: no NUL, and UTF-8.\<close>

definition text_ok :: "string \<Rightarrow> bool" where
  "text_ok s \<longleftrightarrow> CHR 0x00 \<notin> set s \<and> utf8_valid (encode s)"

definition known :: "walk \<Rightarrow> string \<Rightarrow> bool" where
  "known w s \<longleftrightarrow> map_of (interned w) s \<noteq> None"

definition string_at :: "bytes \<Rightarrow> nat \<Rightarrow> string \<Rightarrow> bool" where
  "string_at p off s \<longleftrightarrow> (\<exists>a b. p = a @ encode s @ 0 # b \<and> length a = off)"

definition plain_scale :: "scale_rec \<Rightarrow> bool" where
  "plain_scale s \<longleftrightarrow> s_factor s \<noteq> 0x80000000 \<and> s_offset s \<noteq> 0x80000000 \<and> text_ok (s_text s)"

definition plain_run :: "scale_rec list \<Rightarrow> bool" where
  "plain_run run \<longleftrightarrow> (\<forall>s\<in>set run. plain_scale s)"

definition walk_inv :: "walk \<Rightarrow> bool" where
  "walk_inv w \<longleftrightarrow>
     (\<forall>(s, off)\<in>set (interned w). text_ok s \<and> string_at (pool w) off s) \<and>
     map_of (interned w) [] = Some 0 \<and> pool w \<noteq> [] \<and> hd (pool w) = 0 \<and> last (pool w) = 0 \<and>
     (\<forall>(b, off)\<in>set (req_offs w). off + length b \<le> length (reqpool w) \<and> take (length b) (drop off (reqpool w)) = b) \<and>
     (\<forall>(r, off)\<in>set (scale_runs w). plain_run r \<and> off + length r \<le> length (scale_rows w) \<and>
        take (length r) (drop off (scale_rows w)) = r) \<and>
     (\<forall>s\<in>set (scale_rows w). plain_scale s \<and> known w (s_text s))"

definition walk_le :: "walk \<Rightarrow> walk \<Rightarrow> bool" where
  "walk_le w w' \<longleftrightarrow>
     (\<forall>s off. map_of (interned w) s = Some off \<longrightarrow> map_of (interned w') s = Some off) \<and>
     (\<forall>b off. map_of (req_offs w) b = Some off \<longrightarrow> map_of (req_offs w') b = Some off) \<and>
     (\<forall>r off. plain_run r \<longrightarrow> find_run w r = Some off \<longrightarrow> find_run w' r = Some off)"

lemma walk_le_refl [simp, intro]: "walk_le w w"
  by (simp add: walk_le_def)

lemma walk_le_trans [trans]: "walk_le a b \<Longrightarrow> walk_le b c \<Longrightarrow> walk_le a c"
  by (simp add: walk_le_def)

lemma f32_eq_plain: "a \<noteq> 0x80000000 \<Longrightarrow> b \<noteq> 0x80000000 \<Longrightarrow> f32_eq a b \<longleftrightarrow> a = b"
proof -
  have z: "(a :: 32 word) = 0 \<or> a = 0x80000000" if "a AND 0x7FFFFFFF = 0" for a
  proof -
    have m: "(0x7FFFFFFF :: 32 word) = mask 31" by (simp add: mask_eq_exp_minus_1)
    from that have "take_bit 31 a = 0" by (simp add: m take_bit_eq_mask)
    then have "uint (take_bit 31 a) = 0" by simp
    then have "take_bit 31 (uint a) = 0" by (simp only: unsigned_take_bit_eq)
    then have "uint a mod 2147483648 = 0" by (simp add: take_bit_eq_mod)
    moreover have "0 \<le> uint a" by simp
    moreover have "uint a < 4294967296" using uint_lt2p [of a] by (simp del: unsigned_less)
    moreover obtain q where "uint a = 2147483648 * q" using \<open>uint a mod 2147483648 = 0\<close> by (auto elim: dvdE)
    ultimately have "uint a = 2147483648 * q" "q = 0 \<or> q = 1" by linarith+
    then have "uint a = 0 \<or> uint a = 2147483648" by auto
    then show ?thesis
    proof
      assume "uint a = 0"
      then have "a = word_of_int 0" by (metis word_of_int_uint)
      then show ?thesis by simp
    next
      assume "uint a = 2147483648"
      then have "a = word_of_int 2147483648" by (metis word_of_int_uint)
      then show ?thesis by simp
    qed
  qed
  assume "a \<noteq> 0x80000000" "b \<noteq> 0x80000000"
  with z [of a] z [of b] show ?thesis by (auto simp: f32_eq_def)
qed

text \<open>The components no pool depends on.\<close>

lemma known_update [simp]:
  "known (w\<lparr>index_names := a\<rparr>) s = known w s" "known (w\<lparr>any_text := b\<rparr>) s = known w s"
  "known (w\<lparr>field_recs := c, next_field := d\<rparr>) s = known w s"
  "known (w\<lparr>group_recs := c, next_group := d\<rparr>) s = known w s" "known (w\<lparr>ecu_recs := c\<rparr>) s = known w s"
  by (simp_all add: known_def)

lemma walk_inv_update [simp]:
  "walk_inv (w\<lparr>index_names := a\<rparr>) = walk_inv w" "walk_inv (w\<lparr>any_text := b\<rparr>) = walk_inv w"
  "walk_inv (w\<lparr>field_recs := c, next_field := d\<rparr>) = walk_inv w"
  "walk_inv (w\<lparr>group_recs := c, next_group := d\<rparr>) = walk_inv w" "walk_inv (w\<lparr>ecu_recs := c\<rparr>) = walk_inv w"
  by (simp_all add: walk_inv_def known_def)

lemma walk_le_update [simp]:
  "walk_le v (w\<lparr>index_names := a\<rparr>) = walk_le v w" "walk_le v (w\<lparr>any_text := b\<rparr>) = walk_le v w"
  "walk_le v (w\<lparr>field_recs := c, next_field := d\<rparr>) = walk_le v w"
  "walk_le v (w\<lparr>group_recs := c, next_group := d\<rparr>) = walk_le v w" "walk_le v (w\<lparr>ecu_recs := c\<rparr>) = walk_le v w"
  "walk_le (w\<lparr>index_names := a\<rparr>) v = walk_le w v" "walk_le (w\<lparr>any_text := b\<rparr>) v = walk_le w v"
  "walk_le (w\<lparr>field_recs := c, next_field := d\<rparr>) v = walk_le w v"
  "walk_le (w\<lparr>group_recs := c, next_group := d\<rparr>) v = walk_le w v" "walk_le (w\<lparr>ecu_recs := c\<rparr>) v = walk_le w v"
  by (simp_all add: walk_le_def find_run_def)

lemma intern_frame [simp]:
  "ecu_recs (intern s w) = ecu_recs w" "group_recs (intern s w) = group_recs w" "field_recs (intern s w) = field_recs w"
  "index_names (intern s w) = index_names w" "next_group (intern s w) = next_group w" "next_field (intern s w) = next_field w"
  by (simp_all add: intern_def split: option.split)

lemma intern_req_frame [simp]:
  "ecu_recs (intern_req s w) = ecu_recs w" "group_recs (intern_req s w) = group_recs w" "field_recs (intern_req s w) = field_recs w"
  "index_names (intern_req s w) = index_names w" "next_group (intern_req s w) = next_group w" "next_field (intern_req s w) = next_field w"
  by (simp_all add: intern_req_def split: option.split)

lemma intern_scales_frame [simp]:
  "ecu_recs (intern_scales s w) = ecu_recs w" "group_recs (intern_scales s w) = group_recs w" "field_recs (intern_scales s w) = field_recs w"
  "index_names (intern_scales s w) = index_names w" "next_group (intern_scales s w) = next_group w" "next_field (intern_scales s w) = next_field w"
  by (simp_all add: intern_scales_def split: option.split)

lemma add_name_frame [simp]:
  "ecu_recs (add_name n k i w) = ecu_recs w" "group_recs (add_name n k i w) = group_recs w" "field_recs (add_name n k i w) = field_recs w"
  "index_names (add_name n k i w) = index_names w @ [(n, k, i)]" "next_group (add_name n k i w) = next_group w"
  "next_field (add_name n k i w) = next_field w"
  "walk_inv (add_name n k i w) = walk_inv w" "walk_le v (add_name n k i w) = walk_le v w" "walk_le (add_name n k i w) v = walk_le w v"
  "known (add_name n k i w) s = known w s"
  by (simp_all add: add_name_def)

lemma walk_scale_frame [simp]:
  "ecu_recs (walk_scale s w) = ecu_recs w" "group_recs (walk_scale s w) = group_recs w" "field_recs (walk_scale s w) = field_recs w"
  "index_names (walk_scale s w) = index_names w" "next_group (walk_scale s w) = next_group w" "next_field (walk_scale s w) = next_field w"
  by (simp_all add: walk_scale_def)

lemma walk_scales_frame [simp]:
  "ecu_recs (fold walk_scale ss w) = ecu_recs w" "group_recs (fold walk_scale ss w) = group_recs w"
  "field_recs (fold walk_scale ss w) = field_recs w" "index_names (fold walk_scale ss w) = index_names w"
  "next_group (fold walk_scale ss w) = next_group w" "next_field (fold walk_scale ss w) = next_field w"
  by (induction ss arbitrary: w) auto

lemma known_le: "known w s \<Longrightarrow> walk_le w w' \<Longrightarrow> known w' s"
  by (auto simp: known_def walk_le_def)

lemma interned_at_le: "known w s \<Longrightarrow> walk_le w w' \<Longrightarrow> interned_at w s = interned_at w' s"
  by (auto simp: known_def walk_le_def interned_at_def)

lemma string_at_append: "string_at p off s \<Longrightarrow> string_at (p @ q) off s"
  unfolding string_at_def by fastforce

lemma intern_step:
  assumes "walk_inv w" and "text_ok s"
  shows "walk_inv (intern s w)" and "walk_le w (intern s w)" and "known (intern s w) s"
proof -
  show "known (intern s w) s" by (auto simp: known_def intern_def split: option.split)
  show "walk_le w (intern s w)" by (auto simp: walk_le_def intern_def find_run_def split: option.split)
  show "walk_inv (intern s w)"
  proof (cases "map_of (interned w) s")
    case (Some off)
    with assms show ?thesis by (simp add: intern_def)
  next
    case None
    have "s \<noteq> []" using None assms(1) by (auto simp: walk_inv_def)
    moreover have "string_at (pool w @ encode s @ [0]) (length (pool w)) s" unfolding string_at_def by fastforce
    ultimately show ?thesis using None assms
      by (auto simp: intern_def walk_inv_def known_def string_at_append)
  qed
qed

lemma intern_req_step:
  assumes "walk_inv w"
  shows "walk_inv (intern_req b w)" and "walk_le w (intern_req b w)" and "map_of (req_offs (intern_req b w)) b \<noteq> None"
  using assms by (auto simp: walk_inv_def walk_le_def intern_req_def find_run_def known_def split: option.split)

lemma known_req [simp]: "known (intern_req b w) s = known w s"
  by (simp add: known_def intern_req_def split: option.split)

lemma known_scales [simp]: "known (intern_scales r w) s = known w s"
  by (simp add: known_def intern_scales_def split: option.split)

lemma scale_eq_plain: "plain_scale a \<Longrightarrow> plain_scale b \<Longrightarrow> scale_eq a b \<longleftrightarrow> a = b"
  by (auto simp: plain_scale_def scale_eq_def f32_eq_plain)

lemma run_eq_plain: "plain_run a \<Longrightarrow> plain_run b \<Longrightarrow> run_eq a b \<longleftrightarrow> a = b"
proof (induction a arbitrary: b)
  case Nil
  then show ?case by (auto simp: run_eq_def)
next
  case (Cons x a)
  then show ?case by (cases b) (auto simp: run_eq_def plain_run_def scale_eq_plain)
qed

lemma intern_scales_step:
  assumes "walk_inv w" and "plain_run run" and "\<And>s. s \<in> set run \<Longrightarrow> known w (s_text s)"
  shows "walk_inv (intern_scales run w)" and "walk_le w (intern_scales run w)"
    and "run = [] \<or> find_run (intern_scales run w) run \<noteq> None"
proof -
  have e: "run_eq run run" using assms(2) by (simp add: run_eq_plain)
  then show "run = [] \<or> find_run (intern_scales run w) run \<noteq> None"
    by (auto simp: intern_scales_def find_run_def split: option.split)
  show "walk_le w (intern_scales run w)"
    using assms(2) by (auto simp: walk_le_def intern_scales_def find_run_def run_eq_plain split: option.split)
  show "walk_inv (intern_scales run w)"
  proof (cases "run = [] \<or> find_run w run \<noteq> None")
    case True
    with assms(1) show ?thesis by (auto simp: intern_scales_def)
  next
    case False
    define w' where "w' = intern_scales run w"
    have w': "w' = w\<lparr>scale_runs := (run, length (scale_rows w)) # scale_runs w, scale_rows := scale_rows w @ run\<rparr>"
      using False by (simp add: w'_def intern_scales_def)
    have k: "known w' s = known w s" for s by (simp add: w'_def)
    show ?thesis unfolding w'_def [symmetric]
      unfolding walk_inv_def k
      using assms by (auto simp: w' walk_inv_def plain_run_def)
  qed
qed

lemma walk_scales_step:
  assumes "walk_inv w" and "\<And>s. s \<in> set ss \<Longrightarrow> text_ok (s_text s)"
  shows "walk_inv (fold walk_scale ss w) \<and> walk_le w (fold walk_scale ss w) \<and> (\<forall>s\<in>set ss. known (fold walk_scale ss w) (s_text s))"
  using assms
proof (induction ss arbitrary: w)
  case Nil
  then show ?case by simp
next
  case (Cons s ss)
  have t: "text_ok (s_text s)" using Cons.prems by simp
  have i: "walk_inv (w\<lparr>any_text := any_text w \<or> s_text s \<noteq> []\<rparr>)" using Cons.prems by simp
  note st = intern_step [OF i t, folded walk_scale_def]
  have l: "walk_le w (walk_scale s w)" using st(2) by simp
  have h: "walk_inv (fold walk_scale ss (walk_scale s w)) \<and> walk_le (walk_scale s w) (fold walk_scale ss (walk_scale s w)) \<and>
     (\<forall>s'\<in>set ss. known (fold walk_scale ss (walk_scale s w)) (s_text s'))"
    using Cons.IH [OF st(1)] Cons.prems(2) by simp
  then show ?case using walk_le_trans [OF l] known_le [OF st(3)] by simp
qed

section \<open>What the walk stores\<close>

definition field_plain :: "field_rec \<Rightarrow> bool" where
  "field_plain f \<longleftrightarrow> text_ok (f_name f) \<and> text_ok (f_unit f) \<and> plain_run (f_scales f)"

definition group_plain :: "group_rec \<Rightarrow> bool" where
  "group_plain g \<longleftrightarrow> text_ok (g_name g) \<and> (\<forall>a\<in>set (g_aliases g). text_ok a) \<and> (\<forall>f\<in>set (g_fields g). field_plain f)"

definition ecu_plain :: "ecu_rec \<Rightarrow> bool" where
  "ecu_plain e \<longleftrightarrow> text_ok (e_name e) \<and> (\<forall>g\<in>set (e_groups e). group_plain g)"

definition field_stored :: "walk \<Rightarrow> field_rec \<Rightarrow> bool" where
  "field_stored w f \<longleftrightarrow> known w (f_name f) \<and> known w (f_unit f) \<and>
     (f_scales f = [] \<or> find_run w (f_scales f) \<noteq> None)"

definition group_stored :: "walk \<Rightarrow> group_rec \<Rightarrow> bool" where
  "group_stored w g \<longleftrightarrow> known w (g_name g) \<and> (\<forall>a\<in>set (g_aliases g). known w a) \<and>
     map_of (req_offs w) (g_request g) \<noteq> None \<and> (\<forall>f\<in>set (g_fields g). field_stored w f)"

definition ecu_stored :: "walk \<Rightarrow> ecu_rec \<Rightarrow> bool" where
  "ecu_stored w e \<longleftrightarrow> known w (e_name e) \<and> (\<forall>g\<in>set (e_groups e). group_stored w g)"

text \<open>The records by the final offsets.\<close>

definition frec :: "walk \<Rightarrow> nat \<Rightarrow> field_rec \<Rightarrow> int list" where
  "frec w gi f = [interned_at w (f_name f), interned_at w (f_unit f), bit_pos f, bit_size f, field_flags f,
     run_at w (f_scales f), int (length (f_scales f)), repeat_count f, repeat_stride f, int gi]"

definition grec :: "walk \<Rightarrow> nat \<Rightarrow> group_rec \<Rightarrow> int list" where
  "grec w first g = [interned_at w (g_name g), req_at w (g_request g), int (length (g_request g)), uint (sid g),
     group_flags g, int first, int (length (g_fields g)), did g, resp_min_len g]"

definition erec :: "walk \<Rightarrow> nat \<Rightarrow> ecu_rec \<Rightarrow> int list" where
  "erec w first e = [interned_at w (e_name e), request_id e, response_id e, ecu_flags e, block_size e, st_min_raw e,
     p2_ms e, p2_ext_ms e, int first, int (length (e_groups e))]"

fun group_frecs :: "walk \<Rightarrow> nat \<Rightarrow> group_rec list \<Rightarrow> int list list" where
  "group_frecs w gi [] = []"
| "group_frecs w gi (g # gs) = map (frec w gi) (g_fields g) @ group_frecs w (gi + 1) gs"

fun group_grecs :: "walk \<Rightarrow> nat \<Rightarrow> group_rec list \<Rightarrow> int list list" where
  "group_grecs w fi [] = []"
| "group_grecs w fi (g # gs) = grec w fi g # group_grecs w (fi + length (g_fields g)) gs"

fun ecu_erecs :: "walk \<Rightarrow> nat \<Rightarrow> catalog \<Rightarrow> int list list" where
  "ecu_erecs w gi [] = []"
| "ecu_erecs w gi (e # es) = erec w gi e # ecu_erecs w (gi + length (e_groups e)) es"

definition groups_fields :: "group_rec list \<Rightarrow> field_rec list" where
  "groups_fields gs = concat (map g_fields gs)"

lemma groups_fields_simps [simp]:
  "groups_fields [] = []" "groups_fields (g # gs) = g_fields g @ groups_fields gs"
  "groups_fields (gs @ hs) = groups_fields gs @ groups_fields hs"
  by (simp_all add: groups_fields_def)

lemma find_run_le: "plain_run r \<Longrightarrow> find_run w r = Some off \<Longrightarrow> walk_le w w' \<Longrightarrow> find_run w' r = Some off"
  by (simp add: walk_le_def)

lemma run_at_le:
  "plain_run r \<Longrightarrow> r = [] \<or> find_run w r \<noteq> None \<Longrightarrow> walk_le w w' \<Longrightarrow> run_at w r = run_at w' r"
  using find_run_le [of r w _ w'] by (auto simp: run_at_def)

lemma req_at_le: "map_of (req_offs w) b \<noteq> None \<Longrightarrow> walk_le w w' \<Longrightarrow> req_at w b = req_at w' b"
  by (auto simp: walk_le_def req_at_def)

lemma field_stored_le: "field_plain f \<Longrightarrow> field_stored w f \<Longrightarrow> walk_le w w' \<Longrightarrow> field_stored w' f"
  using known_le [of w _ w'] find_run_le [of "f_scales f" w _ w'] by (auto simp: field_stored_def field_plain_def)

lemma group_stored_le: "group_plain g \<Longrightarrow> group_stored w g \<Longrightarrow> walk_le w w' \<Longrightarrow> group_stored w' g"
  using known_le [of w _ w'] field_stored_le [of _ w w']
  by (auto simp: group_stored_def group_plain_def walk_le_def)

lemma ecu_stored_le: "ecu_plain e \<Longrightarrow> ecu_stored w e \<Longrightarrow> walk_le w w' \<Longrightarrow> ecu_stored w' e"
  using known_le [of w _ w'] group_stored_le [of _ w w'] by (auto simp: ecu_stored_def ecu_plain_def)

lemma frec_le: "field_plain f \<Longrightarrow> field_stored w f \<Longrightarrow> walk_le w w' \<Longrightarrow> frec w gi f = frec w' gi f"
  by (simp add: frec_def field_plain_def field_stored_def interned_at_le [of w _ w'] run_at_le [of _ w w'])

lemma walk_field_step:
  assumes inv: "walk_inv w" and f: "field_plain f"
  defines "W \<equiv> walk_field f w"
  shows "walk_inv W" "walk_le w W" "field_stored W f"
    "index_names W = index_names w @ [(f_name f, KIND_FIELD, next_field w)]"
    "next_field W = next_field w + 1" "next_group W = next_group w"
    "group_recs W = group_recs w" "ecu_recs W = ecu_recs w"
    "walk_le W F \<Longrightarrow> field_recs W = field_recs w @ [frec F (next_group w) f]"
proof -
  define a where "a = add_name (f_name f) KIND_FIELD (next_field w) (intern (f_name f) w)"
  define b where "b = fold walk_scale (f_scales f) (intern (f_unit f) a)"
  define c where "c = intern_scales (f_scales f) b"
  have W: "W = c\<lparr>field_recs := field_recs w @ [frec c (next_group w) f], next_field := next_field w + 1\<rparr>"
    by (simp add: W_def walk_field_def Let_def a_def b_def c_def frec_def)
  have t: "text_ok (f_name f)" "text_ok (f_unit f)" "plain_run (f_scales f)"
    using f by (simp_all add: field_plain_def)
  have a: "walk_inv a" "walk_le w a" "known a (f_name f)"
    using intern_step [OF inv t(1)] by (simp_all add: a_def)
  note u = intern_step [OF a(1) t(2)]
  have b: "walk_inv b" "walk_le (intern (f_unit f) a) b" "\<And>s. s \<in> set (f_scales f) \<Longrightarrow> known b (s_text s)"
    using walk_scales_step [OF u(1), of "f_scales f"] t(3) by (simp_all add: b_def plain_run_def plain_scale_def)
  note c = intern_scales_step [OF b(1) t(3) b(3), folded c_def]
  have wa: "walk_le a c" using u(2) b(2) c(2) walk_le_trans by blast
  have uc: "known c (f_unit f)" using known_le [OF u(3)] b(2) c(2) walk_le_trans by blast
  have s: "field_stored c f" using known_le [OF a(3) wa] uc c(3) by (simp add: field_stored_def)
  show "walk_inv W" using c(1) by (simp add: W)
  show "walk_le w W" using walk_le_trans [OF a(2) wa] by (simp add: W)
  show "field_stored W f" using s by (simp add: W field_stored_def find_run_def)
  show "index_names W = index_names w @ [(f_name f, KIND_FIELD, next_field w)]"
    by (simp add: W c_def b_def a_def)
  show "next_field W = next_field w + 1" "next_group W = next_group w" "group_recs W = group_recs w" "ecu_recs W = ecu_recs w"
    by (simp_all add: W c_def b_def a_def)
  assume "walk_le W F"
  then have "walk_le c F" by (simp add: W)
  then show "field_recs W = field_recs w @ [frec F (next_group w) f]"
    using frec_le [OF f s] by (simp add: W)
qed

lemma walk_fields_step:
  assumes inv: "walk_inv w" and f: "\<And>f. f \<in> set fs \<Longrightarrow> field_plain f"
  shows "walk_inv (fold walk_field fs w) \<and> walk_le w (fold walk_field fs w) \<and>
     (\<forall>f\<in>set fs. field_stored (fold walk_field fs w) f) \<and>
     index_names (fold walk_field fs w) = index_names w @ field_adds (next_field w) fs \<and>
     next_field (fold walk_field fs w) = next_field w + length fs \<and> next_group (fold walk_field fs w) = next_group w \<and>
     group_recs (fold walk_field fs w) = group_recs w \<and> ecu_recs (fold walk_field fs w) = ecu_recs w \<and>
     (\<forall>F. walk_le (fold walk_field fs w) F \<longrightarrow> field_recs (fold walk_field fs w) = field_recs w @ map (frec F (next_group w)) fs)"
  using assms
proof (induction fs arbitrary: w)
  case Nil
  then show ?case by simp
next
  case (Cons f fs)
  have p: "field_plain f" using Cons.prems by simp
  note st = walk_field_step [OF Cons.prems(1) p]
  define W where "W = fold walk_field fs (walk_field f w)"
  have ih: "walk_inv W" "walk_le (walk_field f w) W" "\<forall>f\<in>set fs. field_stored W f"
    "index_names W = index_names (walk_field f w) @ field_adds (next_field (walk_field f w)) fs"
    "next_field W = next_field (walk_field f w) + length fs" "next_group W = next_group (walk_field f w)"
    "group_recs W = group_recs (walk_field f w)" "ecu_recs W = ecu_recs (walk_field f w)"
    "\<And>F. walk_le W F \<Longrightarrow> field_recs W = field_recs (walk_field f w) @ map (frec F (next_group (walk_field f w))) fs"
    using Cons.IH [OF st(1)] Cons.prems(2) by (simp_all add: W_def)
  have le: "walk_le w W" using walk_le_trans [OF st(2) ih(2)] .
  have fs: "field_stored W f" using field_stored_le [OF p st(3) ih(2)] .
  have "field_recs W = field_recs w @ map (frec F (next_group w)) (f # fs)" if F: "walk_le W F" for F
    using ih(9) [OF F] st(9) [OF walk_le_trans [OF ih(2) F]] by (simp add: st)
  with ih(1) le fs ih(3) ih(4-8) show ?case
    by (simp add: W_def [symmetric] st(4-8))
qed

lemma walk_aliases_step:
  assumes "walk_inv w" and "\<And>a. a \<in> set as \<Longrightarrow> text_ok a"
  shows "walk_inv (fold walk_alias as w) \<and> walk_le w (fold walk_alias as w) \<and> (\<forall>a\<in>set as. known (fold walk_alias as w) a) \<and>
     index_names (fold walk_alias as w) = index_names w @ map (\<lambda>a. (a, KIND_GROUP, next_group w)) as \<and>
     next_field (fold walk_alias as w) = next_field w \<and> next_group (fold walk_alias as w) = next_group w \<and>
     field_recs (fold walk_alias as w) = field_recs w \<and> group_recs (fold walk_alias as w) = group_recs w \<and>
     ecu_recs (fold walk_alias as w) = ecu_recs w"
  using assms
proof (induction as arbitrary: w)
  case Nil
  then show ?case by simp
next
  case (Cons a as)
  have "text_ok a" using Cons.prems by simp
  note st = intern_step [OF Cons.prems(1) this]
  define v where "v = walk_alias a w"
  have v: "walk_inv v" "walk_le w v" "known v a" using st by (simp_all add: v_def walk_alias_def)
  have fr: "index_names v = index_names w @ [(a, KIND_GROUP, next_group w)]" "next_field v = next_field w" "next_group v = next_group w"
    "field_recs v = field_recs w" "group_recs v = group_recs w" "ecu_recs v = ecu_recs w"
    by (simp_all add: v_def walk_alias_def)
  define W where "W = fold walk_alias as v"
  have ih: "walk_inv W" "walk_le v W" "\<forall>a\<in>set as. known W a"
    "index_names W = index_names v @ map (\<lambda>a. (a, KIND_GROUP, next_group v)) as"
    "next_field W = next_field v" "next_group W = next_group v"
    "field_recs W = field_recs v" "group_recs W = group_recs v" "ecu_recs W = ecu_recs v"
    using Cons.IH [OF v(1)] Cons.prems(2) by (simp_all add: W_def)
  show ?case
    using ih walk_le_trans [OF v(2) ih(2)] known_le [OF v(3) ih(2)] fr
    by (simp add: W_def [symmetric] v_def [symmetric])
qed

lemma walk_group_step:
  assumes inv: "walk_inv w" and g: "group_plain g"
  defines "W \<equiv> walk_group g w"
  shows "walk_inv W" "walk_le w W" "group_stored W g"
    "index_names W = index_names w @ (g_name g, KIND_GROUP, next_group w) # map (\<lambda>a. (a, KIND_GROUP, next_group w)) (g_aliases g)
       @ field_adds (next_field w) (g_fields g)"
    "next_field W = next_field w + length (g_fields g)" "next_group W = next_group w + 1" "ecu_recs W = ecu_recs w"
    "walk_le W F \<Longrightarrow> field_recs W = field_recs w @ map (frec F (next_group w)) (g_fields g)"
    "walk_le W F \<Longrightarrow> group_recs W = group_recs w @ [grec F (next_field w) g]"
proof -
  define a where "a = add_name (g_name g) KIND_GROUP (next_group w) (intern (g_name g) w)"
  define b where "b = fold walk_alias (g_aliases g) a"
  define c where "c = intern_req (g_request g) b"
  define d where "d = fold walk_field (g_fields g) c"
  have W: "W = d\<lparr>group_recs := group_recs d @ [grec d (next_field c) g], next_group := next_group d + 1\<rparr>"
    by (simp add: W_def walk_group_def Let_def a_def b_def c_def d_def grec_def)
  have t: "text_ok (g_name g)" "\<And>x. x \<in> set (g_aliases g) \<Longrightarrow> text_ok x" "\<And>f. f \<in> set (g_fields g) \<Longrightarrow> field_plain f"
    using g by (simp_all add: group_plain_def)
  have a: "walk_inv a" "walk_le w a" "known a (g_name g)"
    using intern_step [OF inv t(1)] by (simp_all add: a_def)
  have af: "index_names a = index_names w @ [(g_name g, KIND_GROUP, next_group w)]" "next_field a = next_field w"
    "next_group a = next_group w" "field_recs a = field_recs w" "group_recs a = group_recs w" "ecu_recs a = ecu_recs w"
    by (simp_all add: a_def)
  from walk_aliases_step [OF a(1), of "g_aliases g"] t(2)
  have b: "walk_inv b \<and> walk_le a b \<and> (\<forall>x\<in>set (g_aliases g). known b x) \<and>
     index_names b = index_names a @ map (\<lambda>x. (x, KIND_GROUP, next_group a)) (g_aliases g) \<and>
     next_field b = next_field a \<and> next_group b = next_group a \<and>
     field_recs b = field_recs a \<and> group_recs b = group_recs a \<and> ecu_recs b = ecu_recs a"
    by (simp add: b_def)
  note c = intern_req_step [of b "g_request g", folded c_def]
  have bi: "walk_inv b" and ab: "walk_le a b" using b by simp_all
  note ci = c(1) [OF bi]
  have cf: "index_names c = index_names b" "next_field c = next_field w" "next_group c = next_group w"
    "field_recs c = field_recs w" "group_recs c = group_recs w" "ecu_recs c = ecu_recs w"
    using b af by (simp_all add: c_def)
  from walk_fields_step [OF ci, of "g_fields g"] t(3)
  have d: "walk_inv d \<and> walk_le c d \<and> (\<forall>f\<in>set (g_fields g). field_stored d f) \<and>
     index_names d = index_names c @ field_adds (next_field c) (g_fields g) \<and>
     next_field d = next_field c + length (g_fields g) \<and> next_group d = next_group c \<and>
     group_recs d = group_recs c \<and> ecu_recs d = ecu_recs c \<and>
     (\<forall>F. walk_le d F \<longrightarrow> field_recs d = field_recs c @ map (frec F (next_group c)) (g_fields g))"
    by (simp add: d_def)
  note wc = walk_le_trans [OF ab c(2) [OF bi]]
  have wd: "walk_le c d" using d by simp
  have cn: "known c (g_name g)" "\<forall>x\<in>set (g_aliases g). known c x"
    using known_le [OF a(3) wc] b by (simp_all add: c_def)
  have rq: "map_of (req_offs d) (g_request g) \<noteq> None"
    using c(3) [OF bi] wd by (auto simp: walk_le_def)
  have s: "group_stored d g"
    using known_le [OF _ wd] cn rq d by (simp add: group_stored_def)
  show "walk_inv W" using d by (simp add: W)
  show "walk_le w W" using walk_le_trans [OF a(2) walk_le_trans [OF wc wd]] by (simp add: W)
  show "group_stored W g" using group_stored_le [OF g s, of W] by (simp add: W)
  show "index_names W = index_names w @ (g_name g, KIND_GROUP, next_group w) # map (\<lambda>a. (a, KIND_GROUP, next_group w)) (g_aliases g)
       @ field_adds (next_field w) (g_fields g)"
    using d b af cf by (simp add: W)
  show "next_field W = next_field w + length (g_fields g)" "next_group W = next_group w + 1" "ecu_recs W = ecu_recs w"
    using d cf by (simp_all add: W)
  assume F: "walk_le W F"
  then have dF: "walk_le d F" by (simp add: W)
  show "field_recs W = field_recs w @ map (frec F (next_group w)) (g_fields g)"
    using d cf dF by (simp add: W)
  have "grec d (next_field w) g = grec F (next_field w) g"
    using s dF by (simp add: grec_def group_stored_def interned_at_le [of d _ F] req_at_le [of d _ F])
  then show "group_recs W = group_recs w @ [grec F (next_field w) g]"
    using d cf by (simp add: W)
qed

lemma walk_groups_step:
  assumes inv: "walk_inv w" and g: "\<And>g. g \<in> set gs \<Longrightarrow> group_plain g"
  shows "walk_inv (fold walk_group gs w) \<and> walk_le w (fold walk_group gs w) \<and>
     (\<forall>g\<in>set gs. group_stored (fold walk_group gs w) g) \<and>
     index_names (fold walk_group gs w) = index_names w @ group_adds (next_group w) (next_field w) gs \<and>
     next_field (fold walk_group gs w) = next_field w + length (groups_fields gs) \<and>
     next_group (fold walk_group gs w) = next_group w + length gs \<and>
     ecu_recs (fold walk_group gs w) = ecu_recs w \<and>
     (\<forall>F. walk_le (fold walk_group gs w) F \<longrightarrow>
        field_recs (fold walk_group gs w) = field_recs w @ group_frecs F (next_group w) gs \<and>
        group_recs (fold walk_group gs w) = group_recs w @ group_grecs F (next_field w) gs)"
  using assms
proof (induction gs arbitrary: w)
  case Nil
  then show ?case by simp
next
  case (Cons g gs)
  have p: "group_plain g" using Cons.prems by simp
  note st = walk_group_step [OF Cons.prems(1) p]
  define v where "v = walk_group g w"
  define W where "W = fold walk_group gs v"
  have ih: "walk_inv W" "walk_le v W" "\<forall>g\<in>set gs. group_stored W g"
    "index_names W = index_names v @ group_adds (next_group v) (next_field v) gs"
    "next_field W = next_field v + length (groups_fields gs)" "next_group W = next_group v + length gs" "ecu_recs W = ecu_recs v"
    "\<And>F. walk_le W F \<Longrightarrow> field_recs W = field_recs v @ group_frecs F (next_group v) gs"
    "\<And>F. walk_le W F \<Longrightarrow> group_recs W = group_recs v @ group_grecs F (next_field v) gs"
    using Cons.IH [OF st(1)] Cons.prems(2) by (simp_all add: W_def v_def)
  note st = st [folded v_def]
  have le: "walk_le w W" using walk_le_trans [OF st(2) ih(2)] .
  have gs: "group_stored W g" using group_stored_le [OF p st(3) ih(2)] .
  have recs: "field_recs W = field_recs w @ group_frecs F (next_group w) (g # gs) \<and>
      group_recs W = group_recs w @ group_grecs F (next_field w) (g # gs)" if F: "walk_le W F" for F
    using ih(8) [OF F] ih(9) [OF F] st(8,9) [OF walk_le_trans [OF ih(2) F]] by (simp add: st(5,6))
  have W: "fold walk_group (g # gs) w = W" by (simp add: W_def v_def)
  show ?case
    unfolding W using ih(1-7) le gs recs st(4-7) by simp
qed

lemma walk_ecu_step:
  assumes inv: "walk_inv w" and e: "ecu_plain e"
  defines "W \<equiv> walk_ecu e w"
  shows "walk_inv W" "walk_le w W" "ecu_stored W e"
    "index_names W = index_names w @ (e_name e, KIND_ECU, length (ecu_recs w)) # group_adds (next_group w) (next_field w) (e_groups e)"
    "next_field W = next_field w + length (groups_fields (e_groups e))" "next_group W = next_group w + length (e_groups e)"
    "walk_le W F \<Longrightarrow> field_recs W = field_recs w @ group_frecs F (next_group w) (e_groups e)"
    "walk_le W F \<Longrightarrow> group_recs W = group_recs w @ group_grecs F (next_field w) (e_groups e)"
    "walk_le W F \<Longrightarrow> ecu_recs W = ecu_recs w @ [erec F (next_group w) e]"
proof -
  define a where "a = add_name (e_name e) KIND_ECU (length (ecu_recs w)) (intern (e_name e) w)"
  define d where "d = fold walk_group (e_groups e) a"
  have W: "W = d\<lparr>ecu_recs := ecu_recs d @ [erec d (next_group a) e]\<rparr>"
    by (simp add: W_def walk_ecu_def Let_def a_def d_def erec_def)
  have t: "text_ok (e_name e)" "\<And>g. g \<in> set (e_groups e) \<Longrightarrow> group_plain g"
    using e by (simp_all add: ecu_plain_def)
  have a: "walk_inv a" "walk_le w a" "known a (e_name e)"
    using intern_step [OF inv t(1)] by (simp_all add: a_def)
  have af: "index_names a = index_names w @ [(e_name e, KIND_ECU, length (ecu_recs w))]" "next_field a = next_field w"
    "next_group a = next_group w" "field_recs a = field_recs w" "group_recs a = group_recs w" "ecu_recs a = ecu_recs w"
    by (simp_all add: a_def)
  from walk_groups_step [OF a(1), of "e_groups e"] t(2)
  have d: "walk_inv d \<and> walk_le a d \<and> (\<forall>g\<in>set (e_groups e). group_stored d g) \<and>
     index_names d = index_names a @ group_adds (next_group a) (next_field a) (e_groups e) \<and>
     next_field d = next_field a + length (groups_fields (e_groups e)) \<and>
     next_group d = next_group a + length (e_groups e) \<and> ecu_recs d = ecu_recs a \<and>
     (\<forall>F. walk_le d F \<longrightarrow> field_recs d = field_recs a @ group_frecs F (next_group a) (e_groups e) \<and>
        group_recs d = group_recs a @ group_grecs F (next_field a) (e_groups e))"
    by (simp add: d_def)
  have ad: "walk_le a d" using d by simp
  have s: "ecu_stored d e" using known_le [OF a(3) ad] d by (simp add: ecu_stored_def)
  show "walk_inv W" using d by (simp add: W)
  show "walk_le w W" using walk_le_trans [OF a(2) ad] by (simp add: W)
  show "ecu_stored W e" using ecu_stored_le [OF e s, of W] by (simp add: W)
  show "index_names W = index_names w @ (e_name e, KIND_ECU, length (ecu_recs w)) # group_adds (next_group w) (next_field w) (e_groups e)"
    "next_field W = next_field w + length (groups_fields (e_groups e))" "next_group W = next_group w + length (e_groups e)"
    using d af by (simp_all add: W)
  assume F: "walk_le W F"
  then have dF: "walk_le d F" by (simp add: W)
  show "field_recs W = field_recs w @ group_frecs F (next_group w) (e_groups e)"
    "group_recs W = group_recs w @ group_grecs F (next_field w) (e_groups e)"
    using d af dF by (simp_all add: W)
  have "erec d (next_group w) e = erec F (next_group w) e"
    using s dF by (simp add: erec_def ecu_stored_def interned_at_le [of d _ F])
  then show "ecu_recs W = ecu_recs w @ [erec F (next_group w) e]" using d af by (simp add: W)
qed

lemma walk_ecus_step:
  assumes inv: "walk_inv w" and e: "\<And>e. e \<in> set es \<Longrightarrow> ecu_plain e"
  shows "walk_inv (fold walk_ecu es w) \<and> walk_le w (fold walk_ecu es w) \<and>
     (\<forall>e\<in>set es. ecu_stored (fold walk_ecu es w) e) \<and>
     index_names (fold walk_ecu es w) = index_names w @ ecu_adds (length (ecu_recs w)) (next_group w) (next_field w) es \<and>
     (\<forall>F. walk_le (fold walk_ecu es w) F \<longrightarrow>
        field_recs (fold walk_ecu es w) = field_recs w @ group_frecs F (next_group w) (cat_groups es) \<and>
        group_recs (fold walk_ecu es w) = group_recs w @ group_grecs F (next_field w) (cat_groups es) \<and>
        ecu_recs (fold walk_ecu es w) = ecu_recs w @ ecu_erecs F (next_group w) es)"
  using assms
proof (induction es arbitrary: w)
  case Nil
  then show ?case by (simp add: cat_groups_def)
next
  case (Cons e es)
  have p: "ecu_plain e" using Cons.prems by simp
  note st = walk_ecu_step [OF Cons.prems(1) p]
  define v where "v = walk_ecu e w"
  define W where "W = fold walk_ecu es v"
  have ih: "walk_inv W" "walk_le v W" "\<forall>e\<in>set es. ecu_stored W e"
    "index_names W = index_names v @ ecu_adds (length (ecu_recs v)) (next_group v) (next_field v) es"
    "\<And>F. walk_le W F \<Longrightarrow> field_recs W = field_recs v @ group_frecs F (next_group v) (cat_groups es)"
    "\<And>F. walk_le W F \<Longrightarrow> group_recs W = group_recs v @ group_grecs F (next_field v) (cat_groups es)"
    "\<And>F. walk_le W F \<Longrightarrow> ecu_recs W = ecu_recs v @ ecu_erecs F (next_group v) es"
    using Cons.IH [OF st(1)] Cons.prems(2) by (simp_all add: W_def v_def)
  note st = st [folded v_def]
  have le: "walk_le w W" using walk_le_trans [OF st(2) ih(2)] .
  have gs: "ecu_stored W e" using ecu_stored_le [OF p st(3) ih(2)] .
  have lv: "length (ecu_recs v) = length (ecu_recs w) + 1" using st(9) [of v] by simp
  have split: "group_frecs F gi (gs @ hs) = group_frecs F gi gs @ group_frecs F (gi + length gs) hs"
    "group_grecs F fi (gs @ hs) = group_grecs F fi gs @ group_grecs F (fi + length (groups_fields gs)) hs" for F gi fi gs hs
    by (induction gs arbitrary: gi fi) (simp_all add: add.assoc)
  have recs: "field_recs W = field_recs w @ group_frecs F (next_group w) (cat_groups (e # es)) \<and>
      group_recs W = group_recs w @ group_grecs F (next_field w) (cat_groups (e # es)) \<and>
      ecu_recs W = ecu_recs w @ ecu_erecs F (next_group w) (e # es)" if F: "walk_le W F" for F
    using ih(5-7) [OF F] st(7-9) [OF walk_le_trans [OF ih(2) F]] by (simp add: st(5,6) split cat_groups_Cons)
  have cf: "cat_fields [e] = groups_fields (e_groups e)" by (simp add: cat_fields_def cat_groups_def groups_fields_def)
  have W: "fold walk_ecu (e # es) w = W" by (simp add: W_def v_def)
  show ?case
    unfolding W using ih(1-4) le gs recs st(4-6) by (simp add: lv cf)
qed

lemma new_walk_inv: "walk_inv new_walk"
proof -
  have "string_at [0] 0 []" unfolding string_at_def by (intro exI [of _ "[]"]) (simp add: encode_def)
  then show ?thesis by (simp add: walk_inv_def new_walk_def text_ok_def encode_def)
qed

lemma walk_catalog_step:
  assumes "\<And>e. e \<in> set cat \<Longrightarrow> ecu_plain e"
  defines "W \<equiv> walk_catalog cat"
  shows "walk_inv W" and "\<forall>e\<in>set cat. ecu_stored W e" and "index_names W = ecu_adds 0 0 0 cat"
    and "field_recs W = group_frecs W 0 (cat_groups cat)" and "group_recs W = group_grecs W 0 (cat_groups cat)"
    and "ecu_recs W = ecu_erecs W 0 cat"
  using walk_ecus_step [OF new_walk_inv assms(1), of cat] walk_le_refl [of W]
  unfolding W_def walk_catalog_def by (simp_all add: new_walk_def)

end
