(* ===== verification/CatalogTrip.thy ===== *)
theory CatalogTrip
  imports CatalogWalk
begin

text \<open>
  \<open>read_catalog\<close> inverts \<open>write_catalog\<close>.  The records of a storable catalog fit their members
  (\<open>ecu_rows_fit\<close> to \<open>header_row_fits\<close>), so the bytes have the shape of \<open>write_shape\<close>; a file
  that holds the records of a catalog is read back as that catalog (\<open>holds_read\<close>), and the file
  written does (\<open>written_holds\<close>).
\<close>

section \<open>Every row fits its record\<close>

definition group_normal :: "group_rec \<Rightarrow> bool" where
  "group_normal g \<longleftrightarrow> g_aliases g = norm_aliases (g_name g) (g_aliases g)"

definition ecu_fits :: "ecu_rec \<Rightarrow> bool" where
  "ecu_fits e \<longleftrightarrow> 0 \<le> request_id e \<and> request_id e < 2 ^ 32 \<and> 0 \<le> response_id e \<and> response_id e < 2 ^ 32 \<and>
     0 \<le> block_size e \<and> block_size e < 256 \<and> 0 \<le> st_min_raw e \<and> st_min_raw e < 256 \<and>
     0 \<le> p2_ms e \<and> p2_ms e < 65536 \<and> 0 \<le> p2_ext_ms e \<and> p2_ext_ms e < 65536"

definition file_size :: "catalog \<Rightarrow> int" where
  "file_size cat = total_size (layout (walk_catalog cat) (index_entries (walk_catalog cat)))"

text \<open>What a catalog must satisfy to be written: the format's limits, transport parameters that
  fit their members, strings the pool can hold, aliases as the constructor leaves them, no
  negative zero in a scale row, and a file below four gigabytes.\<close>

definition storable :: "catalog \<Rightarrow> bool" where
  "storable cat \<longleftrightarrow> within_limits cat \<and> (\<forall>e\<in>set cat. ecu_plain e \<and> ecu_fits e) \<and>
     (\<forall>g\<in>set (cat_groups cat). group_normal g) \<and> file_size cat < 2 ^ 32"

lemma scale_rows_frame [simp]:
  "scale_rows (intern s w) = scale_rows w" "scale_rows (intern_req b w) = scale_rows w"
  "scale_rows (add_name n k i w) = scale_rows w" "scale_rows (walk_scale sc w) = scale_rows w"
  "scale_rows (walk_alias n w) = scale_rows w"
  by (simp_all add: intern_def intern_req_def add_name_def walk_scale_def walk_alias_def split: option.split)

lemma scale_rows_folds [simp]:
  "scale_rows (fold walk_scale ss w) = scale_rows w" "scale_rows (fold walk_alias as w) = scale_rows w"
  by (induction ss arbitrary: w, simp_all) (induction as arbitrary: w, simp_all)

definition rows_from :: "field_rec list \<Rightarrow> walk \<Rightarrow> walk \<Rightarrow> bool" where
  "rows_from fs w w' \<longleftrightarrow> length (scale_rows w') \<le> length (scale_rows w) + length (concat (map f_scales fs)) \<and>
     set (scale_rows w') \<subseteq> set (scale_rows w) \<union> set (concat (map f_scales fs))"

lemma rows_from_trans: "rows_from fs a b \<Longrightarrow> rows_from gs b c \<Longrightarrow> rows_from (fs @ gs) a c"
  by (auto simp: rows_from_def)

lemma rows_from_refl: "rows_from [] w w"
  by (simp add: rows_from_def)

lemma rows_from_field: "rows_from [f] w (walk_field f w)"
  by (auto simp: rows_from_def walk_field_def Let_def intern_scales_def split: option.split)

lemma rows_from_fields: "rows_from fs w (fold walk_field fs w)"
proof (induction fs arbitrary: w)
  case Nil
  then show ?case by (simp add: rows_from_refl)
next
  case (Cons f fs)
  from rows_from_trans [OF rows_from_field Cons.IH] show ?case by simp
qed

lemma rows_from_group: "rows_from (g_fields g) w (walk_group g w)"
proof -
  have "scale_rows (walk_group g w) = scale_rows (fold walk_field (g_fields g)
      (intern_req (g_request g) (fold walk_alias (g_aliases g) (add_name (g_name g) KIND_GROUP (next_group w) (intern (g_name g) w)))))"
    by (simp add: walk_group_def Let_def)
  then show ?thesis
    using rows_from_fields [of "g_fields g" "intern_req (g_request g) (fold walk_alias (g_aliases g) (add_name (g_name g) KIND_GROUP (next_group w) (intern (g_name g) w)))"]
    by (simp add: rows_from_def)
qed

lemma rows_from_groups: "rows_from (groups_fields gs) w (fold walk_group gs w)"
proof (induction gs arbitrary: w)
  case Nil
  then show ?case by (simp add: rows_from_refl)
next
  case (Cons g gs)
  from rows_from_trans [OF rows_from_group Cons.IH] show ?case by simp
qed

lemma rows_from_ecu: "rows_from (groups_fields (e_groups e)) w (walk_ecu e w)"
proof -
  have "scale_rows (walk_ecu e w) = scale_rows (fold walk_group (e_groups e)
      (add_name (e_name e) KIND_ECU (length (ecu_recs w)) (intern (e_name e) w)))"
    by (simp add: walk_ecu_def Let_def)
  then show ?thesis
    using rows_from_groups [of "e_groups e" "add_name (e_name e) KIND_ECU (length (ecu_recs w)) (intern (e_name e) w)"]
    by (simp add: rows_from_def)
qed

lemma rows_from_ecus: "rows_from (cat_fields es) w (fold walk_ecu es w)"
proof (induction es arbitrary: w)
  case Nil
  then show ?case by (simp add: rows_from_refl cat_fields_def cat_groups_def)
next
  case (Cons e es)
  have "cat_fields (e # es) = groups_fields (e_groups e) @ cat_fields es"
    by (simp add: cat_fields_def cat_groups_def groups_fields_def)
  with rows_from_trans [OF rows_from_ecu Cons.IH] show ?case by simp
qed

lemma walk_rows:
  "int (length (scale_rows (walk_catalog cat))) \<le> n_scales cat"
  "s \<in> set (scale_rows (walk_catalog cat)) \<Longrightarrow> \<exists>f\<in>set (cat_fields cat). s \<in> set (f_scales f)"
proof -
  have r: "rows_from (cat_fields cat) new_walk (walk_catalog cat)"
    unfolding walk_catalog_def by (rule rows_from_ecus)
  have l: "int (length (concat (map f_scales fs))) = sum_list (map (\<lambda>f. int (length (f_scales f))) fs)" for fs
    by (induction fs) simp_all
  from r have "length (scale_rows (walk_catalog cat)) \<le> length (concat (map f_scales (cat_fields cat)))"
    by (simp add: rows_from_def new_walk_def)
  then have "int (length (scale_rows (walk_catalog cat))) \<le> int (length (concat (map f_scales (cat_fields cat))))"
    by (simp only: of_nat_le_iff)
  then show "int (length (scale_rows (walk_catalog cat))) \<le> n_scales cat"
    by (simp only: l n_scales_def)
  show "s \<in> set (scale_rows (walk_catalog cat)) \<Longrightarrow> \<exists>f\<in>set (cat_fields cat). s \<in> set (f_scales f)"
    using r by (auto simp: rows_from_def new_walk_def)
qed

lemma interned_bound:
  assumes "walk_inv w" and "known w s"
  shows "0 \<le> interned_at w s" and "interned_at w s < int (length (pool w))"
    and "string_at (pool w) (nat (interned_at w s)) s"
proof -
  obtain off where off: "map_of (interned w) s = Some off" using assms(2) by (auto simp: known_def)
  then have "(s, off) \<in> set (interned w)" by (rule map_of_SomeD)
  then have st: "string_at (pool w) off s" using assms(1) by (auto simp: walk_inv_def)
  then show "string_at (pool w) (nat (interned_at w s)) s" by (simp add: interned_at_def off)
  from st show "interned_at w s < int (length (pool w))" by (auto simp: interned_at_def off string_at_def)
  show "0 \<le> interned_at w s" by (simp add: interned_at_def off)
qed

lemma req_bound:
  assumes "walk_inv w" and "map_of (req_offs w) b \<noteq> None"
  shows "0 \<le> req_at w b" and "req_at w b + int (length b) \<le> int (length (reqpool w))"
    and "take (length b) (drop (nat (req_at w b)) (reqpool w)) = b"
proof -
  obtain off where off: "map_of (req_offs w) b = Some off" using assms(2) by auto
  then have "(b, off) \<in> set (req_offs w)" by (rule map_of_SomeD)
  then have "off + length b \<le> length (reqpool w)" "take (length b) (drop off (reqpool w)) = b"
    using assms(1) by (auto simp: walk_inv_def)
  then show "0 \<le> req_at w b" "req_at w b + int (length b) \<le> int (length (reqpool w))"
    "take (length b) (drop (nat (req_at w b)) (reqpool w)) = b" by (simp_all add: req_at_def off)
qed

lemma run_bound:
  assumes "walk_inv w" and "plain_run r" and "r = [] \<or> find_run w r \<noteq> None"
  shows "0 \<le> run_at w r" and "run_at w r + int (length r) \<le> int (length (scale_rows w))"
    and "py_slice (scale_rows w) (run_at w r) (int (length r)) = r"
proof -
  have "0 \<le> run_at w r \<and> run_at w r + int (length r) \<le> int (length (scale_rows w)) \<and>
     py_slice (scale_rows w) (run_at w r) (int (length r)) = r"
  proof (cases "r = []")
    case True
    then show ?thesis by (simp add: run_at_def py_slice_def)
  next
    case False
    with assms(3) obtain r' off where f: "find (\<lambda>(r', off). run_eq r' r) (scale_runs w) = Some (r', off)"
      by (auto simp: find_run_def)
    then have m: "(r', off) \<in> set (scale_runs w)" "run_eq r' r"
      by (auto simp: find_Some_iff) (metis nth_mem)
    then have "plain_run r'" using assms(1) by (auto simp: walk_inv_def)
    then have "r' = r" using m(2) assms(2) by (simp add: run_eq_plain)
    then have "off + length r \<le> length (scale_rows w)" "take (length r) (drop off (scale_rows w)) = r"
      using m(1) assms(1) by (auto simp: walk_inv_def)
    with False f show ?thesis by (simp add: run_at_def find_run_def py_slice_def)
  qed
  then show "0 \<le> run_at w r" "run_at w r + int (length r) \<le> int (length (scale_rows w))"
    "py_slice (scale_rows w) (run_at w r) (int (length r)) = r" by simp_all
qed

lemma group_frecs_in:
  "r \<in> set (group_frecs w gi gs) \<Longrightarrow> \<exists>g f k. g \<in> set gs \<and> f \<in> set (g_fields g) \<and> k < gi + length gs \<and> r = frec w k f"
proof (induction gs arbitrary: gi)
  case Nil
  then show ?case by simp
next
  case (Cons g gs)
  then consider f where "f \<in> set (g_fields g)" "r = frec w gi f" | "r \<in> set (group_frecs w (gi + 1) gs)" by auto
  then show ?case
  proof cases
    case 1
    then show ?thesis by (intro exI [of _ g] exI [of _ f] exI [of _ gi]) simp
  next
    case 2
    from Cons.IH [OF this] obtain h f k where "h \<in> set gs" "f \<in> set (g_fields h)" "k < gi + 1 + length gs" "r = frec w k f"
      by blast
    then show ?thesis by (intro exI [of _ h] exI [of _ f] exI [of _ k]) simp
  qed
qed

lemma group_grecs_in:
  "r \<in> set (group_grecs w fi gs) \<Longrightarrow> \<exists>g k. g \<in> set gs \<and> k \<le> fi + length (groups_fields gs) \<and> r = grec w k g"
proof (induction gs arbitrary: fi)
  case Nil
  then show ?case by simp
next
  case (Cons g gs)
  show ?case
  proof (cases "r = grec w fi g")
    case True
    then show ?thesis by (intro exI [of _ g] exI [of _ fi]) simp
  next
    case False
    with Cons.prems have "r \<in> set (group_grecs w (fi + length (g_fields g)) gs)" by simp
    from Cons.IH [OF this] obtain h k where "h \<in> set gs" "k \<le> fi + length (g_fields g) + length (groups_fields gs)" "r = grec w k h"
      by blast
    then show ?thesis by (intro exI [of _ h] exI [of _ k]) simp
  qed
qed

lemma ecu_erecs_in:
  "r \<in> set (ecu_erecs w gi es) \<Longrightarrow> \<exists>e k. e \<in> set es \<and> k \<le> gi + length (cat_groups es) \<and> r = erec w k e"
proof (induction es arbitrary: gi)
  case Nil
  then show ?case by simp
next
  case (Cons e es)
  show ?case
  proof (cases "r = erec w gi e")
    case True
    then show ?thesis by (intro exI [of _ e] exI [of _ gi]) simp
  next
    case False
    with Cons.prems have "r \<in> set (ecu_erecs w (gi + length (e_groups e)) es)" by simp
    from Cons.IH [OF this] obtain h k where "h \<in> set es" "k \<le> gi + length (e_groups e) + length (cat_groups es)" "r = erec w k h"
      by blast
    then show ?thesis by (intro exI [of _ h] exI [of _ k]) (simp add: cat_groups_Cons)
  qed
qed

lemma group_frecs_length [simp]: "length (group_frecs w gi gs) = length (groups_fields gs)"
  by (induction gs arbitrary: gi) simp_all

lemma group_grecs_length [simp]: "length (group_grecs w fi gs) = length gs"
  by (induction gs arbitrary: fi) simp_all

lemma ecu_erecs_length [simp]: "length (ecu_erecs w gi es) = length es"
  by (induction es arbitrary: gi) simp_all

lemma cat_fields_groups: "groups_fields (cat_groups cat) = cat_fields cat"
  by (simp add: groups_fields_def cat_fields_def)

lemma storable_parts:
  assumes "storable cat"
  shows "g \<in> set (cat_groups cat) \<Longrightarrow> group_within g" "g \<in> set (cat_groups cat) \<Longrightarrow> group_plain g"
    "g \<in> set (cat_groups cat) \<Longrightarrow> group_normal g"
    "f \<in> set (cat_fields cat) \<Longrightarrow> field_within f" "f \<in> set (cat_fields cat) \<Longrightarrow> field_plain f"
    "e \<in> set cat \<Longrightarrow> ecu_fits e" "e \<in> set cat \<Longrightarrow> ecu_plain e"
    "length cat \<le> 65534" "length (cat_groups cat) \<le> 65534" "length (cat_fields cat) \<le> 65534" "n_scales cat \<le> 65534"
  using assms
  by (auto simp: storable_def within_limits_def group_within_def cat_fields_def cat_groups_def ecu_plain_def group_plain_def)

lemma storable_walk:
  assumes "storable cat"
  defines "w \<equiv> walk_catalog cat"
  shows "walk_inv w" "e \<in> set cat \<Longrightarrow> ecu_stored w e" "g \<in> set (cat_groups cat) \<Longrightarrow> group_stored w g"
    "f \<in> set (cat_fields cat) \<Longrightarrow> field_stored w f"
    "index_names w = ecu_adds 0 0 0 cat"
    "field_recs w = group_frecs w 0 (cat_groups cat)" "group_recs w = group_grecs w 0 (cat_groups cat)"
    "ecu_recs w = ecu_erecs w 0 cat"
    "length (ecu_recs w) = length cat" "length (group_recs w) = length (cat_groups cat)"
    "length (field_recs w) = length (cat_fields cat)" "length (scale_rows w) \<le> 65534"
proof -
  have p: "\<And>e. e \<in> set cat \<Longrightarrow> ecu_plain e" using storable_parts(7) [OF assms(1)] .
  note st = walk_catalog_step [of cat, OF p, simplified, folded w_def]
  show "walk_inv w" "e \<in> set cat \<Longrightarrow> ecu_stored w e" "index_names w = ecu_adds 0 0 0 cat"
    "field_recs w = group_frecs w 0 (cat_groups cat)" "group_recs w = group_grecs w 0 (cat_groups cat)"
    "ecu_recs w = ecu_erecs w 0 cat"
    using st by simp_all
  then show "length (ecu_recs w) = length cat" "length (group_recs w) = length (cat_groups cat)"
    "length (field_recs w) = length (cat_fields cat)" using cat_fields_groups [of cat] by simp_all
  show g: "group_stored w g" if "g \<in> set (cat_groups cat)" for g
    using that st(2) by (auto simp: cat_groups_def ecu_stored_def)
  show "f \<in> set (cat_fields cat) \<Longrightarrow> field_stored w f"
    using g by (auto simp: cat_fields_def group_stored_def)
  show "length (scale_rows w) \<le> 65534"
    using walk_rows(1) [of cat] storable_parts(11) [OF assms(1)] by (simp add: w_def)
qed

lemma layout_facts:
  fixes w es
  defines "l \<equiv> layout w es"
  shows "ecus_off l = 80" "groups_off l = 80 + 24 * int (length (ecu_recs w))"
    "fields_off l = groups_off l + 20 * int (length (group_recs w))"
    "scales_off l = fields_off l + 20 * int (length (field_recs w))"
    "reqbytes_off l = scales_off l + 24 * int (length (scale_rows w))"
    "index_off l = reqbytes_off l + int (length (reqpool w)) + (- (reqbytes_off l + int (length (reqpool w)))) mod 4"
    "strings_off l = index_off l + 12 * int (length es)" "total_size l = strings_off l + int (length (pool w))"
    "reqbytes_len l = int (length (reqpool w))" "strings_len l = int (length (pool w))"
    "ecu_count l = int (length (ecu_recs w))" "group_count l = int (length (group_recs w))"
    "field_count l = int (length (field_recs w))" "scale_count l = int (length (scale_rows w))" "index_count l = int (length es)"
    "h_version l = 1" "h_flags l = 1 + (if any_text w then 2 else 0)" "h_crc l = 0"
  by (simp_all add: l_def layout_def Let_def ECU_SIZE_def GROUP_SIZE_def FIELD_SIZE_def SCALE_SIZE_def INDEX_ENTRY_SIZE_def
      FORMAT_VERSION_def)

lemma layout_order:
  fixes w es
  defines "l \<equiv> layout w es"
  shows "80 \<le> groups_off l" "groups_off l \<le> fields_off l" "fields_off l \<le> scales_off l" "scales_off l \<le> reqbytes_off l"
    "reqbytes_off l + int (length (reqpool w)) \<le> index_off l" "index_off l \<le> strings_off l"
    "strings_off l \<le> total_size l" "int (length es) \<le> total_size l"
proof -
  note lf = layout_facts [of w es, folded l_def]
  have "0 \<le> (- (reqbytes_off l + int (length (reqpool w)))) mod 4" by simp
  then show io: "reqbytes_off l + int (length (reqpool w)) \<le> index_off l" by (subst lf(6)) linarith
  show go: "80 \<le> groups_off l" and fo: "groups_off l \<le> fields_off l" and so: "fields_off l \<le> scales_off l"
    and ro: "scales_off l \<le> reqbytes_off l" and sto: "index_off l \<le> strings_off l" and "strings_off l \<le> total_size l"
    by (simp_all add: lf(2) lf(3) lf(4) lf(5) lf(7) lf(8))
  have "0 \<le> index_off l" using go fo so ro io by linarith
  then show "int (length es) \<le> total_size l" by (simp add: lf(7) lf(8))
qed

lemma field_bounds:
  assumes "field_within f"
  shows "0 \<le> bit_pos f" "bit_pos f < 65536" "1 \<le> bit_size f" "bit_size f < 256" "0 \<le> field_flags f" "field_flags f < 32"
    "0 \<le> repeat_stride f" "repeat_stride f < 65536" "0 \<le> bit_end f" "bit_end f \<le> 65535" "1 \<le> repeat_count f" "repeat_count f < 256"
proof -
  have b: "0 \<le> bit_pos f" "1 \<le> repeat_count f" "repeat_count f < 256" "1 \<le> bit_size f" "bit_size f < 256" "bit_end f \<le> 65535"
    using assms by (auto simp: field_within_def split: if_splits)
  show "0 \<le> bit_pos f" "1 \<le> bit_size f" "bit_size f < 256" "bit_end f \<le> 65535" "1 \<le> repeat_count f" "repeat_count f < 256" using b by simp_all
  show "0 \<le> field_flags f" "field_flags f < 32" by (simp_all add: field_flags_def)
  show s0: "0 \<le> repeat_stride f" using assms b by (auto simp: field_within_def split: if_splits)
  have m: "0 \<le> (repeat_count f - 1) * repeat_stride f" using s0 b by simp
  have "bit_pos f + (repeat_count f - 1) * repeat_stride f + bit_size f \<le> 65535" using b by (simp add: bit_end_def)
  then show "bit_pos f < 65536" and p: "0 \<le> bit_end f" using m b by (simp_all add: bit_end_def)
  have e: "(repeat_count f - 1) * repeat_stride f \<le> 65535" using b m by (simp add: bit_end_def)
  show "repeat_stride f < 65536"
  proof (cases "repeat_count f = 1")
    case True
    then show ?thesis using assms by (simp add: field_within_def)
  next
    case False
    then have "1 * repeat_stride f \<le> (repeat_count f - 1) * repeat_stride f" using b s0 by (intro mult_right_mono) auto
    with e show ?thesis by simp
  qed
qed

lemma foldl_max_bounds:
  "\<forall>x\<in>set xs. x \<le> (c :: int) \<Longrightarrow> a \<le> c \<Longrightarrow> a \<le> foldl max a xs \<and> foldl max a xs \<le> c"
proof (induction xs arbitrary: a)
  case Nil
  then show ?case by simp
next
  case (Cons x xs)
  have "\<forall>x\<in>set xs. x \<le> c" "max a x \<le> c" using Cons.prems by simp_all
  from Cons.IH [OF this] have h: "max a x \<le> foldl max (max a x) xs" "foldl max (max a x) xs \<le> c" by blast+
  show ?case using order_trans [OF max.cobounded1 h(1)] h(2) by (simp only: foldl.simps simp_thms)
qed

lemma resp_min_len_bounds:
  assumes "\<And>f. f \<in> set (g_fields g) \<Longrightarrow> field_within f"
  shows "0 \<le> resp_min_len g" "resp_min_len g < 65536"
proof -
  define s where "s = (case g_fields g of [] \<Rightarrow> 0 | f # _ \<Rightarrow> bit_end f)"
  have s: "0 \<le> s" "s \<le> 65535" using assms field_bounds(9,10) by (auto simp: s_def split: list.split)
  have x: "\<forall>x\<in>set (map bit_end (g_fields g)). x \<le> 65535"
    using assms field_bounds(10) by auto
  have r: "s \<le> foldl max s (map bit_end (g_fields g)) \<and> foldl max s (map bit_end (g_fields g)) \<le> 65535"
    using foldl_max_bounds [OF x s(2)] by simp
  have e: "resp_min_len g = (foldl max s (map bit_end (g_fields g)) + 7) div 8" by (simp add: resp_min_len_def s_def)
  show "0 \<le> resp_min_len g" "resp_min_len g < 65536" using r s unfolding e by linarith+
qed

lemma did_bounds: "0 \<le> did g" "did g < 65536"
proof -
  have "0 \<le> uint (b :: 8 word)" "uint b < 256" for b using uint_byte .
  then have "0 \<le> uint a * 256 + uint (b :: 8 word) \<and> uint (a :: 8 word) * 256 + uint b < 65536" for a b
    by (smt (verit) uint_byte)
  then show "0 \<le> did g" "did g < 65536" by (simp_all add: did_def NO_INDEX_def)
qed

lemma group_flags_bounds: "0 \<le> group_flags g" "group_flags g < 65536"
proof -
  have "0 \<le> security_level g mod 16" "security_level g mod 16 < 16" by simp_all
  then show "0 \<le> group_flags g" "group_flags g < 65536" by (auto simp: group_flags_def)
qed

lemma target_of_sum: "idx < 2 ^ 28 \<Longrightarrow> target_of kind idx = int kind * 2 ^ 28 + int idx"
proof -
  assume i: "idx < 2 ^ 28"
  have d: "bit (push_bit 28 (int kind)) n \<Longrightarrow> \<not> bit (int idx) n" for n
  proof -
    assume "bit (push_bit 28 (int kind)) n"
    then have n: "28 \<le> n" by (simp add: bit_push_bit_iff)
    have "int idx < 2 ^ n"
    proof -
      have "(2 :: int) ^ 28 \<le> 2 ^ n" using n by (intro power_increasing) auto
      moreover have "int idx < 2 ^ 28" using i by (metis of_nat_less_iff of_nat_numeral of_nat_power)
      ultimately show ?thesis by linarith
    qed
    then show "\<not> bit (int idx) n" by (simp add: bit_iff_odd)
  qed
  have "push_bit 28 (int kind) + int idx = push_bit 28 (int kind) OR int idx"
    using d by (intro disjunctive_add) blast
  then show ?thesis by (simp add: target_of_def push_bit_eq_mult)
qed

definition entry_of :: "walk \<Rightarrow> string \<times> nat \<times> nat \<Rightarrow> int \<times> int \<times> int" where
  "entry_of w t = (case t of (name, kind, idx) \<Rightarrow> (uint (fnv1a32 (encode name)), interned_at w name, target_of kind idx))"

lemma first_seen_set: "set (first_seen S xs) = set xs - S"
  by (induction xs arbitrary: S) auto

lemma index_entries_set: "set (index_entries w) = entry_of w ` set (index_names w)"
  by (auto simp: index_entries_def first_seen_set entry_of_def [abs_def])

lemma adds_bears: "(n, k, j) \<in> set (ecu_adds 0 0 0 cat) \<longleftrightarrow> bears cat n (k, j)"
  unfolding bears_def ecu_adds_set prod.case ex_enum by simp

lemma bears_stored:
  assumes "storable cat" and "bears cat n (k, j)"
  shows "known (walk_catalog cat) n" "text_ok n" "k \<le> 3" "j < 65534"
    "k = KIND_ECU \<Longrightarrow> j < length cat" "k = KIND_GROUP \<Longrightarrow> j < length (cat_groups cat)" "k = KIND_FIELD \<Longrightarrow> j < length (cat_fields cat)"
proof -
  from assms(2) consider (ecu) "k = KIND_ECU" "j < length cat" "e_name (cat ! j) = n"
    | (group) "k = KIND_GROUP" "j < length (cat_groups cat)"
        "g_name (cat_groups cat ! j) = n \<or> n \<in> set (g_aliases (cat_groups cat ! j))"
    | (fld) "k = KIND_FIELD" "j < length (cat_fields cat)" "f_name (cat_fields cat ! j) = n"
    by (auto simp: bears_def)
  then have "known (walk_catalog cat) n \<and> text_ok n \<and> k \<le> 3 \<and> j < 65534 \<and>
    (k = KIND_ECU \<longrightarrow> j < length cat) \<and> (k = KIND_GROUP \<longrightarrow> j < length (cat_groups cat)) \<and> (k = KIND_FIELD \<longrightarrow> j < length (cat_fields cat))"
  proof cases
    case ecu
    then have m: "cat ! j \<in> set cat" by simp
    with storable_walk(2) [OF assms(1) m] storable_parts(7) [OF assms(1) m] storable_parts(8) [OF assms(1)] ecu show ?thesis
      by (auto simp: ecu_stored_def ecu_plain_def KIND_ECU_def KIND_GROUP_def KIND_FIELD_def)
  next
    case group
    then have m: "cat_groups cat ! j \<in> set (cat_groups cat)" by simp
    with storable_walk(3) [OF assms(1) m] storable_parts(2) [OF assms(1) m] storable_parts(9) [OF assms(1)] group show ?thesis
      by (auto simp: group_stored_def group_plain_def KIND_ECU_def KIND_GROUP_def KIND_FIELD_def)
  next
    case fld
    then have m: "cat_fields cat ! j \<in> set (cat_fields cat)" by simp
    with storable_walk(4) [OF assms(1) m] storable_parts(5) [OF assms(1) m] storable_parts(10) [OF assms(1)] fld show ?thesis
      by (auto simp: field_stored_def field_plain_def KIND_ECU_def KIND_GROUP_def KIND_FIELD_def)
  qed
  then show "known (walk_catalog cat) n" "text_ok n" "k \<le> 3" "j < 65534"
    "k = KIND_ECU \<Longrightarrow> j < length cat" "k = KIND_GROUP \<Longrightarrow> j < length (cat_groups cat)" "k = KIND_FIELD \<Longrightarrow> j < length (cat_fields cat)"
    by simp_all
qed

abbreviation file_layout :: "catalog \<Rightarrow> header" where
  "file_layout cat \<equiv> layout (walk_catalog cat) (index_entries (walk_catalog cat))"

lemma name_fits:
  assumes "storable cat" and "known (walk_catalog cat) s"
  shows "0 \<le> interned_at (walk_catalog cat) s" "interned_at (walk_catalog cat) s < 4294967296"
proof -
  have "total_size (file_layout cat) < 4294967296" using assms(1) by (simp add: storable_def file_size_def)
  moreover have "int (length (pool (walk_catalog cat))) \<le> total_size (file_layout cat)"
    using layout_facts(8) [where w = "walk_catalog cat" and es = "index_entries (walk_catalog cat)"]
      layout_order [where w = "walk_catalog cat" and es = "index_entries (walk_catalog cat)"] by linarith
  ultimately show "0 \<le> interned_at (walk_catalog cat) s" "interned_at (walk_catalog cat) s < 4294967296"
    using interned_bound [OF storable_walk(1) [OF assms(1)] assms(2)] by linarith+
qed

lemma ecu_rows_fit:
  assumes "storable cat" and "r \<in> set (ecu_recs (walk_catalog cat))"
  shows "\<exists>p. pack ecu_fmt r = Some p"
proof -
  obtain e k where e: "e \<in> set cat" "k \<le> length (cat_groups cat)" "r = erec (walk_catalog cat) k e"
    using ecu_erecs_in [of r "walk_catalog cat" 0 cat] assms(2) storable_walk(8) [OF assms(1)] by auto
  have kn: "known (walk_catalog cat) (e_name e)" using storable_walk(2) [OF assms(1) e(1)] by (simp add: ecu_stored_def)
  have f: "ecu_fits e" using storable_parts(6) [OF assms(1) e(1)] .
  have "length (e_groups e) \<le> length (cat_groups cat)"
  proof -
    from e(1) obtain xs ys where "cat = xs @ e # ys" by (metis split_list)
    then show ?thesis by (simp add: cat_groups_def)
  qed
  then show ?thesis
    unfolding pack_Some_iff e(3)
    using name_fits [OF assms(1) kn] f e(2) storable_parts(9) [OF assms(1)]
    by (simp add: erec_def ecu_fmt_def ecu_fits_def ecu_flags_def)
qed

lemma fields_length_le: "g \<in> set gs \<Longrightarrow> length (g_fields g) \<le> length (groups_fields gs)"
  by (induction gs) auto

lemma group_rows_fit:
  assumes "storable cat" and "r \<in> set (group_recs (walk_catalog cat))"
  shows "\<exists>p. pack group_fmt (r[1 := reqbytes_off (file_layout cat) + r ! 1]) = Some p"
proof -
  define w where "w = walk_catalog cat"
  obtain g k where g: "g \<in> set (cat_groups cat)" "k \<le> length (cat_fields cat)" "r = grec w k g"
    using group_grecs_in [of r w 0 "cat_groups cat"] assms(2) storable_walk(7) [OF assms(1)]
    by (auto simp: cat_fields_groups w_def)
  have st: "group_stored w g" using storable_walk(3) [OF assms(1) g(1)] by (simp add: w_def)
  have wi: "group_within g" using storable_parts(1) [OF assms(1) g(1)] .
  have n: "length (g_fields g) \<le> length (cat_fields cat)"
    using fields_length_le [OF g(1)] by (simp add: cat_fields_groups)
  have rq: "0 \<le> req_at w (g_request g)" "req_at w (g_request g) \<le> int (length (reqpool w))"
    using req_bound [of w "g_request g"] storable_walk(1) [OF assms(1)] st by (simp_all add: w_def group_stored_def)
  have off: "0 \<le> reqbytes_off (file_layout cat)" "reqbytes_off (file_layout cat) + int (length (reqpool w)) < 4294967296"
    using layout_order [where w = w and es = "index_entries w"] layout_facts(8) [where w = w and es = "index_entries w"] assms(1)
    by (simp_all add: w_def storable_def file_size_def)
  have fw: "\<And>f. f \<in> set (g_fields g) \<Longrightarrow> field_within f" using wi by (simp add: group_within_def)
  have sid: "0 \<le> uint (sid g)" "uint (sid g) < 256" using uint_byte by simp_all
  have l: "int (length (g_request g)) < 256" using wi by (simp add: group_within_def)
  have nm: "0 \<le> interned_at w (g_name g)" "interned_at w (g_name g) < 4294967296"
    using name_fits [OF assms(1), of "g_name g"] st by (simp_all add: w_def group_stored_def)
  show ?thesis
    unfolding pack_Some_iff g(3) grec_def group_fmt_def
    using nm rq off sid l n g(2) storable_parts(10) [OF assms(1)] group_flags_bounds [of g] did_bounds [of g]
      resp_min_len_bounds [OF fw]
    by simp
qed

lemma field_rows_fit:
  assumes "storable cat" and "r \<in> set (field_recs (walk_catalog cat))"
  shows "\<exists>p. pack field_fmt r = Some p"
proof -
  define w where "w = walk_catalog cat"
  obtain g f k where g: "g \<in> set (cat_groups cat)" "f \<in> set (g_fields g)" "k < length (cat_groups cat)" "r = frec w k f"
    using group_frecs_in [of r w 0 "cat_groups cat"] assms(2) storable_walk(6) [OF assms(1)] by (auto simp: w_def)
  have m: "f \<in> set (cat_fields cat)" using g by (auto simp: cat_fields_def)
  have st: "field_stored w f" using storable_walk(4) [OF assms(1) m] by (simp add: w_def)
  have pl: "plain_run (f_scales f)" using storable_parts(5) [OF assms(1) m] by (simp add: field_plain_def)
  have wi: "field_within f" using storable_parts(4) [OF assms(1) m] .
  have rb: "0 \<le> run_at w (f_scales f)" "run_at w (f_scales f) < 65536"
    using run_bound [of w "f_scales f"] storable_walk(1,12) [OF assms(1)] pl st by (simp_all add: w_def field_stored_def)
  have nm: "0 \<le> interned_at w (f_name f)" "interned_at w (f_name f) < 4294967296"
      "0 \<le> interned_at w (f_unit f)" "interned_at w (f_unit f) < 4294967296"
    using name_fits [OF assms(1), of "f_name f"] name_fits [OF assms(1), of "f_unit f"] st
    by (simp_all add: w_def field_stored_def)
  have ns: "int (length (f_scales f)) < 256" using wi by (simp add: field_within_def)
  show ?thesis
    unfolding pack_Some_iff g(4) frec_def field_fmt_def
    using nm rb ns g(3) storable_parts(9) [OF assms(1)] field_bounds [OF wi] by simp
qed

lemma scale_rows_fit:
  assumes "storable cat" and "r \<in> set (map (scale_row (walk_catalog cat)) (scale_rows (walk_catalog cat)))"
  shows "\<exists>p. pack scale_fmt r = Some p"
proof -
  obtain s where s: "s \<in> set (scale_rows (walk_catalog cat))" "r = scale_row (walk_catalog cat) s" using assms(2) by auto
  then obtain f where f: "f \<in> set (cat_fields cat)" "s \<in> set (f_scales f)" using walk_rows(2) by blast
  have wi: "field_within f" using storable_parts(4) [OF assms(1) f(1)] .
  then have b: "- 2147483648 \<le> s_low s" "s_low s < 2147483648" "- 2147483648 \<le> s_high s" "s_high s < 2147483648"
    using f(2) by (auto simp: field_within_def)
  have "known (walk_catalog cat) (s_text s)"
    using storable_walk(1) [OF assms(1)] s(1) by (auto simp: walk_inv_def)
  from name_fits [OF assms(1) this] b uint_lt2p [of "s_factor s"] uint_lt2p [of "s_offset s"] show ?thesis
    unfolding pack_Some_iff s(2) scale_row_def scale_fmt_def by simp
qed

lemma index_rows_fit:
  assumes "storable cat" and "r \<in> set (map (\<lambda>(hash, ref, target). [hash, ref, target]) (index_entries (walk_catalog cat)))"
  shows "\<exists>p. pack index_fmt r = Some p"
proof -
  define w where "w = walk_catalog cat"
  obtain n k j where t: "(n, k, j) \<in> set (index_names w)"
      "r = [uint (fnv1a32 (encode n)), interned_at w n, target_of k j]"
    using assms(2) by (auto simp: index_entries_set entry_of_def w_def)
  then have b: "bears cat n (k, j)" using storable_walk(5) [OF assms(1)] by (simp add: w_def adds_bears)
  note bs = bears_stored [OF assms(1) b]
  have "target_of k j = int k * 268435456 + int j" using target_of_sum [of j k] bs(4) by simp
  with bs name_fits [OF assms(1) bs(1)] uint_lt2p [of "fnv1a32 (encode n)"] show ?thesis
    unfolding pack_Some_iff t(2) index_fmt_def by (simp add: w_def)
qed

lemma crc32_bounds: "0 \<le> crc32 bs" "crc32 bs < 4294967296"
  using uint_lt2p [of "NOT (foldl crc_byte (NOT 0) bs)"] by (simp_all add: crc32_def)

lemma header_row_fits:
  assumes "storable cat" and "0 \<le> c" and "c < 4294967296"
  shows "\<exists>p. pack header_fmt (header_row ((file_layout cat)\<lparr>h_crc := c\<rparr>)) = Some p"
proof -
  define w where "w = walk_catalog cat"
  define l where "l = layout w (index_entries w)"
  have t: "total_size l < 4294967296" using assms(1) by (simp add: storable_def file_size_def w_def l_def)
  note lf = layout_facts [where w = w and es = "index_entries w", folded l_def]
  note lo = layout_order [where w = w and es = "index_entries w", folded l_def]
  have c: "int (length (ecu_recs w)) < 65536" "int (length (group_recs w)) < 65536" "int (length (field_recs w)) < 65536"
    "int (length (scale_rows w)) < 65536"
    using storable_walk(9-12) [OF assms(1)] storable_parts(8-10) [OF assms(1)] by (simp_all add: w_def)
  have o: "0 \<le> ecus_off l \<and> ecus_off l < 4294967296 \<and> 0 \<le> groups_off l \<and> groups_off l < 4294967296 \<and>
     0 \<le> fields_off l \<and> fields_off l < 4294967296 \<and> 0 \<le> scales_off l \<and> scales_off l < 4294967296 \<and>
     0 \<le> reqbytes_off l \<and> reqbytes_off l < 4294967296 \<and> 0 \<le> reqbytes_len l \<and> reqbytes_len l < 4294967296 \<and>
     0 \<le> strings_off l \<and> strings_off l < 4294967296 \<and> 0 \<le> strings_len l \<and> strings_len l < 4294967296 \<and>
     0 \<le> index_off l \<and> index_off l < 4294967296 \<and> 0 \<le> index_count l \<and> index_count l < 4294967296 \<and> 0 \<le> total_size l"
    using lf(1,8,9,10,15) lo t by linarith
  show ?thesis
    unfolding pack_Some_iff header_row_def header_fmt_def w_def [symmetric] l_def [symmetric]
    using o c t assms(2,3) by (simp add: lf(11-17))
qed

section \<open>The bytes written\<close>

lemma write_rows_zero:
  assumes "\<And>r. r \<in> set rows \<Longrightarrow> \<exists>p. pack fmt r = Some p" and "length a + length rows * calcsize fmt \<le> T" and "off = length a"
  shows "\<exists>ps. packed fmt rows ps \<and> length (a @ concat ps) = length a + length rows * calcsize fmt \<and>
     write_rows fmt off (a @ replicate (T - length a) 0) rows
       = Inr ((a @ concat ps) @ replicate (T - length (a @ concat ps)) 0)"
proof -
  have "length rows * calcsize fmt \<le> length (replicate (T - length a) (0 :: 8 word))" using assms(2) by simp
  from write_rows_packed [OF assms(1) this] obtain ps where ps: "packed fmt rows ps"
    "write_rows fmt (length a) (a @ replicate (T - length a) 0) rows
       = Inr (a @ concat ps @ drop (length rows * calcsize fmt) (replicate (T - length a) 0))" by blast
  have "length (concat ps) = length rows * calcsize fmt" using packed_length(3) [OF ps(1)] .
  with ps show ?thesis by (intro exI [of _ ps]) (simp add: assms(3) diff_diff_add)
qed

lemma put_bytes_zero:
  "length a + length bs \<le> T \<Longrightarrow> off = length a \<Longrightarrow>
   put_bytes (a @ replicate (T - length a) 0) off bs = (a @ bs) @ replicate (T - length (a @ bs)) 0"
  by (simp add: put_bytes_at)

lemma zeros_split:
  "length a + n \<le> T \<Longrightarrow> a @ replicate (T - length a) x = (a @ replicate n x) @ replicate (T - length (a @ replicate n x)) x"
  by (simp flip: replicate_add)

lemma pack_append:
  "length fmt = length vs \<Longrightarrow>
   pack (fmt @ fmt') (vs @ vs') = (case pack fmt vs of None \<Rightarrow> None | Some a \<Rightarrow> map_option ((@) a) (pack fmt' vs'))"
proof (induction fmt vs rule: list_induct2)
  case Nil
  then show ?case by (cases "pack fmt' vs'") simp_all
next
  case (Cons c fmt v vs)
  then show ?case by (cases "pack fmt vs"; cases "pack fmt' vs'") simp_all
qed

lemma magic_length [simp]: "length MAGIC = 8"
  by (simp add: MAGIC_def)

text \<open>Patching the CRC into the written header gives the header packed with it.\<close>

lemma header_patch:
  assumes "pack header_fmt (header_row h) = Some p" and "pack header_fmt (header_row (h\<lparr>h_crc := c\<rparr>)) = Some q"
  shows "put_bytes (MAGIC @ p @ rest) 16 (le_bytes 4 c) = MAGIC @ q @ rest" and "drop 56 p = drop 56 q" and "length q = 72"
proof -
  define f where "f = [U 4, U 2, U 2, U 4, U 2, U 2, U 4, U 2, U 2, U 4, U 2, U 2, U 4, U 4, U 4, U 4, U 4, U 4, U 4]"
  define r where "r = drop 4 (header_row h)"
  have fmt: "header_fmt = [U 2, U 2, U 4] @ [U 4] @ f" by (simp add: header_fmt_def f_def)
  have row: "header_row (h\<lparr>h_crc := d\<rparr>) = [h_version h, h_flags h, total_size h] @ [d] @ r" for d
    by (simp add: header_row_def r_def)
  have row0: "header_row h = [h_version h, h_flags h, total_size h] @ [h_crc h] @ r"
    by (simp add: header_row_def r_def)
  obtain a b z where a: "pack [U 2, U 2, U 4] [h_version h, h_flags h, total_size h] = Some a"
      and b: "pack [U 4] [h_crc h] = Some b" and z: "pack f r = Some z" and p: "p = a @ b @ z"
    using assms(1) unfolding fmt row0 by (subst (asm) pack_append, simp, subst (asm) pack_append, simp)
      (auto split: option.splits)
  obtain b' where b': "pack [U 4] [c] = Some b'" and q: "q = a @ b' @ z"
    using assms(2) a z unfolding fmt row by (subst (asm) pack_append, simp, subst (asm) pack_append, simp)
      (auto split: option.splits)
  have la: "length a = 8" "length b = 4" "length b' = 4" using pack_length [OF a] pack_length [OF b] pack_length [OF b'] by simp_all
  have "b' = le_bytes 4 c" using b' by (simp split: if_splits)
  then show "put_bytes (MAGIC @ p @ rest) 16 (le_bytes 4 c) = MAGIC @ q @ rest"
    using put_bytes_at [of "MAGIC @ a" "b @ z @ rest" b'] la by (simp add: p q)
  show "drop 56 p = drop 56 q" using la by (simp add: p q)
  show "length q = 72" using pack_length [OF assms(2)] by (simp add: fmt_sizes)
qed

lemma write_shape:
  assumes st: "storable cat"
  defines "w \<equiv> walk_catalog cat" and "l \<equiv> file_layout cat"
  shows "\<exists>hb pe pg pf ps pi body.
    packed ecu_fmt (ecu_recs w) pe \<and>
    packed group_fmt (map (\<lambda>r. r[1 := reqbytes_off l + r ! 1]) (group_recs w)) pg \<and>
    packed field_fmt (field_recs w) pf \<and> packed scale_fmt (map (scale_row w) (scale_rows w)) ps \<and>
    packed index_fmt (map (\<lambda>(hash, ref, target). [hash, ref, target]) (index_entries w)) pi \<and>
    body = concat pe @ concat pg @ concat pf @ concat ps @ reqpool w
      @ replicate (nat (index_off l - reqbytes_off l) - length (reqpool w)) 0 @ concat pi @ pool w \<and>
    pack header_fmt (header_row (l\<lparr>h_crc := crc32 (drop 56 hb @ body)\<rparr>)) = Some hb \<and>
    write_catalog cat = Inr (MAGIC @ hb @ body)"
proof -
  define es where "es = index_entries w"
  have l: "l = layout w es" by (simp add: l_def w_def es_def)
  note lf = layout_facts [where w = w and es = es, folded l]
  note lo = layout_order [where w = w and es = es, folded l]
  define T where "T = nat (total_size l)"
  define pad where "pad = nat (index_off l - reqbytes_off l) - length (reqpool w)"
  obtain hb0 where hb0: "pack header_fmt (header_row l) = Some hb0"
  proof -
    have "l\<lparr>h_crc := 0\<rparr> = l" using lf(18) by (cases l) simp
    with header_row_fits [OF st, of 0] that show ?thesis by (auto simp: l_def)
  qed
  have lh: "length hb0 = 72" using pack_length [OF hb0] by (simp add: fmt_sizes)
  define a1 where "a1 = MAGIC @ hb0"
  have la1: "length a1 = 80" by (simp add: a1_def lh)
  have T: "80 \<le> T" using lo by (simp add: T_def)
  have T_room: "n \<le> T \<longleftrightarrow> int n \<le> total_size l" for n using lo by (simp add: T_def le_nat_iff)
  have b0: "put_bytes (replicate T 0) 0 MAGIC = MAGIC @ replicate (T - length MAGIC) 0"
    using put_bytes_at [of "[]" "replicate T 0" MAGIC] by simp
  have b1: "struct_write header_fmt (MAGIC @ replicate (T - length MAGIC) 0) 8 (header_row l) = Inr (a1 @ replicate (T - length a1) 0)"
  proof -
    have "put_bytes (MAGIC @ replicate (T - length MAGIC) 0) 8 hb0 = a1 @ replicate (T - length a1) 0"
      unfolding a1_def by (rule put_bytes_zero) (use lh T in simp_all)
    moreover have "8 + length hb0 \<le> length (MAGIC @ replicate (T - length MAGIC) (0 :: 8 word))" using lh T by simp
    ultimately show ?thesis by (simp only: struct_write_def pack_into_def hb0 option.case if_True)
  qed
  obtain pe where pe: "packed ecu_fmt (ecu_recs w) pe" "length (a1 @ concat pe) = length a1 + length (ecu_recs w) * 24"
     "write_rows ecu_fmt (nat (ecus_off l)) (a1 @ replicate (T - length a1) 0) (ecu_recs w)
        = Inr ((a1 @ concat pe) @ replicate (T - length (a1 @ concat pe)) 0)"
  proof -
    have fit: "\<exists>p. pack ecu_fmt r = Some p" if "r \<in> set (ecu_recs w)" for r
      using that ecu_rows_fit [OF st] by (auto simp: w_def)
    have "length a1 + length (ecu_recs w) * calcsize ecu_fmt \<le> T"
      using lf(2) lo(2-7) la1 by (simp add: fmt_sizes T_room)
    from write_rows_zero [OF fit this, of "nat (ecus_off l)"] la1 lf(1) that show ?thesis by (auto simp: fmt_sizes)
  qed
  define a2 where "a2 = a1 @ concat pe"
  have la2: "length a2 = nat (groups_off l)" using pe(2) la1 lf(2) by (simp add: a2_def)
  define grows where "grows = map (\<lambda>r. r[1 := reqbytes_off l + r ! 1]) (group_recs w)"
  obtain pg where pg: "packed group_fmt grows pg" "length (a2 @ concat pg) = length a2 + length grows * 20"
     "write_rows group_fmt (nat (groups_off l)) (a2 @ replicate (T - length a2) 0) grows
        = Inr ((a2 @ concat pg) @ replicate (T - length (a2 @ concat pg)) 0)"
  proof -
    have fit: "\<exists>p. pack group_fmt r = Some p" if "r \<in> set grows" for r
      using that group_rows_fit [OF st] by (auto simp: grows_def w_def l_def)
    have "length a2 + length grows * calcsize group_fmt \<le> T"
      using lf(3) lo(1-7) la2 by (simp add: fmt_sizes grows_def T_room)
    from write_rows_zero [OF fit this, of "nat (groups_off l)"] la2 that show ?thesis by (auto simp: fmt_sizes)
  qed
  define a3 where "a3 = a2 @ concat pg"
  have la3: "length a3 = nat (fields_off l)" using pg(2) la2 lf(3) lo(1,2) by (simp add: a3_def grows_def)
  obtain pf where pf: "packed field_fmt (field_recs w) pf" "length (a3 @ concat pf) = length a3 + length (field_recs w) * 20"
     "write_rows field_fmt (nat (fields_off l)) (a3 @ replicate (T - length a3) 0) (field_recs w)
        = Inr ((a3 @ concat pf) @ replicate (T - length (a3 @ concat pf)) 0)"
  proof -
    have fit: "\<exists>p. pack field_fmt r = Some p" if "r \<in> set (field_recs w)" for r
      using that field_rows_fit [OF st] by (auto simp: w_def)
    have "length a3 + length (field_recs w) * calcsize field_fmt \<le> T"
      using lf(4) lo(1-7) la3 by (simp add: fmt_sizes T_room)
    from write_rows_zero [OF fit this, of "nat (fields_off l)"] la3 that show ?thesis by (auto simp: fmt_sizes)
  qed
  define a4 where "a4 = a3 @ concat pf"
  have la4: "length a4 = nat (scales_off l)" using pf(2) la3 lf(4) lo(1-3) by (simp add: a4_def)
  define srows where "srows = map (scale_row w) (scale_rows w)"
  obtain ps where ps: "packed scale_fmt srows ps" "length (a4 @ concat ps) = length a4 + length srows * 24"
     "write_rows scale_fmt (nat (scales_off l)) (a4 @ replicate (T - length a4) 0) srows
        = Inr ((a4 @ concat ps) @ replicate (T - length (a4 @ concat ps)) 0)"
  proof -
    have fit: "\<exists>p. pack scale_fmt r = Some p" if "r \<in> set srows" for r
      using that scale_rows_fit [OF st] by (auto simp: srows_def w_def)
    have "length a4 + length srows * calcsize scale_fmt \<le> T"
      using lf(5) lo(1-7) la4 by (simp add: fmt_sizes srows_def T_room)
    from write_rows_zero [OF fit this, of "nat (scales_off l)"] la4 that show ?thesis by (auto simp: fmt_sizes)
  qed
  define a5 where "a5 = a4 @ concat ps"
  have la5: "length a5 = nat (reqbytes_off l)" using ps(2) la4 lf(5) lo(1-4) by (simp add: a5_def srows_def)
  define a6 where "a6 = (a5 @ reqpool w) @ replicate pad 0"
  have lp: "length (a5 @ reqpool w) + pad = nat (index_off l)" "nat (index_off l) \<le> T"
    using la5 lf(1,2,3,4,5) lo by (simp_all add: pad_def T_def)
  have b6: "put_bytes (a5 @ replicate (T - length a5) 0) (nat (reqbytes_off l)) (reqpool w) = a6 @ replicate (T - length a6) 0"
  proof -
    have "put_bytes (a5 @ replicate (T - length a5) 0) (nat (reqbytes_off l)) (reqpool w)
        = (a5 @ reqpool w) @ replicate (T - length (a5 @ reqpool w)) 0"
      by (rule put_bytes_zero) (use lp la5 in simp_all)
    also have "\<dots> = a6 @ replicate (T - length a6) 0"
      unfolding a6_def by (rule zeros_split) (use lp in linarith)
    finally show ?thesis .
  qed
  have la6: "length a6 = nat (index_off l)" using lp by (simp add: a6_def)
  define irows where "irows = map (\<lambda>(hash, ref, target). [hash, ref, target]) es"
  obtain pi where pi: "packed index_fmt irows pi" "length (a6 @ concat pi) = length a6 + length irows * 12"
     "write_rows index_fmt (nat (index_off l)) (a6 @ replicate (T - length a6) 0) irows
        = Inr ((a6 @ concat pi) @ replicate (T - length (a6 @ concat pi)) 0)"
  proof -
    have fit: "\<exists>p. pack index_fmt r = Some p" if "r \<in> set irows" for r
      using index_rows_fit [OF st, of r] that by (simp add: irows_def es_def w_def)
    have "length a6 + length irows * calcsize index_fmt \<le> T"
      using lf(7) lo(1-7) la6 by (simp add: fmt_sizes irows_def T_room)
    from write_rows_zero [OF fit this, of "nat (index_off l)"] la6 that show ?thesis by (auto simp: fmt_sizes)
  qed
  define a7 where "a7 = a6 @ concat pi"
  have la7: "length a7 = nat (strings_off l)" using pi(2) la6 lf(7) lo(1-6) by (simp add: a7_def irows_def)
  have lT: "length (a7 @ pool w) = T" using la7 lf(8) lo by (simp add: T_def)
  have b8: "put_bytes (a7 @ replicate (T - length a7) 0) (nat (strings_off l)) (pool w) = a7 @ pool w"
  proof -
    have "put_bytes (a7 @ replicate (T - length a7) 0) (nat (strings_off l)) (pool w)
        = (a7 @ pool w) @ replicate (T - length (a7 @ pool w)) 0"
      by (rule put_bytes_zero) (use lT la7 in simp_all)
    then show ?thesis by (simp only: lT) simp
  qed
  define body where "body = concat pe @ concat pg @ concat pf @ concat ps @ reqpool w @ replicate pad 0 @ concat pi @ pool w"
  have a8: "a7 @ pool w = MAGIC @ hb0 @ body"
    by (simp add: a7_def a6_def a5_def a4_def a3_def a2_def a1_def body_def)
  define c where "c = crc32 (drop 56 hb0 @ body)"
  obtain hb where hb: "pack header_fmt (header_row (l\<lparr>h_crc := c\<rparr>)) = Some hb"
    using header_row_fits [OF st, of c] crc32_bounds by (auto simp: l_def c_def)
  note hp = header_patch [OF hb0 hb]
  have d64: "drop (nat HEADER_SIZE) (MAGIC @ hb0 @ body) = drop 56 hb0 @ body"
    by (simp add: HEADER_SIZE_def lh)
  have last: "struct_write [U 4] (MAGIC @ hb0 @ body) 16 [c] = Inr (MAGIC @ hb @ body)"
    using hp(1) [of body] crc32_bounds [of "drop 56 hb0 @ body"] lh
    by (simp add: struct_write_def pack_into_def c_def)
  have "check_limits cat = Inr ()" using st by (simp add: storable_def check_limits_within)
  then have "write_catalog cat = Inr (MAGIC @ hb @ body)"
    unfolding write_catalog_def Let_def w_def [symmetric] es_def [symmetric] l [symmetric] T_def [symmetric]
    by (simp only: bindE_simps b0 b1 pe(3) a2_def [symmetric] grows_def [symmetric] pg(3) a3_def [symmetric] pf(3) a4_def [symmetric]
        srows_def [symmetric] ps(3) a5_def [symmetric] b6 irows_def [symmetric] pi(3) a7_def [symmetric] b8 a8 d64 c_def [symmetric] last)
  moreover have "crc32 (drop 56 hb @ body) = c" using hp(2) by (simp add: c_def)
  ultimately show ?thesis
    using pe(1) pg(1) pf(1) ps(1) pi(1) hb
    unfolding grows_def srows_def irows_def es_def body_def pad_def
    by blast
qed

section \<open>The bytes read back\<close>

lemma mapE_upto:
  assumes "\<And>i. i < length xs \<Longrightarrow> f (int i) = Inr (xs ! i)" and "n = int (length xs)"
  shows "mapE f (upto_count n) = Inr xs"
proof -
  have "mapE f (map int [0..<length xs]) = Inr (map (\<lambda>x. xs ! nat x) (map int [0..<length xs]))"
    using assms(1) by (intro mapE_Inr_map) auto
  also have "map (\<lambda>x. xs ! nat x) (map int [0..<length xs]) = xs" by (simp add: o_def map_nth)
  finally show ?thesis by (simp add: upto_count_def assms(2))
qed

lemma packed_struct_read:
  assumes "packed fmt rows ps" and "data = a @ concat ps @ c" and "off = int (length a)" and "i < length rows"
    and "sz = int (calcsize fmt)"
  shows "struct_read fmt data (off + int i * sz) = Inr (rows ! i)"
proof -
  have "nat (off + int i * sz) = length a + i * calcsize fmt"
    by (simp add: assms(3,5) nat_add_distrib flip: of_nat_mult of_nat_add)
  with packed_read [OF assms(1,4), of "nat (off + int i * sz)" a c] assms(2) show ?thesis
    by (simp add: struct_read_def)
qed

lemma unat_of_char [simp]: "unat (of_char c :: 8 word) = of_char c"
proof -
  have "(of_char c :: 8 word) = word_of_nat (of_char c)" by (simp only: of_nat_of_char)
  moreover have "(of_char c :: nat) < 256" by (rule nat_of_char_less_256)
  ultimately show ?thesis by (simp add: unat_of_nat)
qed

lemma decode_encode: "text_ok s \<Longrightarrow> decode (encode s) = Inr s"
  by (simp add: decode_def text_ok_def encode_def o_def)

lemma encode_no_nul: "text_ok s \<Longrightarrow> 0 \<notin> set (encode s)"
proof
  assume t: "text_ok s" and "0 \<in> set (encode s)"
  then obtain c where c: "c \<in> set s" "(of_char c :: 8 word) = 0" by (auto simp: encode_def)
  then have "(of_char c :: nat) = 0" by (metis unat_of_char unsigned_0)
  moreover have "(of_char (CHR 0x00) :: nat) = 0" by simp
  ultimately have "(of_char c :: nat) = of_char (CHR 0x00)" by simp
  then have "c = CHR 0x00" by (simp only: of_char_eq_iff)
  with c t show False by (simp add: text_ok_def)
qed

lemma until_nul_stop: "0 \<notin> set bs \<Longrightarrow> until_nul (bs @ 0 # c) = Some bs"
  by (induction bs) auto

lemma read_str_pool:
  assumes inv: "walk_inv w" and kn: "known w s" and ok: "text_ok s"
    and data: "data = a @ pool w @ c" and off: "strings_off h = int (length a)" and len: "strings_len h = int (length (pool w))"
  shows "read_str h data (interned_at w s) what i = Inr s"
proof -
  note b = interned_bound [OF inv kn]
  from b(3) obtain p q where p: "pool w = p @ encode s @ 0 # q" "length p = nat (interned_at w s)"
    by (auto simp: string_at_def)
  have "nat (strings_off h + interned_at w s) = length (a @ p)"
    using b(1) p(2) by (simp add: off nat_add_distrib)
  then have "drop (nat (strings_off h + interned_at w s)) data = encode s @ 0 # (q @ c)"
    by (simp add: data p(1))
  then show ?thesis
    using b(2) until_nul_stop [OF encode_no_nul [OF ok], of "q @ c"] decode_encode [OF ok]
    by (simp add: read_str_def len)
qed

lemma header_of_row [simp]: "header_of (header_row h) = h"
  by (cases h) (simp add: header_of_def header_row_def)

lemma flags_read:
  "flag (field_flags f) 0 = f_signed f" "flag (field_flags f) 1 = byteswap f"
  "flag (field_flags f) 2 = f_ascii f" "flag (field_flags f) 3 = hexdump f"
  by (auto simp: flag_def field_flags_def)

lemma group_flags_read:
  assumes "0 \<le> security_level g" "security_level g \<le> 15"
  shows "flag (group_flags g) 1 = needs_session g" "flag (group_flags g) 2 = needs_security g"
    "group_flags g div 2 ^ 8 mod 16 = security_level g"
proof -
  define s where "s = security_level g"
  have s: "0 \<le> s" "s \<le> 15" "s mod 16 = s" using assms by (simp_all add: s_def)
  define b where "b = (if safe_read g then 1 else 0 :: int)"
  have b: "b = 0 \<or> b = 1" by (simp add: b_def)
  have f: "group_flags g = b + (if needs_session g then 2 else 0) + (if needs_security g then 4 else 0) + s * 256"
    using s(3) by (simp add: group_flags_def b_def s_def)
  have d: "(b + 2 * c + 4 * e + s * 256) div 2 = c + 2 * (e + s * 64)" "(b + 2 * c + 4 * e + s * 256) div 4 = e + s * 64"
    "(b + 2 * c + 4 * e + s * 256) div 256 = s"
    if "c = 0 \<or> c = 1" "e = 0 \<or> e = 1" for c e
    using that b by auto
  define c where "c = (if needs_session g then 1 else 0 :: int)"
  define e where "e = (if needs_security g then 1 else 0 :: int)"
  have f2: "group_flags g = b + 2 * c + 4 * e + s * 256" by (simp add: f c_def e_def)
  have ce: "c = 0 \<or> c = 1" "e = 0 \<or> e = 1" by (simp_all add: c_def e_def)
  note d = d [OF ce]
  have "flag (group_flags g) 1 = odd c" unfolding flag_def f2 power_one_right d(1) by simp
  then show "flag (group_flags g) 1 = needs_session g" by (simp add: c_def)
  have "flag (group_flags g) 2 = odd (e + s * 64)" using d(2) by (simp add: flag_def f2)
  then show "flag (group_flags g) 2 = needs_security g" by (simp add: e_def)
  have "group_flags g div 2 ^ 8 = s" using d(3) by (simp add: f2)
  then show "group_flags g div 2 ^ 8 mod 16 = security_level g" using s by (simp add: s_def)
qed

text \<open>The fields with the index of their group.\<close>

fun fpairs :: "nat \<Rightarrow> group_rec list \<Rightarrow> (field_rec \<times> int) list" where
  "fpairs gi [] = []"
| "fpairs gi (g # gs) = map (\<lambda>f. (f, int gi)) (g_fields g) @ fpairs (gi + 1) gs"

lemma group_frecs_pairs: "group_frecs w gi gs = map (\<lambda>(f, g). frec w (nat g) f) (fpairs gi gs)"
  by (induction gs arbitrary: gi) simp_all

lemma fpairs_fst: "map fst (fpairs gi gs) = groups_fields gs"
  by (induction gs arbitrary: gi) (simp_all add: o_def)

lemma fpairs_length [simp]: "length (fpairs gi gs) = length (groups_fields gs)"
  using fpairs_fst [of gi gs] by (metis length_map)

lemma fpairs_in: "(f, k) \<in> set (fpairs gi gs) \<Longrightarrow> 0 \<le> k \<and> k < int (gi + length gs) \<and> f \<in> set (groups_fields gs)"
  by (induction gs arbitrary: gi) fastforce+

lemma group_grecs_nth:
  "i < length gs \<Longrightarrow> group_grecs w fi gs ! i = grec w (fi + length (groups_fields (take i gs))) (gs ! i)"
proof (induction gs arbitrary: fi i)
  case Nil
  then show ?case by simp
next
  case (Cons g gs)
  then show ?case by (cases i) (simp_all add: add.assoc)
qed

lemma ecu_erecs_nth:
  "i < length es \<Longrightarrow> ecu_erecs w gi es ! i = erec w (gi + length (cat_groups (take i es))) (es ! i)"
proof (induction es arbitrary: gi i)
  case Nil
  then show ?case by simp
next
  case (Cons e es)
  then show ?case by (cases i) (simp_all add: add.assoc cat_groups_Cons cat_groups_def)
qed

text \<open>The run of a group's fields in the flat list, and of an ECU's groups.\<close>

lemma groups_fields_split:
  "i < length gs \<Longrightarrow> groups_fields gs = groups_fields (take i gs) @ g_fields (gs ! i) @ groups_fields (drop (Suc i) gs)"
  by (subst id_take_nth_drop [of i gs]) simp_all

lemma cat_groups_split:
  "i < length es \<Longrightarrow> cat_groups es = cat_groups (take i es) @ e_groups (es ! i) @ cat_groups (drop (Suc i) es)"
  by (subst id_take_nth_drop [of i es]) (simp_all add: cat_groups_def)

lemma fpairs_split:
  "i < length gs \<Longrightarrow> fpairs gi gs = fpairs gi (take i gs) @ map (\<lambda>f. (f, int (gi + i))) (g_fields (gs ! i))
     @ fpairs (gi + i + 1) (drop (Suc i) gs)"
proof (induction gs arbitrary: gi i)
  case Nil
  then show ?case by simp
next
  case (Cons g gs)
  then show ?case by (cases i) simp_all
qed

lemma py_slice_mid: "py_slice (a @ b @ c) (int (length a)) (int (length b)) = b"
  by (simp add: py_slice_def)

text \<open>What the tables of a file hold, record by record.\<close>

definition holds :: "catalog \<Rightarrow> header \<Rightarrow> bytes \<Rightarrow> bool" where
  "holds cat h data \<longleftrightarrow>
     (\<exists>w. w = walk_catalog cat \<and>
      ecu_count h = int (length (ecu_recs w)) \<and> group_count h = int (length (group_recs w)) \<and>
      field_count h = int (length (field_recs w)) \<and> scale_count h = int (length (scale_rows w)) \<and>
      index_count h = int (length (index_entries w)) \<and> reqbytes_len h = int (length (reqpool w)) \<and>
      (\<forall>i<length (ecu_recs w). struct_read ecu_fmt data (ecus_off h + int i * ECU_SIZE) = Inr (ecu_recs w ! i)) \<and>
      (\<forall>i<length (group_recs w). struct_read group_fmt data (groups_off h + int i * GROUP_SIZE)
          = Inr ((group_recs w ! i)[1 := reqbytes_off h + group_recs w ! i ! 1])) \<and>
      (\<forall>i<length (field_recs w). struct_read field_fmt data (fields_off h + int i * FIELD_SIZE) = Inr (field_recs w ! i)) \<and>
      (\<forall>i<length (scale_rows w). struct_read scale_fmt data (scales_off h + int i * SCALE_SIZE) = Inr (scale_row w (scale_rows w ! i))) \<and>
      (\<forall>i<length (index_entries w). struct_read index_fmt data (index_off h + int i * INDEX_ENTRY_SIZE)
          = Inr (case index_entries w ! i of (hash, ref, target) \<Rightarrow> [hash, ref, target])) \<and>
      (\<forall>s what i. known w s \<longrightarrow> text_ok s \<longrightarrow> read_str h data (interned_at w s) what i = Inr s) \<and>
      (\<forall>off n. 0 \<le> off \<longrightarrow> off + int n \<le> int (length (reqpool w)) \<longrightarrow>
          py_slice data (reqbytes_off h + off) (int n) = take n (drop (nat off) (reqpool w))))"

lemma holds_read_scales:
  assumes st: "storable cat" and h: "holds cat h data"
  shows "mapE (read_scale h data) (upto_count (scale_count h)) = Inr (scale_rows (walk_catalog cat))"
proof (rule mapE_upto)
  define w where "w = walk_catalog cat"
  fix i
  assume i: "i < length (scale_rows (walk_catalog cat))"
  define s where "s = scale_rows w ! i"
  have "s \<in> set (scale_rows w)" using i by (simp add: s_def w_def)
  then have s: "plain_scale s" "known w (s_text s)" using storable_walk(1) [OF st] by (auto simp: w_def walk_inv_def)
  have sr: "struct_read scale_fmt data (scales_off h + int i * SCALE_SIZE) = Inr (scale_row w s)"
    using h i by (simp add: holds_def w_def s_def)
  have rs: "read_str h data (interned_at w (s_text s)) what k = Inr (s_text s)" for what k
    using h s by (simp add: holds_def w_def plain_scale_def)
  have "odd ((scale_row w s ! 5) div 2) = s_invalid s" by (auto simp: scale_row_def)
  then show "read_scale h data (int i) = Inr (scale_rows (walk_catalog cat) ! i)"
    unfolding w_def [symmetric] s_def [symmetric]
    by (simp add: read_scale_def sr, simp add: scale_row_def rs)
qed (use h in \<open>simp add: holds_def\<close>)

lemma holds_read_fields:
  assumes st: "storable cat" and h: "holds cat h data"
  shows "mapE (read_field h data (scale_rows (walk_catalog cat))) (upto_count (field_count h)) = Inr (fpairs 0 (cat_groups cat))"
proof (rule mapE_upto)
  define w where "w = walk_catalog cat"
  fix i
  assume i: "i < length (fpairs 0 (cat_groups cat))"
  obtain f k where fk: "fpairs 0 (cat_groups cat) ! i = (f, k)" by (cases "fpairs 0 (cat_groups cat) ! i")
  then have inn: "(f, k) \<in> set (fpairs 0 (cat_groups cat))" using i by (metis nth_mem)
  have k: "0 \<le> k" "k < group_count h" and m: "f \<in> set (cat_fields cat)"
    using fpairs_in [OF inn] h storable_walk(10) [OF st] by (simp_all add: holds_def cat_fields_groups)
  have "field_recs w ! i = frec w (nat k) f"
    using storable_walk(6) [OF st] i fk by (simp add: group_frecs_pairs w_def)
  moreover have "i < length (field_recs w)" using i storable_walk(11) [OF st] by (simp add: cat_fields_groups w_def)
  ultimately have sr: "struct_read field_fmt data (fields_off h + int i * FIELD_SIZE) = Inr (frec w (nat k) f)"
    using h by (simp add: holds_def w_def)
  have pl: "field_plain f" using storable_parts(5) [OF st m] .
  have fs: "field_stored w f" using storable_walk(4) [OF st m] by (simp add: w_def)
  have rs: "read_str h data (interned_at w (f_name f)) what j = Inr (f_name f)"
    "read_str h data (interned_at w (f_unit f)) what j = Inr (f_unit f)" for what j
    using h pl fs by (simp_all add: holds_def w_def field_plain_def field_stored_def)
  note rb = run_bound [OF storable_walk(1) [OF st], of "f_scales f", folded w_def]
  have run: "run_at w (f_scales f) + int (length (f_scales f)) \<le> scale_count h"
    "py_slice (scale_rows w) (run_at w (f_scales f)) (int (length (f_scales f))) = f_scales f"
    using rb pl fs h by (simp_all add: field_plain_def field_stored_def holds_def w_def)
  have wi: "field_within f" using storable_parts(4) [OF st m] .
  then have geo: "(if f_ascii f \<or> hexdump f then bit_size f mod 8 = 0 \<and> 8 \<le> bit_size f \<and> bit_size f \<le> MAX_BLOCK_BITS \<and> bit_pos f mod 8 = 0
     else 1 \<le> bit_size f \<and> bit_size f \<le> MAX_NUMERIC_BITS)" and rc: "max (repeat_count f) 1 = repeat_count f"
    by (auto simp: field_within_def MAX_BLOCK_BITS_def MAX_NUMERIC_BITS_def split: if_splits)
  have "read_field h data (scale_rows w) (int i) = Inr (f, k)"
    unfolding read_field_def sr Let_def bindE_simps
    using geo run k
    by (simp add: frec_def flags_read [unfolded One_nat_def] rs rc run(2) not_less split: if_splits)
  then show "read_field h data (scale_rows (walk_catalog cat)) (int i) = Inr (fpairs 0 (cat_groups cat) ! i)"
    by (simp add: w_def fk)
qed (use h storable_walk(11) [OF st] in \<open>simp add: holds_def cat_fields_groups\<close>)

lemma holds_read_ecus:
  assumes st: "storable cat" and h: "holds cat h data"
  shows "mapE (read_ecu h data (cat_groups cat)) (upto_count (ecu_count h)) = Inr cat"
proof (rule mapE_upto)
  define w where "w = walk_catalog cat"
  fix i
  assume i: "i < length cat"
  define e where "e = cat ! i"
  have e: "e \<in> set cat" using i by (simp add: e_def)
  define a where "a = length (cat_groups (take i cat))"
  have "ecu_recs w ! i = erec w a e"
    using storable_walk(8) [OF st] i by (simp add: w_def e_def a_def ecu_erecs_nth)
  then have sr: "struct_read ecu_fmt data (ecus_off h + int i * ECU_SIZE) = Inr (erec w a e)"
    using h i storable_walk(9) [OF st] by (simp add: holds_def w_def)
  have rs: "read_str h data (interned_at w (e_name e)) what j = Inr (e_name e)" for what j
    using h storable_walk(2) [OF st e] storable_parts(7) [OF st e]
    by (simp add: holds_def w_def ecu_stored_def ecu_plain_def)
  note sp = cat_groups_split [OF i, folded e_def]
  have sl: "py_slice (cat_groups cat) (int a) (int (length (e_groups e))) = e_groups e"
    unfolding a_def by (subst sp) (rule py_slice_mid)
  have gc: "int a + int (length (e_groups e)) \<le> group_count h"
  proof -
    have "a + length (e_groups e) \<le> length (cat_groups cat)" unfolding a_def by (subst sp) simp
    then show ?thesis using h storable_walk(10) [OF st] by (simp add: holds_def)
  qed
  have "flag (ecu_flags e) 0 = extended_id e" by (simp add: flag_def ecu_flags_def)
  then have "read_ecu h data (cat_groups cat) (int i) = Inr e"
    unfolding read_ecu_def sr bindE_simps using gc by (simp add: erec_def rs sl)
  then show "read_ecu h data (cat_groups cat) (int i) = Inr (cat ! i)" by (simp add: e_def)
qed (use h storable_walk(9) [OF st] in \<open>simp add: holds_def\<close>)

lemma holds_read_raws:
  assumes st: "storable cat" and h: "holds cat h data"
  defines "w \<equiv> walk_catalog cat"
  shows "mapE (\<lambda>i. struct_read group_fmt data (groups_off h + i * GROUP_SIZE)) (upto_count (group_count h))
    = Inr (map (\<lambda>r. r[1 := reqbytes_off h + r ! 1]) (group_recs w))"
  by (rule mapE_upto) (use h in \<open>simp_all add: holds_def w_def\<close>)

lemma target_read:
  "idx < 2 ^ 28 \<Longrightarrow> target_of kind idx div 2 ^ 28 = int kind \<and> target_of kind idx mod 2 ^ 28 = int idx"
proof -
  assume i: "idx < 2 ^ 28"
  then have b: "int idx < 2 ^ 28" by (metis of_nat_less_iff of_nat_numeral of_nat_power)
  have "target_of kind idx = int idx + int kind * 2 ^ 28" using target_of_sum [OF i] by simp
  with b show ?thesis by (simp only: div_mult_self1 mod_mult_self1 div_pos_pos_trivial mod_pos_pos_trivial of_nat_0_le_iff
    zero_neq_numeral power_not_zero) simp
qed

lemma entry_of_inj:
  assumes st: "storable cat" and h: "holds cat h data"
    and b: "bears cat n (k, j)" and b': "bears cat n' (k', j')"
    and eq: "entry_of (walk_catalog cat) (n, k, j) = entry_of (walk_catalog cat) (n', k', j')"
  shows "n = n' \<and> k = k' \<and> j = j'"
proof -
  have rd: "read_str h data (interned_at (walk_catalog cat) s) [] 0 = Inr s"
    if "known (walk_catalog cat) s" "text_ok s" for s
    using h that unfolding holds_def by blast
  note r1 = rd [OF bears_stored(1,2) [OF st b]] and r2 = rd [OF bears_stored(1,2) [OF st b']]
  have "interned_at (walk_catalog cat) n = interned_at (walk_catalog cat) n'"
    using eq by (simp only: entry_of_def prod.case prod.inject)
  from trans [OF r1 [symmetric, unfolded this] r2] have n: "n = n'" by (simp only: sum.inject)
  have s: "j < 2 ^ 28" "j' < 2 ^ 28" using bears_stored(4) [OF st b] bears_stored(4) [OF st b'] by simp_all
  have "target_of k j = target_of k' j'" using eq by (simp only: entry_of_def prod.case prod.inject)
  with target_read [OF s(1), of k] target_read [OF s(2), of k'] have "int k = int k'" "int j = int j'" by metis+
  with n show ?thesis by simp
qed

lemma read_entry_holds:
  assumes st: "storable cat" and h: "holds cat h data" and i: "i < length (index_entries (walk_catalog cat))"
    and e: "index_entries (walk_catalog cat) ! i = entry_of (walk_catalog cat) (n, k, j)" and b: "bears cat n (k, j)"
    and prev: "\<not> (uint (fnv1a32 (encode n)), target_of k j) < prev"
  shows "read_entry h data (int i) prev aliases
    = Inr ((uint (fnv1a32 (encode n)), target_of k j), if k = KIND_GROUP then aliases[j := aliases ! j @ [n]] else aliases)"
proof -
  define w where "w = walk_catalog cat"
  define hash where "hash = uint (fnv1a32 (encode n))"
  define target where "target = target_of k j"
  note bs = bears_stored [OF st b]
  have sr: "struct_read index_fmt data (index_off h + int i * INDEX_ENTRY_SIZE) = Inr [hash, interned_at w n, target]"
    using h i e by (simp add: holds_def w_def entry_of_def hash_def target_def)
  have rs: "read_str h data (interned_at w n) what m = Inr n" for what m
    using h bs by (simp add: holds_def w_def)
  have t: "target div 2 ^ 28 = int k" "target mod 2 ^ 28 = int j"
    using target_read [of j k] bs(4) by (simp_all add: target_def)
  have r: "k = KIND_ECU \<Longrightarrow> int j < ecu_count h" "k = KIND_GROUP \<Longrightarrow> int j < group_count h" "k = KIND_FIELD \<Longrightarrow> int j < field_count h"
    using bs(5-7) h storable_walk(9-11) [OF st] by (simp_all add: holds_def)
  have g: "guardE (\<not> (int k = int KIND_ECU \<and> ecu_count h \<le> int j)) x = Inr ()"
    "guardE (\<not> (int k = int KIND_FIELD \<and> field_count h \<le> int j)) x = Inr ()"
    "k = KIND_GROUP \<Longrightarrow> guardE (\<not> group_count h \<le> int j) x = Inr ()" for x :: catalog_error
    using r by (auto simp: guardE_def)
  have pv: "(\<not> (hash, target) < prev) = True" using prev by (simp add: hash_def target_def)
  have hs: "(uint (fnv1a32 (encode n)) = hash) = True" by (simp add: hash_def)
  have v: "[hash, interned_at w n, target] ! 0 = hash" "[hash, interned_at w n, target] ! 1 = interned_at w n"
    "[hash, interned_at w n, target] ! 2 = target" by simp_all
  have ik: "(int k = int KIND_GROUP) = (k = KIND_GROUP)" by simp
  show ?thesis
    unfolding hash_def [symmetric] target_def [symmetric]
    unfolding read_entry_def sr Let_def bindE_simps v rs t g pv hs guardE_True ik
    by (simp add: g(3) [simplified] del: not_le)
qed

definition group_names :: "catalog \<Rightarrow> (int \<times> int \<times> int) set \<Rightarrow> nat \<Rightarrow> string set" where
  "group_names cat es j = {n. bears cat n (KIND_GROUP, j) \<and> entry_of (walk_catalog cat) (n, KIND_GROUP, j) \<in> es}"

lemma read_index_holds:
  assumes st: "storable cat" and h: "holds cat h data"
  shows "drop i (index_entries (walk_catalog cat)) = rest \<Longrightarrow> i + length rest = length (index_entries (walk_catalog cat)) \<Longrightarrow>
     (\<forall>(hash, ref, target)\<in>set rest. \<not> (hash, target) < prev) \<Longrightarrow> sorted (map (\<lambda>(hash, ref, target). (hash, target, ref)) rest) \<Longrightarrow>
     length aliases = length (cat_groups cat) \<Longrightarrow>
     \<exists>al. read_index h data (int i) (length rest) prev aliases = Inr al \<and> length al = length aliases \<and>
       (\<forall>j<length aliases. set (al ! j) = set (aliases ! j) \<union> group_names cat (set rest) j)"
proof (induction rest arbitrary: i prev aliases)
  case Nil
  then show ?case by (simp add: group_names_def)
next
  case (Cons e rest)
  define w where "w = walk_catalog cat"
  have i: "i < length (index_entries w)" using Cons.prems(2) by (simp add: w_def)
  have ei: "index_entries w ! i = e" using Cons.prems(1) i by (metis nth_via_drop w_def)
  have "e \<in> set (index_entries w)" using i ei nth_mem by blast
  then obtain n k j where e: "e = entry_of w (n, k, j)" and b: "bears cat n (k, j)"
    using storable_walk(5) [OF st] by (auto simp: index_entries_set w_def adds_bears)
  define hash where "hash = uint (fnv1a32 (encode n))"
  define target where "target = target_of k j"
  have e': "e = (hash, interned_at w n, target)" by (simp add: e entry_of_def hash_def target_def)
  define aliases' where "aliases' = (if k = KIND_GROUP then aliases[j := aliases ! j @ [n]] else aliases)"
  have re: "read_entry h data (int i) prev aliases = Inr ((hash, target), aliases')"
    using read_entry_holds [OF st h, of i n k j prev aliases] i ei e b Cons.prems(3)
    by (simp add: w_def hash_def target_def aliases'_def entry_of_def)
  have d: "drop (Suc i) (index_entries (walk_catalog cat)) = rest"
    using Cons.prems(1) by (metis drop_Suc list.sel(3) tl_drop)
  have srt: "sorted (map (\<lambda>(hash, ref, target). (hash, target, ref)) rest)" using Cons.prems(4) by simp
  have nx: "\<forall>(hash', ref, target')\<in>set rest. \<not> (hash', target') < (hash, target)"
    using Cons.prems(4) by (auto simp: e' less_prod_def less_eq_prod_def)
  have "Suc i + length rest = length (index_entries (walk_catalog cat))" using Cons.prems(2) by simp
  moreover have "length aliases' = length (cat_groups cat)" using Cons.prems(5) by (simp add: aliases'_def)
  ultimately obtain al where
    al: "read_index h data (int (Suc i)) (length rest) (hash, target) aliases' = Inr al" "length al = length aliases'"
      "\<forall>j<length aliases'. set (al ! j) = set (aliases' ! j) \<union> group_names cat (set rest) j"
    using Cons.IH [OF d _ nx srt, of aliases'] by blast
  have la: "length aliases' = length aliases" by (simp add: aliases'_def)
  have one: "group_names cat {e} m = (if k = KIND_GROUP \<and> j = m then {n} else {})" for m
  proof (rule set_eqI)
    fix x
    show "x \<in> group_names cat {e} m \<longleftrightarrow> x \<in> (if k = KIND_GROUP \<and> j = m then {n} else {})"
      using entry_of_inj [OF st h _ b, of x KIND_GROUP m] b by (auto simp: group_names_def e w_def)
  qed
  have un: "group_names cat (set (e # rest)) m = group_names cat {e} m \<union> group_names cat (set rest) m" for m
    by (auto simp: group_names_def)
  have "set (al ! m) = set (aliases ! m) \<union> group_names cat (set (e # rest)) m" if m: "m < length aliases" for m
  proof -
    have "set (aliases' ! m) = set (aliases ! m) \<union> group_names cat {e} m"
      using m by (auto simp: one aliases'_def nth_list_update)
    then show ?thesis using al(3) m la un by (simp add: Un_assoc)
  qed
  moreover have "read_index h data (int i) (length (e # rest)) prev aliases = Inr al"
    using re al(1) by (simp add: add.commute)
  ultimately show ?case using al(2) la by auto
qed

lemma holds_aliases:
  assumes st: "storable cat" and h: "holds cat h data"
  shows "\<exists>al. read_index h data 0 (nat (index_count h)) (-1, -1) (replicate (nat (group_count h)) []) = Inr al \<and>
    (\<forall>j<length (cat_groups cat). norm_aliases (g_name (cat_groups cat ! j)) (al ! j) = g_aliases (cat_groups cat ! j))"
proof -
  define w where "w = walk_catalog cat"
  define es where "es = index_entries w"
  have s: "sorted (map (\<lambda>(hash, ref, target). (hash, target, ref)) es)"
    by (simp add: es_def index_entries_def)
  have p: "\<forall>(hash, ref, target)\<in>set es. \<not> (hash, target) < (-1, -1)"
  proof -
    have "\<not> (uint (fnv1a32 (encode n)), t) < (-1, -1)" for n and t :: int
    proof
      assume "(uint (fnv1a32 (encode n)), t) < (-1, -1)"
      then have "uint (fnv1a32 (encode n)) \<le> -1" by (auto simp only: less_prod_def fst_conv snd_conv less_le)
      moreover have "0 \<le> uint (fnv1a32 (encode n))" by simp
      ultimately show False by linarith
    qed
    then show ?thesis by (auto simp: es_def index_entries_set entry_of_def)
  qed
  have c: "nat (index_count h) = length es" "nat (group_count h) = length (cat_groups cat)"
    using h storable_walk(10) [OF st] by (simp_all add: holds_def es_def w_def)
  from read_index_holds [OF st h, of 0 es "(-1, -1)" "replicate (length (cat_groups cat)) []"] s p
  obtain al where al: "read_index h data 0 (length es) (-1, -1) (replicate (length (cat_groups cat)) []) = Inr al"
      "\<forall>j<length (cat_groups cat). set (al ! j) = group_names cat (set es) j"
    by (auto simp: es_def w_def)
  have "norm_aliases (g_name (cat_groups cat ! j)) (al ! j) = g_aliases (cat_groups cat ! j)" if j: "j < length (cat_groups cat)" for j
  proof -
    define g where "g = cat_groups cat ! j"
    have "group_names cat (set es) j = {n. bears cat n (KIND_GROUP, j)}"
      using storable_walk(5) [OF st] by (auto simp: group_names_def es_def w_def index_entries_set adds_bears)
    also have "\<dots> = insert (g_name g) (set (g_aliases g))"
      using j by (auto simp: bears_def g_def kinds_distinct)
    finally have "set (al ! j) = insert (g_name g) (set (g_aliases g))" using al(2) j by simp
    then have "norm_aliases (g_name g) (al ! j) = norm_aliases (g_name g) (g_aliases g)"
      by (auto simp: norm_aliases_def sorted_list_of_set_sort_remdups [symmetric] intro!: arg_cong [of _ _ sorted_list_of_set])
    also have "\<dots> = g_aliases g"
      using storable_parts(3) [OF st, of g] j by (simp add: g_def group_normal_def)
    finally show ?thesis by (simp add: g_def)
  qed
  with al(1) c show ?thesis by auto
qed

lemma holds_read_groups:
  assumes st: "storable cat" and h: "holds cat h data"
    and al: "\<forall>j<length (cat_groups cat). norm_aliases (g_name (cat_groups cat ! j)) (al ! j) = g_aliases (cat_groups cat ! j)"
  defines "w \<equiv> walk_catalog cat"
  shows "mapE (read_group h data (map fst (fpairs 0 (cat_groups cat))) (map snd (fpairs 0 (cat_groups cat))) al)
      (zip (upto_count (group_count h)) (map (\<lambda>r. r[1 := reqbytes_off h + r ! 1]) (group_recs w))) = Inr (cat_groups cat)"
proof -
  define gs where "gs = cat_groups cat"
  define rows where "rows = map (\<lambda>r. r[1 := reqbytes_off h + r ! 1]) (group_recs w)"
  define rd where "rd = read_group h data (map fst (fpairs 0 gs)) (map snd (fpairs 0 gs)) al"
  have gc: "group_count h = int (length gs)" "field_count h = int (length (groups_fields gs))"
    using h storable_walk(10,11) [OF st] by (simp_all add: holds_def gs_def cat_fields_groups)
  have lr: "length rows = length gs" using storable_walk(10) [OF st] by (simp add: rows_def gs_def w_def)
  have one: "rd (int i, rows ! i) = Inr (gs ! i)" if i: "i < length gs" for i
  proof -
    define g where "g = gs ! i"
    define a where "a = length (groups_fields (take i gs))"
    have m: "g \<in> set (cat_groups cat)" using i by (simp add: g_def gs_def)
    have row: "rows ! i = (grec w a g)[1 := reqbytes_off h + req_at w (g_request g)]"
      using i lr storable_walk(7) [OF st]
      by (simp add: rows_def w_def gs_def g_def a_def group_grecs_nth) (simp add: grec_def)
    have stored: "group_stored w g" using storable_walk(3) [OF st m] by (simp add: w_def)
    have wi: "group_within g" using storable_parts(1) [OF st m] .
    note rb = req_bound [OF storable_walk(1) [OF st], of "g_request g", folded w_def]
    have rq: "map_of (req_offs w) (g_request g) \<noteq> None" using stored by (simp add: group_stored_def)
    have rlen: "reqbytes_len h = int (length (reqpool w))" using h by (simp add: holds_def w_def)
    have req: "py_slice data (reqbytes_off h + req_at w (g_request g)) (int (length (g_request g))) = g_request g"
      using h rb [OF rq] by (simp add: holds_def w_def)
    have rpos: "0 \<le> req_at w (g_request g)" "req_at w (g_request g) + int (length (g_request g)) \<le> reqbytes_len h"
      using rb(1,2) [OF rq] rlen by simp_all
    have ne: "g_request g \<noteq> []" "1 \<le> length (g_request g)" using wi by (auto simp: group_within_def Suc_le_eq)
    have b0: "byte_at (g_request g) 0 = Inr (sid g)" using ne by (simp add: byte_at_def py_nth_def sid_def hd_conv_nth)
    have rs: "read_str h data (interned_at w (g_name g)) what j = Inr (g_name g)" for what j
      using h stored storable_parts(2) [OF st m] by (simp add: holds_def w_def group_stored_def group_plain_def)
    note fsp = groups_fields_split [OF i, folded g_def]
    have fits: "int a + int (length (g_fields g)) \<le> field_count h"
    proof -
      have "a + length (g_fields g) \<le> length (groups_fields gs)" unfolding a_def by (subst fsp) simp
      then show ?thesis by (simp add: gc)
    qed
    have sl: "py_slice (map fst (fpairs 0 gs)) (int a) (int (length (g_fields g))) = g_fields g"
      unfolding fpairs_fst a_def by (subst fsp) (rule py_slice_mid)
    have own: "map snd (fpairs 0 gs) ! (a + k) = int i" if "k < length (g_fields g)" for k
    proof -
      have "length (fpairs 0 (take i gs)) = a" by (simp add: a_def)
      then show ?thesis using that by (subst fpairs_split [OF i]) (simp add: nth_append g_def)
    qed
    have disagree: "filter (\<lambda>k. map snd (fpairs 0 gs) ! nat k \<noteq> int i) (map (\<lambda>k. int a + int k) [0..<length (g_fields g)]) = []"
      using own by (auto simp: filter_empty_conv nat_add_distrib)
    have gf: "flag (group_flags g) 1 = needs_session g" "flag (group_flags g) 2 = needs_security g"
      "group_flags g div 2 ^ 8 mod 16 = security_level g"
      using group_flags_read [of g] wi by (simp_all add: group_within_def)
    have mk: "mk_group (g_name g) (g_request g) (g_fields g) (al ! i) (needs_session g) (needs_security g) (security_level g) = g"
      using al i by (simp add: mk_group_def g_def gs_def)
    define v where "v = (grec w a g)[1 := reqbytes_off h + req_at w (g_request g)]"
    have v: "v ! 0 = interned_at w (g_name g)" "v ! 1 = reqbytes_off h + req_at w (g_request g)"
      "v ! 2 = int (length (g_request g))" "v ! 3 = uint (sid g)" "v ! 4 = group_flags g" "v ! 5 = int a"
      "v ! 6 = int (length (g_fields g))"
      by (simp_all add: v_def grec_def)
    have guards: "(\<not> int a + int (length (g_fields g)) > field_count h) = True"
      "(reqbytes_off h \<le> reqbytes_off h + req_at w (g_request g) \<and>
        reqbytes_off h + req_at w (g_request g) + int (length (g_request g)) \<le> reqbytes_off h + reqbytes_len h) = True"
      "(\<not> int (length (g_request g)) < 1) = True" "(uint (sid g) = uint (sid g)) = True"
      using fits rpos ne by auto
    have "rd (int i, v) = Inr g"
      unfolding rd_def read_group_def prod.case Let_def v guards guardE_True bindE_simps req b0 rs sl gf nat_int mk disagree list.case ..
    then show ?thesis by (simp only: row v_def g_def [symmetric])
  qed
  have "mapE rd (zip (upto_count (group_count h)) rows) = Inr (map (\<lambda>p. gs ! nat (fst p)) (zip (upto_count (group_count h)) rows))"
  proof (rule mapE_Inr_map)
    fix p
    assume "p \<in> set (zip (upto_count (group_count h)) rows)"
    then obtain i where "i < length gs" "p = (int i, rows ! i)"
      by (auto simp: in_set_zip upto_count_def gc lr)
    with one show "rd p = Inr (gs ! nat (fst p))" by simp
  qed
  also have "map (\<lambda>p. gs ! nat (fst p)) (zip (upto_count (group_count h)) rows) = gs"
    using lr by (intro nth_equalityI) (auto simp: upto_count_def gc)
  finally show ?thesis by (simp add: rd_def rows_def gs_def)
qed

lemma holds_read:
  assumes st: "storable cat" and h: "holds cat h data" and hd: "read_header data = Inr h"
  shows "read_catalog data = Inr cat"
proof -
  from holds_aliases [OF st h] obtain al where
    al: "read_index h data 0 (nat (index_count h)) (-1, -1) (replicate (nat (group_count h)) []) = Inr al"
      "\<forall>j<length (cat_groups cat). norm_aliases (g_name (cat_groups cat ! j)) (al ! j) = g_aliases (cat_groups cat ! j)"
    by blast
  show ?thesis
    unfolding read_catalog_def hd bindE_simps holds_read_scales [OF st h] holds_read_fields [OF st h] al(1)
      holds_read_raws [OF st h] holds_read_groups [OF st h al(2)] holds_read_ecus [OF st h] ..
qed

section \<open>The file written holds the catalog\<close>

lemma written_holds:
  assumes st: "storable cat"
  shows "\<exists>b. write_catalog cat = Inr b \<and> (\<forall>rest. read_catalog (b @ rest) = Inr cat)"
proof -
  define w where "w = walk_catalog cat"
  define l where "l = file_layout cat"
  obtain hb pe pg pf ps pi body where
    pk: "packed ecu_fmt (ecu_recs w) pe" "packed group_fmt (map (\<lambda>r. r[1 := reqbytes_off l + r ! 1]) (group_recs w)) pg"
      "packed field_fmt (field_recs w) pf" "packed scale_fmt (map (scale_row w) (scale_rows w)) ps"
      "packed index_fmt (map (\<lambda>(hash, ref, target). [hash, ref, target]) (index_entries w)) pi"
    and body: "body = concat pe @ concat pg @ concat pf @ concat ps @ reqpool w
      @ replicate (nat (index_off l - reqbytes_off l) - length (reqpool w)) 0 @ concat pi @ pool w"
    and hb: "pack header_fmt (header_row (l\<lparr>h_crc := crc32 (drop 56 hb @ body)\<rparr>)) = Some hb"
    and wr: "write_catalog cat = Inr (MAGIC @ hb @ body)"
    using write_shape [OF st] unfolding w_def l_def by blast
  define h where "h = l\<lparr>h_crc := crc32 (drop 56 hb @ body)\<rparr>"
  define es where "es = index_entries w"
  have l: "l = layout w es" by (simp add: l_def w_def es_def)
  note lf = layout_facts [where w = w and es = es, folded l]
  note lo = layout_order [where w = w and es = es, folded l]
  have lhb: "length hb = 72" using pack_length [OF hb] by (simp add: fmt_sizes)
  define pad where "pad = replicate (nat (index_off l - reqbytes_off l) - length (reqpool w)) (0 :: 8 word)"
  note len = packed_length(3) [OF pk(1)] packed_length(3) [OF pk(2)] packed_length(3) [OF pk(3)] packed_length(3) [OF pk(4)] packed_length(3) [OF pk(5)]
  note len = len [unfolded fmt_sizes length_map]
  have lpad: "int (length (reqpool w) + length pad) = index_off l - reqbytes_off l" using lo by (simp add: pad_def)
  have invw: "walk_inv w" using storable_walk(1) [OF st] by (simp add: w_def)
  have "read_catalog ((MAGIC @ hb @ body) @ rest) = Inr cat" for rest
  proof -
    define data where "data = (MAGIC @ hb @ body) @ rest"
    define a1 where "a1 = MAGIC @ hb"
    define a2 where "a2 = a1 @ concat pe"
    define a3 where "a3 = a2 @ concat pg"
    define a4 where "a4 = a3 @ concat pf"
    define a5 where "a5 = a4 @ concat ps"
    define a6 where "a6 = a5 @ reqpool w @ pad"
    define a7 where "a7 = a6 @ concat pi"
    have la: "int (length a1) = ecus_off l" "int (length a2) = groups_off l" "int (length a3) = fields_off l"
      "int (length a4) = scales_off l" "int (length a5) = reqbytes_off l" "int (length a6) = index_off l" "int (length a7) = strings_off l"
      using lf(1-5,7) len lpad lhb by (simp_all add: a1_def a2_def a3_def a4_def a5_def a6_def a7_def es_def)
    have d: "data = a1 @ concat pe @ concat pg @ concat pf @ concat ps @ reqpool w @ pad @ concat pi @ pool w @ rest"
      "data = a2 @ concat pg @ concat pf @ concat ps @ reqpool w @ pad @ concat pi @ pool w @ rest"
      "data = a3 @ concat pf @ concat ps @ reqpool w @ pad @ concat pi @ pool w @ rest"
      "data = a4 @ concat ps @ reqpool w @ pad @ concat pi @ pool w @ rest"
      "data = a5 @ reqpool w @ pad @ concat pi @ pool w @ rest"
      "data = a6 @ concat pi @ pool w @ rest" "data = a7 @ pool w @ rest"
      by (simp_all add: data_def body a1_def a2_def a3_def a4_def a5_def a6_def a7_def pad_def)
    have hh: "ecus_off h = ecus_off l" "groups_off h = groups_off l" "fields_off h = fields_off l" "scales_off h = scales_off l"
      "reqbytes_off h = reqbytes_off l" "index_off h = index_off l" "strings_off h = strings_off l" "strings_len h = strings_len l"
      "ecu_count h = ecu_count l" "group_count h = group_count l" "field_count h = field_count l" "scale_count h = scale_count l"
      "index_count h = index_count l" "reqbytes_len h = reqbytes_len l" "total_size h = total_size l" "h_version h = h_version l"
      by (simp_all add: h_def)
    have holds: "holds cat h data"
      unfolding holds_def
    proof (intro exI [of _ w] conjI allI impI)
      show "w = walk_catalog cat" by (simp add: w_def)
      show "ecu_count h = int (length (ecu_recs w))" "group_count h = int (length (group_recs w))"
        "field_count h = int (length (field_recs w))" "scale_count h = int (length (scale_rows w))"
        "index_count h = int (length (index_entries w))" "reqbytes_len h = int (length (reqpool w))"
        by (simp_all only: hh(9-14) lf(9) lf(11-15) es_def)
      show "struct_read ecu_fmt data (ecus_off h + int i * ECU_SIZE) = Inr (ecu_recs w ! i)" if "i < length (ecu_recs w)" for i
        by (rule packed_struct_read [OF pk(1) d(1)]) (use that la(1) hh(1) in \<open>simp_all add: fmt_sizes ECU_SIZE_def\<close>)
      show "struct_read group_fmt data (groups_off h + int i * GROUP_SIZE) = Inr ((group_recs w ! i)[1 := reqbytes_off h + group_recs w ! i ! 1])"
        if "i < length (group_recs w)" for i
        using packed_struct_read [OF pk(2) d(2), of "groups_off h" i GROUP_SIZE] that la(2) hh(2,5) by (simp add: fmt_sizes GROUP_SIZE_def)
      show "struct_read field_fmt data (fields_off h + int i * FIELD_SIZE) = Inr (field_recs w ! i)" if "i < length (field_recs w)" for i
        by (rule packed_struct_read [OF pk(3) d(3)]) (use that la(3) hh(3) in \<open>simp_all add: fmt_sizes FIELD_SIZE_def\<close>)
      show "struct_read scale_fmt data (scales_off h + int i * SCALE_SIZE) = Inr (scale_row w (scale_rows w ! i))"
        if "i < length (scale_rows w)" for i
        using packed_struct_read [OF pk(4) d(4), of "scales_off h" i SCALE_SIZE] that la(4) hh(4) by (simp add: fmt_sizes SCALE_SIZE_def)
      show "struct_read index_fmt data (index_off h + int i * INDEX_ENTRY_SIZE)
          = Inr (case index_entries w ! i of (hash, ref, target) \<Rightarrow> [hash, ref, target])" if "i < length (index_entries w)" for i
        using packed_struct_read [OF pk(5) d(6), of "index_off h" i INDEX_ENTRY_SIZE] that la(6) hh(6) by (simp add: fmt_sizes INDEX_ENTRY_SIZE_def)
      show "read_str h data (interned_at w s) what i = Inr s" if "known w s" "text_ok s" for s what i
        by (rule read_str_pool [OF invw that d(7)]) (use la(7) hh(7,8) lf(10) in simp_all)
      show "py_slice data (reqbytes_off h + off) (int n) = take n (drop (nat off) (reqpool w))"
        if "0 \<le> off" "off + int n \<le> int (length (reqpool w))" for off n
      proof -
        have "nat (reqbytes_off h + off) = length a5 + nat off" using that hh(5) by (simp add: nat_add_distrib flip: la(5))
        moreover have "n \<le> length (reqpool w) - nat off" using that by linarith
        ultimately show ?thesis using that by (simp add: py_slice_def d(5))
      qed
    qed
    have "read_header data = Inr h"
    proof -
      have dl: "int (length data) = total_size l + int (length rest)" using la(7) lf(8) by (simp add: d(7))
      have sr: "struct_read header_fmt data 8 = Inr (header_row h)"
        using packed_struct_read [of header_fmt "[header_row h]" "[hb]" data MAGIC "body @ rest" 8 0 72] hb
        by (simp add: packed_def h_def data_def fmt_sizes)
      have tb: "check_table h nm off n sz = Inr ()" if "off mod 4 = 0" "80 \<le> off" "off + n * sz \<le> total_size h" for nm off n sz
        using that by (simp add: check_table_def FIRST_TABLE_def)
      have align: "(x + y + (- (x + y)) mod 4) mod 4 = 0" for x y :: int
        by (metis add.right_inverse mod_0 mod_add_right_eq)
      have tabs: "check_table h ''ecu'' (ecus_off h) (ecu_count h) ECU_SIZE = Inr ()"
        "check_table h ''group'' (groups_off h) (group_count h) GROUP_SIZE = Inr ()"
        "check_table h ''field'' (fields_off h) (field_count h) FIELD_SIZE = Inr ()"
        "check_table h ''scale'' (scales_off h) (scale_count h) SCALE_SIZE = Inr ()"
        "check_table h ''index'' (index_off h) (index_count h) INDEX_ENTRY_SIZE = Inr ()"
      proof -
        have m4: "groups_off l mod 4 = 0" "fields_off l mod 4 = 0" "scales_off l mod 4 = 0" using lf(2-4) by presburger+
        have i4: "index_off l mod 4 = 0" unfolding lf(6) by (rule align)
        show "check_table h ''ecu'' (ecus_off h) (ecu_count h) ECU_SIZE = Inr ()"
          by (rule tb) (use hh lf(1,2,11) lo in \<open>simp_all add: ECU_SIZE_def\<close>)
        show "check_table h ''group'' (groups_off h) (group_count h) GROUP_SIZE = Inr ()"
          by (rule tb) (use hh lf(3,12) lo m4 in \<open>simp_all add: GROUP_SIZE_def\<close>)
        show "check_table h ''field'' (fields_off h) (field_count h) FIELD_SIZE = Inr ()"
          by (rule tb) (use hh lf(4,13) lo m4 in \<open>simp_all add: FIELD_SIZE_def\<close>)
        show "check_table h ''scale'' (scales_off h) (scale_count h) SCALE_SIZE = Inr ()"
          by (rule tb) (use hh lf(5,14) lo m4 in \<open>simp_all add: SCALE_SIZE_def\<close>)
        show "check_table h ''index'' (index_off h) (index_count h) INDEX_ENTRY_SIZE = Inr ()"
          by (rule tb) (use hh lf(7,15) lo i4 in \<open>simp_all add: INDEX_ENTRY_SIZE_def\<close>)
      qed
      have pools: "check_pool h ''request-byte'' (reqbytes_off h) (reqbytes_len h) = Inr ()"
        "check_pool h ''string'' (strings_off h) (strings_len h) = Inr ()"
        using hh lf(8,9,10) lo by (simp_all add: check_pool_def FIRST_TABLE_def)
      have pw: "pool w \<noteq> []" "hd (pool w) = 0" "last (pool w) = 0" using invw by (simp_all add: walk_inv_def)
      have s0: "byte_at data (strings_off h) = Inr 0"
      proof -
        have "data ! length a7 = 0" using pw by (simp add: d(7) nth_append hd_conv_nth)
        moreover have "length a7 < length data" using pw by (simp add: d(7))
        moreover have "strings_off h = int (length a7)" using la(7) hh by simp
        ultimately show ?thesis using byte_at_in [of "strings_off h" data] by simp
      qed
      have s1: "byte_at data (strings_off h + strings_len h - 1) = Inr 0"
      proof -
        have lp: "0 < length (pool w)" using pw by simp
        then have e: "strings_off h + strings_len h - 1 = int (length a7 + (length (pool w) - 1))"
          using la(7) hh lf(10) by (simp add: of_nat_diff Suc_le_eq)
        have "data ! (length a7 + (length (pool w) - 1)) = last (pool w)" using pw by (simp add: d(7) nth_append last_conv_nth)
        moreover have "length a7 + (length (pool w) - 1) < length data" using lp unfolding d(7) length_append by linarith
        ultimately show ?thesis unfolding e using pw byte_at_in [of "int (length a7 + (length (pool w) - 1))" data]
          by (simp only: nat_int of_nat_less_iff of_nat_0_le_iff simp_thms)
      qed
      have tot: "take (nat (total_size h)) data = MAGIC @ hb @ body"
      proof -
        have "nat (total_size l) = length (MAGIC @ hb @ body)" using dl by (simp add: data_def)
        then show ?thesis by (simp add: hh data_def)
      qed
      have crc: "crc32 (drop (nat HEADER_SIZE) (take (nat (total_size h)) data)) = h_crc h"
        unfolding tot by (simp add: HEADER_SIZE_def h_def lhb)
      have g: "(\<not> int (length data) < FIRST_TABLE) = True" "(take 8 data = MAGIC) = True" "(h_version h = FORMAT_VERSION) = True"
        "(FIRST_TABLE \<le> total_size h \<and> total_size h \<le> int (length data)) = True" "(\<not> strings_len h < 1) = True" "((0 :: 8 word) = 0) = True"
        using dl lo hh lf(10,16) pw by (auto simp: FIRST_TABLE_def FORMAT_VERSION_def data_def Suc_le_eq)
      show ?thesis
        unfolding read_header_def g guardE_True bindE_simps sr Let_def header_of_row tabs pools s0 s1 crc
        by simp
    qed
    from holds_read [OF st holds this] show ?thesis by (simp add: data_def)
  qed
  with wr show ?thesis by blast
qed

text \<open>A small catalog: one ECU, one group with two aliases, one scaled field.\<close>

definition demo_catalog :: catalog where
  "demo_catalog = [\<lparr>e_name = ''ECU'', request_id = 0x7E0, response_id = 0x7E8, extended_id = False, block_size = 8,
     st_min_raw = 0, p2_ms = 50, p2_ext_ms = 5000, e_groups =
      [mk_group ''G'' [0x22, 0xF1, 0x90]
        [\<lparr>f_name = ''F'', bit_pos = 24, bit_size = 16, f_unit = ''V'', f_signed = True, byteswap = False, f_ascii = False,
          hexdump = False, f_scales = [\<lparr>s_low = -5, s_high = 255, s_factor = 0x3F000000, s_offset = 0, s_text = ''n'', s_invalid = True\<rparr>],
          repeat_count = 1, repeat_stride = 0\<rparr>] [''X'', ''A''] True False 3]\<rparr>]"

lemma demo_aliases: "norm_aliases ''G'' [''X'', ''A''] = [''A'', ''X'']"
  by code_simp

lemma demo_storable: "storable demo_catalog"
  unfolding storable_def
proof (intro conjI)
  show "within_limits demo_catalog"
    by (simp add: within_limits_def demo_catalog_def mk_group_def cat_groups_def cat_fields_def n_scales_def
        group_within_def field_within_def bit_end_def)
  show "\<forall>e\<in>set demo_catalog. ecu_plain e \<and> ecu_fits e"
    by (simp add: demo_catalog_def mk_group_def demo_aliases ecu_plain_def ecu_fits_def group_plain_def field_plain_def
        plain_run_def plain_scale_def text_ok_def encode_def utf8_valid.simps(2))
  show "\<forall>g\<in>set (cat_groups demo_catalog). group_normal g" by code_simp
  show "file_size demo_catalog < 2 ^ 32" by code_simp
qed

text \<open>
  C4: what is written is read back, \<open>read(write(cat)) == cat\<close>.  Every storable catalog is written,
  and the reader returns exactly that catalog from the bytes, aliases, shared scale runs and
  transport parameters included, whatever follows them in the flash.
\<close>

theorem catalog_roundtrip:
  assumes "storable cat"
  shows "\<exists>b. write_catalog cat = Inr b \<and> (\<forall>rest. read_catalog (b @ rest) = Inr cat)"
  using assms by (rule written_holds)

theorem catalog_roundtrip_witness:
  "\<exists>b. write_catalog demo_catalog = Inr b \<and> (\<forall>rest. read_catalog (b @ rest) = Inr demo_catalog)"
  by (rule catalog_roundtrip) (rule demo_storable)

end
