(* ===== verification/UdsEcu.thy ===== *)
theory UdsEcu
  imports CatalogFile
begin

text \<open>
  The configuration half of \<open>script/sdlog_uds.py\<close>: \<open>parse_spec\<close> on one \<open>[[device.uds]]\<close> entry,
  the fault texts and \<open>UdsEcu\<close>, which loads the catalog, picks the ECU, builds the lookup from a
  positive answer's prefix to its group and names every field.

  The file system is an argument \<open>fs\<close> (a path's bytes, \<open>None\<close> where there is no regular file),
  and so is \<open>toml\<close>, what \<open>tomllib.loads\<close> makes of a text (\<open>None\<close> is \<open>TOMLDecodeError\<close>).  The
  wording of the messages is shortened.
\<close>

datatype toml = TStr string | TInt int | TBool bool | TFloat pyfloat | TArray "toml list" | TTable "(string \<times> toml) list"

datatype uds_error = UdsConfigError string | OSError | Uncaught catalog_error

section \<open>Text\<close>

text \<open>The ASCII characters \<open>str.strip\<close> removes and \<open>str.upper\<close> changes.\<close>

definition is_space :: "char \<Rightarrow> bool" where
  "is_space c \<longleftrightarrow> (of_char c :: nat) \<in> {9, 10, 11, 12, 13, 28, 29, 30, 31, 32}"

definition strip :: "string \<Rightarrow> string" where
  "strip s = rev (dropWhile is_space (rev (dropWhile is_space s)))"

definition upper_char :: "char \<Rightarrow> char" where
  "upper_char c = (if 97 \<le> (of_char c :: nat) \<and> (of_char c :: nat) \<le> 122 then char_of ((of_char c :: nat) - 32) else c)"

definition hex2 :: "nat \<Rightarrow> string" where
  "hex2 n = zfill 2 (show_hex n)"

definition byte_hex :: "8 word \<Rightarrow> string" where
  "byte_hex b = hex2 (unat b)"

section \<open>The entry\<close>

record uds_spec =
  sp_label :: string
  sp_dcat :: string
  sp_ecu :: "string option"
  sp_names :: "string option"
  sp_dtc :: "string option"

definition KEYS :: "string set" where
  "KEYS = {''label'', ''dcat'', ''ecu'', ''names'', ''dtc''}"

definition path_of :: "(string \<Rightarrow> bytes option) \<Rightarrow> (string \<times> toml) list \<Rightarrow> string \<Rightarrow> uds_error + string option" where
  "path_of fs entry key =
     (case map_of entry key of
        None \<Rightarrow> Inr None
      | Some (TStr p) \<Rightarrow> (if fs p = None then Inl (UdsConfigError (key @ '' file not found'')) else Inr (Some p))
      | Some _ \<Rightarrow> Inl (UdsConfigError (key @ '' file not found'')))"

definition parse_spec :: "(string \<Rightarrow> bytes option) \<Rightarrow> toml \<Rightarrow> uds_error + uds_spec" where
  "parse_spec fs v =
     (case v of
        TTable entry \<Rightarrow>
          bindE (guardE (set (map fst entry) \<subseteq> KEYS) (UdsConfigError ''unknown key(s)'')) (\<lambda>_.
          bindE (case map_of entry ''label'' of
                   Some (TStr l) \<Rightarrow> (if l = [] then Inl (UdsConfigError ''label is required'') else Inr l)
                 | _ \<Rightarrow> Inl (UdsConfigError ''label is required'')) (\<lambda>label.
          bindE (case map_of entry ''dcat'' of
                   Some (TStr p) \<Rightarrow> Inr p | _ \<Rightarrow> Inl (UdsConfigError ''dcat is required'')) (\<lambda>dcat.
          bindE (path_of fs entry ''dcat'') (\<lambda>_.
          bindE (path_of fs entry ''names'') (\<lambda>names.
          bindE (path_of fs entry ''dtc'') (\<lambda>dtc.
          bindE (case map_of entry ''ecu'' of
                   None \<Rightarrow> Inr None
                 | Some (TStr e) \<Rightarrow> (if e = [] then Inl (UdsConfigError ''ecu must be a name'') else Inr (Some e))
                 | _ \<Rightarrow> Inl (UdsConfigError ''ecu must be a name'')) (\<lambda>ecu.
          Inr \<lparr>sp_label = label, sp_dcat = dcat, sp_ecu = ecu, sp_names = names, sp_dtc = dtc\<rparr>)))))))
      | _ \<Rightarrow> Inl (UdsConfigError ''uds must be [[device.uds]] tables''))"

text \<open>\<open>UdsSpec.hash_parts\<close>: what the catalog hash covers for the entry.\<close>

definition hash_parts :: "(string \<Rightarrow> bytes option) \<Rightarrow> uds_spec \<Rightarrow> uds_error + bytes list" where
  "hash_parts fs sp =
     (let read_opt = (\<lambda>p. case p of None \<Rightarrow> Inr [] | Some p \<Rightarrow> (case fs p of None \<Rightarrow> Inl OSError | Some b \<Rightarrow> Inr b)) in
      bindE (read_opt (Some (sp_dcat sp))) (\<lambda>d.
      bindE (read_opt (sp_names sp)) (\<lambda>n.
      bindE (read_opt (sp_dtc sp)) (\<lambda>t.
      Inr [encode (sp_label sp), d, encode (case sp_ecu sp of None \<Rightarrow> [] | Some e \<Rightarrow> e), n, t]))))"

section \<open>Faults\<close>

definition dtc_letter :: "nat \<Rightarrow> char" where
  "dtc_letter n = ''PCBU'' ! n"

definition dtc_code :: "8 word \<Rightarrow> 8 word \<Rightarrow> 8 word \<Rightarrow> string" where
  "dtc_code hi mid low =
     [dtc_letter (unat hi div 64)] @ show_nat (unat hi div 16 mod 4) @ show_hex (unat hi mod 16) @ byte_hex mid @ byte_hex low"

text \<open>\<open>_DTC_CODE.match\<close>: a letter of \<open>PCBU\<close> and six upper-case hex digits.\<close>

definition is_dtc_code :: "string \<Rightarrow> bool" where
  "is_dtc_code s \<longleftrightarrow> length s = 7 \<and> hd s \<in> set ''PCBU'' \<and> list_all is_hex_char (tl s)"

definition lstrip :: "string \<Rightarrow> string" where
  "lstrip = dropWhile is_space"

text \<open>\<open>load_dtc_texts\<close> on the lines \<open>read_text().splitlines()\<close> gives; a repeated code keeps its
  place and takes the later text.\<close>

fun load_dtc_texts :: "(string \<times> string) list \<Rightarrow> string list \<Rightarrow> uds_error + (string \<times> string) list" where
  "load_dtc_texts texts [] = Inr texts"
| "load_dtc_texts texts (line # lines) =
     (if strip line = [] \<or> starts_with ''#'' (lstrip line) then load_dtc_texts texts lines
      else (case partition_on (CHR 0x09) line of (code, sep, t) \<Rightarrow>
        let code = map upper_char (strip code) in
        if \<not> sep \<or> \<not> is_dtc_code code then Inl (UdsConfigError ''expected CODE<TAB>text'')
        else load_dtc_texts (assoc_put code (strip t) texts) lines))"

section \<open>One ECU, loaded\<close>

record uds_ecu =
  ue_label :: string
  ue_ecu :: ecu_rec
  answers :: "(bytes \<times> nat) list"
  prefix_lengths :: "nat list"
  ue_names :: "((nat \<times> nat) \<times> string) list"
  dtc_texts :: "(string \<times> string) list"
  state_fields :: "bool list list"

text \<open>\<open>is_state\<close>: every valid scale row names its state, and there is one.\<close>

definition is_state :: "field_rec \<Rightarrow> bool" where
  "is_state f \<longleftrightarrow> (let valid = filter (\<lambda>s. \<not> s_invalid s) (f_scales f) in valid \<noteq> [] \<and> list_all (\<lambda>s. s_text s \<noteq> []) valid)"

text \<open>The ECU and its index: the only one, or the first of the name asked for.\<close>

fun find_ecu :: "string \<Rightarrow> nat \<Rightarrow> catalog \<Rightarrow> (nat \<times> ecu_rec) option" where
  "find_ecu name i [] = None"
| "find_ecu name i (e # es) = (if e_name e = name then Some (i, e) else find_ecu name (i + 1) es)"

definition pick_ecu :: "catalog \<Rightarrow> string option \<Rightarrow> uds_error + nat \<times> ecu_rec" where
  "pick_ecu cat want =
     (case want of
        None \<Rightarrow> (case cat of [e] \<Rightarrow> Inr (0, e) | _ \<Rightarrow> Inl (UdsConfigError ''name one with ecu''))
      | Some n \<Rightarrow> (case find_ecu n 0 cat of
            None \<Rightarrow> Inl (UdsConfigError ''ecu is not in the catalog'') | Some ie \<Rightarrow> Inr ie))"

definition answer_prefix :: "group_rec \<Rightarrow> bytes" where
  "answer_prefix g = (sid g + 0x40) # tl (g_request g)"

text \<open>\<open>setdefault\<close> keeps the first group of a prefix.\<close>

fun build_answers :: "(bytes \<times> nat) list \<Rightarrow> nat \<Rightarrow> group_rec list \<Rightarrow> (bytes \<times> nat) list" where
  "build_answers out gi [] = out"
| "build_answers out gi (g # gs) =
     build_answers (if map_of out (answer_prefix g) = None then out @ [(answer_prefix g, gi)] else out) (gi + 1) gs"

definition lengths_of :: "(bytes \<times> nat) list \<Rightarrow> nat list" where
  "lengths_of ans = rev (sort (remdups (map (length \<circ> fst) ans)))"

text \<open>\<open>key.rpartition("/")\<close>.\<close>

definition rpartition_slash :: "string \<Rightarrow> string \<times> bool \<times> string" where
  "rpartition_slash s =
     (case partition_on (CHR ''/'') (rev s) of (a, found, b) \<Rightarrow> if found then (rev b, True, rev a) else ([], False, s))"

definition is_any_hex :: "char \<Rightarrow> bool" where
  "is_any_hex c \<longleftrightarrow> is_hex_char (upper_char c)"

definition is_did_text :: "string \<Rightarrow> bool" where
  "is_did_text s \<longleftrightarrow> 3 \<le> length s \<and> length s \<le> 6 \<and> s ! 0 = CHR ''0'' \<and> s ! 1 \<in> {CHR ''x'', CHR ''X''} \<and>
     list_all is_any_hex (drop 2 s)"

fun index_where :: "('a \<Rightarrow> bool) \<Rightarrow> nat \<Rightarrow> 'a list \<Rightarrow> nat option" where
  "index_where P i [] = None"
| "index_where P i (x # xs) = (if P x then Some i else index_where P (i + 1) xs)"

fun field_hits :: "string \<Rightarrow> nat \<Rightarrow> group_rec list \<Rightarrow> (nat \<times> nat) list" where
  "field_hits n gi [] = []"
| "field_hits n gi (g # gs) =
     map (\<lambda>(fi, f). (gi, fi)) (filter (\<lambda>(fi, f). f_name f = n) (enumerate 0 (g_fields g))) @ field_hits n (gi + 1) gs"

text \<open>\<open>_resolve_field\<close>.  Python compares the objects a resolution carries by identity; here their
  flat index decides: the group lies in the ECU when its index falls in the ECU's run.\<close>

definition resolve_field :: "catalog \<Rightarrow> nat \<Rightarrow> ecu_rec \<Rightarrow> string \<Rightarrow> uds_error + nat \<times> nat" where
  "resolve_field cat ei e key =
     (case rpartition_slash key of (service, sep, fname) \<Rightarrow>
      if sep then
        bindE (if is_did_text service then
                 (case index_where (\<lambda>g. did g = hex_value (map upper_char (drop 2 service))) 0 (e_groups e) of
                    None \<Rightarrow> Inl (UdsConfigError ''no group with that DID'') | Some gi \<Rightarrow> Inr gi)
               else
                 (case resolve cat service (Some KIND_GROUP) of
                    Inl err \<Rightarrow> Inl (UdsConfigError ''catalog error'')
                  | Inr (RGroup i g e') \<Rightarrow>
                      (let first = length (cat_groups (take ei cat)) in
                       if first \<le> i \<and> i < first + length (e_groups e) then Inr (i - first)
                       else Inl (UdsConfigError ''group is not in the ECU''))
                  | Inr _ \<Rightarrow> Inl (UdsConfigError ''group is not in the ECU''))) (\<lambda>gi.
        (case index_where (\<lambda>f. f_name f = fname) 0 (g_fields (e_groups e ! gi)) of
           None \<Rightarrow> Inl (UdsConfigError ''group has no such field'') | Some fi \<Rightarrow> Inr (gi, fi)))
      else
        (case field_hits fname 0 (e_groups e) of
           [] \<Rightarrow> Inl (UdsConfigError ''no such field'')
         | [t] \<Rightarrow> Inr t
         | _ \<Rightarrow> Inl (UdsConfigError ''ambiguous, write <service>/<field>'')))"

text \<open>\<open>_NAME.match\<close>.\<close>

definition is_letter :: "char \<Rightarrow> bool" where
  "is_letter c \<longleftrightarrow> (let n = of_char c :: nat in 65 \<le> n \<and> n \<le> 90 \<or> 97 \<le> n \<and> n \<le> 122)"

definition is_name :: "string \<Rightarrow> bool" where
  "is_name s \<longleftrightarrow> s \<noteq> [] \<and> is_letter (hd s) \<and> list_all (\<lambda>c. is_letter c \<or> ascii_digit c \<or> c = CHR ''_'') (tl s)"

fun read_aliases :: "catalog \<Rightarrow> nat \<Rightarrow> ecu_rec \<Rightarrow> string set \<Rightarrow> ((nat \<times> nat) \<times> string) list \<Rightarrow> (string \<times> toml) list
    \<Rightarrow> uds_error + ((nat \<times> nat) \<times> string) list" where
  "read_aliases cat ei e taken out [] = Inr out"
| "read_aliases cat ei e taken out ((key, v) # rest) =
     (case v of
        TStr alias \<Rightarrow>
          if \<not> is_name alias then Inl (UdsConfigError ''not a name'')
          else if alias \<in> taken then Inl (UdsConfigError ''name given twice'')
          else bindE (resolve_field cat ei e key) (\<lambda>t.
            if t \<in> set (map fst out) then Inl (UdsConfigError ''field already has a name'')
            else read_aliases cat ei e (insert alias taken) (out @ [(t, alias)]) rest)
      | _ \<Rightarrow> Inl (UdsConfigError ''not a name''))"

definition alias_table :: "(string \<Rightarrow> (string \<times> toml) list option) \<Rightarrow> (string \<Rightarrow> bytes option) \<Rightarrow> catalog \<Rightarrow> nat \<Rightarrow> ecu_rec
    \<Rightarrow> string option \<Rightarrow> uds_error + ((nat \<times> nat) \<times> string) list" where
  "alias_table toml fs cat ei e path =
     (case path of
        None \<Rightarrow> Inr []
      | Some p \<Rightarrow>
          (case fs p of
             None \<Rightarrow> Inl (UdsConfigError ''names file'')
           | Some b \<Rightarrow>
               (case decode b of
                  Inl err \<Rightarrow> Inl (Uncaught err)
                | Inr t \<Rightarrow>
                    (case toml t of
                       None \<Rightarrow> Inl (UdsConfigError ''names file'')
                     | Some raw \<Rightarrow>
                         bindE (guardE (set (map fst raw) \<subseteq> {''fields''}) (UdsConfigError ''names: unknown key(s)'')) (\<lambda>_.
                         case map_of raw ''fields'' of
                           None \<Rightarrow> read_aliases cat ei e {} [] []
                         | Some (TTable flds) \<Rightarrow> read_aliases cat ei e {} [] flds
                         | Some _ \<Rightarrow> Inl (UdsConfigError ''[fields] must be a table''))))))"

text \<open>The signal names: of element \<open>k\<close>, and of all elements of a field.\<close>

definition element_name :: "field_rec \<Rightarrow> string \<Rightarrow> nat \<Rightarrow> string" where
  "element_name f base k =
     (if repeat_count f = 1 then base
      else base @ ''.'' @ zfill (length (show_int (repeat_count f))) (show_nat (k + 1)))"

definition full_names :: "field_rec \<Rightarrow> string \<Rightarrow> string list" where
  "full_names f base = (if repeat_count f = 1 then [base] else map (element_name f base) [0..<nat (repeat_count f)])"

definition base_name :: "string \<Rightarrow> ((nat \<times> nat) \<times> string) list \<Rightarrow> group_rec \<Rightarrow> field_rec \<Rightarrow> nat \<times> nat \<Rightarrow> string" where
  "base_name source aliases g f t =
     (case map_of aliases t of
        Some a \<Rightarrow> source @ ''.'' @ a
      | None \<Rightarrow> source @ ''.'' @ g_name g @ ''.'' @ f_name f)"

fun name_fields :: "string \<Rightarrow> ((nat \<times> nat) \<times> string) list \<Rightarrow> string set \<Rightarrow> ((nat \<times> nat) \<times> string) list
    \<Rightarrow> ((nat \<times> nat) \<times> group_rec \<times> field_rec) list \<Rightarrow> uds_error + ((nat \<times> nat) \<times> string) list" where
  "name_fields source aliases seen out [] = Inr out"
| "name_fields source aliases seen out ((t, g, f) # rest) =
     (let base = base_name source aliases g f t; full = full_names f base in
      if \<not> distinct full \<or> set full \<inter> seen \<noteq> {} then Inl (UdsConfigError ''two fields end up as one signal'')
      else name_fields source aliases (seen \<union> set full) (out @ [(t, base)]) rest)"

definition ecu_fields :: "ecu_rec \<Rightarrow> ((nat \<times> nat) \<times> group_rec \<times> field_rec) list" where
  "ecu_fields e = concat (map (\<lambda>(gi, g). map (\<lambda>(fi, f). ((gi, fi), g, f)) (enumerate 0 (g_fields g))) (enumerate 0 (e_groups e)))"

text \<open>\<open>UdsEcu(spec, where)\<close>; \<open>lines\<close> is what the fault text file splits into.\<close>

definition new_uds_ecu :: "(string \<Rightarrow> (string \<times> toml) list option) \<Rightarrow> (string \<Rightarrow> bytes option) \<Rightarrow> (bytes \<Rightarrow> string list)
    \<Rightarrow> uds_spec \<Rightarrow> uds_error + uds_ecu" where
  "new_uds_ecu toml fs lines sp =
     (case fs (sp_dcat sp) of
        None \<Rightarrow> Inl OSError
      | Some blob \<Rightarrow>
          bindE (case read_catalog blob of
                   Inr cat \<Rightarrow> Inr cat
                 | Inl UnicodeDecodeError \<Rightarrow> Inl (Uncaught UnicodeDecodeError)
                 | Inl StructError \<Rightarrow> Inl (Uncaught StructError)
                 | Inl IndexError \<Rightarrow> Inl (Uncaught IndexError)
                 | Inl ValueError \<Rightarrow> Inl (Uncaught ValueError)
                 | Inl _ \<Rightarrow> Inl (UdsConfigError ''not a catalog'')) (\<lambda>cat.
          bindE (pick_ecu cat (sp_ecu sp)) (\<lambda>(ei, e).
          bindE (alias_table toml fs cat ei e (sp_names sp)) (\<lambda>aliases.
          bindE (name_fields (e_name e) aliases {} [] (ecu_fields e)) (\<lambda>names.
          bindE (case sp_dtc sp of
                   None \<Rightarrow> Inr []
                 | Some p \<Rightarrow> (case fs p of None \<Rightarrow> Inl OSError | Some b \<Rightarrow> load_dtc_texts [] (lines b))) (\<lambda>texts.
          let ans = build_answers [] 0 (e_groups e) in
          Inr \<lparr>ue_label = sp_label sp, ue_ecu = e, answers = ans, prefix_lengths = lengths_of ans, ue_names = names,
               dtc_texts = texts, state_fields = map (\<lambda>g. map is_state (g_fields g)) (e_groups e)\<rparr>))))))"

end
