(* ===== verification/UdsChunk.thy ===== *)
theory UdsChunk
  imports UdsEcu
begin

text \<open>
  \<open>UdsChunk\<close> of \<open>script/sdlog_uds.py\<close>: the CAN frames of one chunk are reassembled as ISO-TP on
  each ECU's response id, and every answer becomes signals and events.

  An ECU is its index in the list the chunk was built with (the source keys its dictionaries by
  \<open>id(e)\<close>).  The two callbacks append to one log \<open>emissions\<close>; \<open>utc\<close> is a number of microseconds or
  \<open>None\<close>.
\<close>

section \<open>State\<close>

datatype emitted =
    Signal string "int option" pyfloat string
  | Event "int option" string string string pyfloat string string

record rx =
  started :: bool
  buf :: "bytes option"
  need :: nat
  sn :: nat
  quiet :: bool
  request :: "bytes option"

definition new_rx :: rx where
  "new_rx = \<lparr>started = False, buf = None, need = 0, sn = 0, quiet = False, request = None\<rparr>"

datatype role = Rx | Tx

type_synonym route_key = "string \<times> int \<times> bool"

record chunk =
  routes :: "(route_key \<times> nat \<times> role) list"
  rxs :: "rx list"
  states :: "(string \<times> pyfloat option \<times> string) list list"
  dtcs :: "(bytes option \<times> (string \<times> nat) list) list list"
  counts :: "(string \<times> nat) list"
  events :: nat
  emissions :: "emitted list"

definition rx_key :: "uds_ecu \<Rightarrow> route_key" where
  "rx_key e = (ue_label e, response_id (ue_ecu e), extended_id (ue_ecu e))"

definition tx_key :: "uds_ecu \<Rightarrow> route_key" where
  "tx_key e = (ue_label e, request_id (ue_ecu e), extended_id (ue_ecu e))"

fun add_routes :: "(route_key \<times> nat \<times> role) list \<Rightarrow> nat \<Rightarrow> uds_ecu list \<Rightarrow> (route_key \<times> nat \<times> role) list" where
  "add_routes rs i [] = rs"
| "add_routes rs i (e # es) = add_routes (assoc_put (tx_key e) (i, Tx) (assoc_put (rx_key e) (i, Rx) rs)) (i + 1) es"

definition new_chunk :: "uds_ecu list \<Rightarrow> chunk" where
  "new_chunk es = \<lparr>routes = add_routes [] 0 es, rxs = map (\<lambda>_. new_rx) es, states = map (\<lambda>_. []) es,
     dtcs = map (\<lambda>_. []) es, counts = [], events = 0, emissions = []\<rparr>"

text \<open>\<open>routes_of\<close>: every routed id once, or a configuration error.\<close>

fun claim_ids :: "(route_key \<times> string) list \<Rightarrow> uds_ecu \<Rightarrow> int list \<Rightarrow> uds_error + (route_key \<times> string) list" where
  "claim_ids rs e [] = Inr rs"
| "claim_ids rs e (i # is) =
     (let key = (ue_label e, i, extended_id (ue_ecu e)) in
      if map_of rs key \<noteq> None then Inl (UdsConfigError ''both use one id'')
      else claim_ids (rs @ [(key, e_name (ue_ecu e))]) e is)"

fun routes_from :: "(route_key \<times> string) list \<Rightarrow> uds_ecu list \<Rightarrow> uds_error + (route_key \<times> string) list" where
  "routes_from rs [] = Inr rs"
| "routes_from rs (e # es) =
     bindE (claim_ids rs e [request_id (ue_ecu e), response_id (ue_ecu e)]) (\<lambda>rs. routes_from rs es)"

definition routes_of :: "uds_ecu list \<Rightarrow> uds_error + (route_key \<times> string) list" where
  "routes_of es = routes_from [] es"

section \<open>Formatting\<close>

text \<open>\<open>f"{value:g}"\<close> of a finite double: six significant digits, ties to even on the exact value.\<close>

definition digits10 :: "nat \<Rightarrow> nat" where
  "digits10 n = length (show_nat n)"

definition log10_floor :: "int \<Rightarrow> int \<Rightarrow> int" where
  "log10_floor a b =
     (if a \<ge> b then int (digits10 (nat (a div b))) - 1 else - int (digits10 (nat ((b - 1) div a))))"

definition pow10 :: "int \<Rightarrow> rat" where
  "pow10 e = (if e \<ge> 0 then 10 ^ nat e else 1 / 10 ^ nat (- e))"

definition rstrip_zeros :: "string \<Rightarrow> string" where
  "rstrip_zeros s = rev (dropWhile (\<lambda>c. c = CHR ''0'') (rev s))"

definition with_point :: "string \<Rightarrow> string \<Rightarrow> string" where
  "with_point a b = (let b = rstrip_zeros b in if b = [] then a else a @ ''.'' @ b)"

definition fmt_g_pos :: "rat \<Rightarrow> string" where
  "fmt_g_pos x =
     (let (a, b) = quotient_of x;
          e = log10_floor a b;
          m = round_even (x * pow10 (5 - e));
          (m, e) = (if m = 1000000 then (100000, e + 1) else (m, e));
          ds = show_nat (nat m)
      in if - 4 \<le> e \<and> e < 6 then
           (if e \<ge> 0 then with_point (take (nat e + 1) ds) (drop (nat e + 1) ds)
            else with_point ''0'' (replicate (nat (- e) - 1) (CHR ''0'') @ ds))
         else with_point (take 1 ds) (drop 1 ds) @ ''e'' @ (if e < 0 then ''-'' else ''+'') @ zfill 2 (show_nat (nat \<bar>e\<bar>)))"

fun fmt_g :: "pyfloat \<Rightarrow> string" where
  "fmt_g NaN = ''nan''"
| "fmt_g PosInf = ''inf''"
| "fmt_g NegInf = ''-inf''"
| "fmt_g (Fin x) = (if x = 0 then ''0'' else if x < 0 then CHR ''-'' # fmt_g_pos (- x) else fmt_g_pos x)"

text \<open>\<open>_fmt\<close>; \<open>None\<close> stands for NaN.\<close>

definition fmt_state :: "pyfloat option \<Rightarrow> string \<Rightarrow> string" where
  "fmt_state v t =
     (if t \<noteq> [] then t
      else (case v of None \<Rightarrow> ''unavailable'' | Some NaN \<Rightarrow> ''unavailable'' | Some x \<Rightarrow> fmt_g x))"

definition hex_bytes :: "bytes \<Rightarrow> string" where
  "hex_bytes bs = concat (map byte_hex bs)"

definition hex_spaced :: "bytes \<Rightarrow> string" where
  "hex_spaced bs = join_with '' '' (map byte_hex bs)"

text \<open>\<open>decode("latin-1")\<close>, as the UTF-8 bytes of the text.\<close>

definition latin1 :: "bytes \<Rightarrow> string" where
  "latin1 bs = concat (map (\<lambda>b. if b < 0x80 then [char_of (unat b)]
     else [char_of (0xC0 + unat b div 64), char_of (0x80 + unat b mod 64)]) bs)"

text \<open>\<open>bytes.fromhex\<close>: pairs of hex digits, ASCII white space between them.\<close>

definition hex_space :: "char \<Rightarrow> bool" where
  "hex_space c \<longleftrightarrow> (of_char c :: nat) \<in> {9, 10, 11, 12, 13, 32}"

fun fromhex :: "string \<Rightarrow> bytes option" where
  "fromhex [] = Some []"
| "fromhex [c] = (if hex_space c then Some [] else None)"
| "fromhex (c # d # s) =
     (if hex_space c then fromhex (d # s)
      else if is_any_hex c \<and> is_any_hex d
      then map_option ((#) (word_of_int (16 * hex_digit (upper_char c) + hex_digit (upper_char d)))) (fromhex s)
      else None)"

section \<open>Emitting\<close>

definition bump :: "string \<Rightarrow> chunk \<Rightarrow> chunk" where
  "bump key c = c\<lparr>counts := assoc_put key ((case map_of (counts c) key of None \<Rightarrow> 0 | Some n \<Rightarrow> n) + 1) (counts c)\<rparr>"

definition emit :: "uds_ecu \<Rightarrow> int option \<Rightarrow> string \<Rightarrow> string \<Rightarrow> pyfloat \<Rightarrow> string \<Rightarrow> string \<Rightarrow> chunk \<Rightarrow> chunk" where
  "emit e utc kind name v t detail c =
     c\<lparr>events := events c + 1, emissions := emissions c @ [Event utc (e_name (ue_ecu e)) kind name v t detail]\<rparr>"

definition signal :: "string \<Rightarrow> int option \<Rightarrow> pyfloat \<Rightarrow> string \<Rightarrow> chunk \<Rightarrow> chunk" where
  "signal name utc v t c = c\<lparr>emissions := emissions c @ [Signal name utc v t]\<rparr>"

definition set_rx :: "nat \<Rightarrow> (rx \<Rightarrow> rx) \<Rightarrow> chunk \<Rightarrow> chunk" where
  "set_rx i f c = c\<lparr>rxs := (rxs c)[i := f (rxs c ! i)]\<rparr>"

section \<open>One message\<close>

definition NRC_NAMES :: "(nat \<times> string) list" where
  "NRC_NAMES =
    [(0x10, ''generalReject''), (0x11, ''serviceNotSupported''), (0x12, ''subFunctionNotSupported''),
     (0x13, ''incorrectMessageLengthOrInvalidFormat''), (0x14, ''responseTooLong''), (0x21, ''busyRepeatRequest''),
     (0x22, ''conditionsNotCorrect''), (0x24, ''requestSequenceError''), (0x25, ''noResponseFromSubnetComponent''),
     (0x26, ''failurePreventsExecutionOfRequestedAction''), (0x31, ''requestOutOfRange''), (0x33, ''securityAccessDenied''),
     (0x35, ''invalidKey''), (0x36, ''exceededNumberOfAttempts''), (0x37, ''requiredTimeDelayNotExpired''),
     (0x70, ''uploadDownloadNotAccepted''), (0x71, ''transferDataSuspended''), (0x72, ''generalProgrammingFailure''),
     (0x73, ''wrongBlockSequenceCounter''), (0x78, ''requestCorrectlyReceivedResponsePending''),
     (0x7E, ''subFunctionNotSupportedInActiveSession''), (0x7F, ''serviceNotSupportedInActiveSession'')]"

definition nrc_name :: "nat \<Rightarrow> string" where
  "nrc_name n = (case map_of NRC_NAMES n of None \<Rightarrow> [] | Some s \<Rightarrow> s)"

text \<open>\<open>_state\<close>: an event when the value or text of a state changes.\<close>

definition set_state :: "uds_ecu \<Rightarrow> nat \<Rightarrow> string \<Rightarrow> pyfloat \<Rightarrow> string \<Rightarrow> int option \<Rightarrow> chunk \<Rightarrow> chunk" where
  "set_state e i name v t utc c =
     (let key = ((if v = NaN then None else Some v), t); old = map_of (states c ! i) name in
      if old = Some key then c
      else emit e utc ''state'' name v t
             (case old of None \<Rightarrow> ''initial'' | Some (ov, ot) \<Rightarrow> ''from '' @ fmt_state ov ot)
             (c\<lparr>states := (states c)[i := assoc_put name key (states c ! i)]\<rparr>))"

text \<open>\<open>_dtcs\<close>: the fault records of an answer against those of the previous answer to the same request.\<close>

fun dtc_records :: "bytes \<Rightarrow> (string \<times> nat) list \<Rightarrow> (string \<times> nat) list" where
  "dtc_records (a # b # c # s # rest) ds = dtc_records rest (assoc_put (dtc_code a b c) (unat s) ds)"
| "dtc_records _ ds = ds"

definition dtc_text :: "uds_ecu \<Rightarrow> string \<Rightarrow> string" where
  "dtc_text e code = (case map_of (dtc_texts e) code of None \<Rightarrow> [] | Some t \<Rightarrow> t)"

definition dtc_detail :: "(string \<times> nat) list option \<Rightarrow> string \<Rightarrow> nat \<Rightarrow> string option" where
  "dtc_detail previous code status =
     (case previous of
        None \<Rightarrow> Some ''initial''
      | Some prev \<Rightarrow>
          (case map_of prev code of
             None \<Rightarrow> Some ''new''
           | Some old \<Rightarrow> (if old \<noteq> status then Some (''status 0x'' @ hex2 old @ ''->0x'' @ hex2 status) else None)))"

definition dtc_seen :: "uds_ecu \<Rightarrow> int option \<Rightarrow> (string \<times> nat) list option \<Rightarrow> string \<times> nat \<Rightarrow> chunk \<Rightarrow> chunk" where
  "dtc_seen e utc previous cs c =
     (case dtc_detail previous (fst cs) (snd cs) of
        None \<Rightarrow> c
      | Some d \<Rightarrow> emit e utc ''dtc'' (fst cs) (py_float (int (snd cs))) (dtc_text e (fst cs)) d c)"

definition dtc_gone :: "uds_ecu \<Rightarrow> int option \<Rightarrow> (string \<times> nat) list \<Rightarrow> string \<Rightarrow> chunk \<Rightarrow> chunk" where
  "dtc_gone e utc current code c =
     (if map_of current code = None then emit e utc ''dtc'' code (Fin 0) (dtc_text e code) ''cleared'' c else c)"

definition on_dtcs :: "uds_ecu \<Rightarrow> nat \<Rightarrow> bytes \<Rightarrow> int option \<Rightarrow> bytes option \<Rightarrow> chunk \<Rightarrow> chunk" where
  "on_dtcs e i msg utc req c =
     (let records = drop 3 msg;
          c = (if length records mod 4 \<noteq> 0 then bump ''torn fault records'' c else c);
          current = dtc_records records [];
          previous = map_of (dtcs c ! i) req;
          c = fold (dtc_seen e utc previous) current c;
          c = fold (dtc_gone e utc current) (map fst (case previous of None \<Rightarrow> [] | Some p \<Rightarrow> p)) c
      in c\<lparr>dtcs := (dtcs c)[i := assoc_put req current (dtcs c ! i)]\<rparr>)"

text \<open>\<open>_group\<close>: one element of a field, the field, the group.  The counters are the numeric elements,
  those with a value, and whether the answer was too short.\<close>

type_synonym tally = "nat \<times> nat \<times> bool"

definition text_of :: "string option \<Rightarrow> string" where
  "text_of t = (case t of None \<Rightarrow> [] | Some s \<Rightarrow> s)"

definition on_value :: "uds_ecu \<Rightarrow> nat \<Rightarrow> int option \<Rightarrow> bool \<Rightarrow> string \<Rightarrow> pyfloat option \<Rightarrow> string \<Rightarrow> tally \<times> chunk \<Rightarrow> tally \<times> chunk" where
  "on_value e i utc stateful name value t tc =
     (case tc of ((numeric, available, part), c) \<Rightarrow>
        (case value of
           None \<Rightarrow>
             ((numeric + 1, available, part),
              (if stateful then set_state e i name NaN t utc else id) (bump ''unavailable values'' c))
         | Some v \<Rightarrow>
             ((numeric + 1, available + 1, part),
              (if stateful then set_state e i name v t utc else id) (signal name utc v t c))))"

definition on_text :: "bytes \<Rightarrow> int option \<Rightarrow> field_rec \<Rightarrow> string \<Rightarrow> int \<Rightarrow> chunk \<Rightarrow> chunk" where
  "on_text msg utc f name start c =
     (if start mod 8 \<noteq> 0 \<or> bit_size f mod 8 \<noteq> 0 then bump ''misaligned text fields'' c
      else
        let raw = py_slice msg (start div 8) ((start + bit_size f) div 8 - start div 8)
        in signal name utc NaN (if f_ascii f then latin1 (takeWhile (\<lambda>b. b \<noteq> 0) raw) else hex_bytes raw) c)"

definition on_element :: "uds_ecu \<Rightarrow> nat \<Rightarrow> bytes \<Rightarrow> int option \<Rightarrow> bool \<Rightarrow> field_rec \<Rightarrow> string \<Rightarrow> nat
    \<Rightarrow> tally \<times> chunk \<Rightarrow> catalog_error + tally \<times> chunk" where
  "on_element e i msg utc stateful f base k tc =
     (let start = bit_pos f + int k * repeat_stride f; name = element_name f base k in
      if start + bit_size f > int (8 * length msg)
      then Inr ((fst (fst tc), fst (snd (fst tc)), True), bump ''values past the answer's end'' (snd tc))
      else if f_ascii f \<or> hexdump f then Inr (fst tc, on_text msg utc f name start (snd tc))
      else
        bindE (extract_field f msg (int k)) (\<lambda>raw.
        Inr (on_value e i utc stateful name (fst (evaluate f raw)) (text_of (snd (evaluate f raw))) tc)))"

fun foldE :: "('a \<Rightarrow> 'b \<Rightarrow> 'e + 'b) \<Rightarrow> 'a list \<Rightarrow> 'b \<Rightarrow> 'e + 'b" where
  "foldE f [] b = Inr b"
| "foldE f (x # xs) b = bindE (f x b) (foldE f xs)"

definition field_base :: "uds_ecu \<Rightarrow> nat \<times> nat \<Rightarrow> string" where
  "field_base e t = (case map_of (ue_names e) t of None \<Rightarrow> [] | Some n \<Rightarrow> n)"

definition on_field :: "uds_ecu \<Rightarrow> nat \<Rightarrow> nat \<Rightarrow> bytes \<Rightarrow> int option \<Rightarrow> nat \<times> field_rec
    \<Rightarrow> tally \<times> chunk \<Rightarrow> catalog_error + tally \<times> chunk" where
  "on_field e i gi msg utc fif tc =
     foldE (\<lambda>k. on_element e i msg utc (state_fields e ! gi ! fst fif) (snd fif) (field_base e (gi, fst fif)) k)
       [0..<nat (repeat_count (snd fif))] tc"

definition on_group :: "uds_ecu \<Rightarrow> nat \<Rightarrow> nat \<Rightarrow> bytes \<Rightarrow> int option \<Rightarrow> chunk \<Rightarrow> catalog_error + chunk" where
  "on_group e i gi msg utc c =
     (let g = e_groups (ue_ecu e) ! gi in
      bindE (foldE (on_field e i gi msg utc) (enumerate 0 (g_fields g)) ((0, 0, False), c))
        (\<lambda>((numeric, available, part), c).
          let c = (if part then bump ''partial answers'' c else c)
          in Inr (if numeric \<noteq> 0 \<and> available = 0
                  then emit e utc ''unavailable'' (g_name g) (py_float (int numeric)) [] [] c else c)))"

fun find_answer :: "(bytes \<times> nat) list \<Rightarrow> nat list \<Rightarrow> bytes \<Rightarrow> nat option" where
  "find_answer ans [] msg = None"
| "find_answer ans (n # ns) msg =
     (case map_of ans (take n msg) of Some gi \<Rightarrow> Some gi | None \<Rightarrow> find_answer ans ns msg)"

text \<open>\<open>_message\<close>; the message is not empty.\<close>

definition on_message :: "uds_ecu \<Rightarrow> nat \<Rightarrow> bytes \<Rightarrow> int option \<Rightarrow> chunk \<Rightarrow> catalog_error + chunk" where
  "on_message e i msg utc c =
     (let c = bump ''answers'' c; req = request (rxs c ! i) in
      if msg ! 0 = 0x7F then
        (if length msg < 3 then Inr (bump ''unknown answers'' c)
         else if msg ! 2 = 0x78 then Inr (bump ''pending'' c)
         else
           let r = (case req of Some (b # bs) \<Rightarrow> (if b = msg ! 1 then Some (b # bs) else None) | _ \<Rightarrow> None);
               name = (case r of Some bs \<Rightarrow> hex_spaced bs | None \<Rightarrow> ''SID '' @ byte_hex (msg ! 1));
               nrc = unat (msg ! 2)
           in Inr (set_rx i (\<lambda>x. x\<lparr>request := None\<rparr>) (emit e utc ''nrc'' name (py_float (int nrc)) (nrc_name nrc) [] c)))
      else if length msg \<ge> 3 \<and> msg ! 0 = 0x59 \<and> msg ! 1 = 0x02 then
        let r = (case req of Some bs \<Rightarrow> (if take 2 bs = [0x19, 0x02] then Some bs else None) | None \<Rightarrow> None)
        in Inr (set_rx i (\<lambda>x. x\<lparr>request := None\<rparr>) (on_dtcs e i msg utc r c))
      else
        (case find_answer (answers e) (prefix_lengths e) msg of
           None \<Rightarrow> Inr (bump ''unknown answers'' c)
         | Some gi \<Rightarrow> on_group e i gi msg utc (set_rx i (\<lambda>x. x\<lparr>request := None\<rparr>) c)))"

section \<open>One frame\<close>

definition abandon :: "uds_ecu \<Rightarrow> nat \<Rightarrow> int option \<Rightarrow> chunk \<Rightarrow> chunk" where
  "abandon e i utc c =
     (case buf (rxs c ! i) of
        None \<Rightarrow> c
      | Some b \<Rightarrow>
          emit e utc ''isotp'' ''incomplete'' (py_float (int (length b))) []
            (show_nat (length b) @ '' of '' @ show_nat (need (rxs c ! i)) @ '' bytes, then a new message'')
            (set_rx i (\<lambda>x. x\<lparr>buf := None\<rparr>) c))"

definition begin_message :: "nat \<Rightarrow> chunk \<Rightarrow> chunk" where
  "begin_message i c = set_rx i (\<lambda>x. x\<lparr>started := True, quiet := False\<rparr>) c"

definition tx_frame :: "nat \<Rightarrow> bytes \<Rightarrow> chunk \<Rightarrow> chunk" where
  "tx_frame i data c =
     (let pci = unat (hd data) div 16; n = unat (hd data) mod 16 in
      if pci = 0 \<and> 1 \<le> n \<and> n \<le> length data - 1 then set_rx i (\<lambda>x. x\<lparr>request := Some (take n (tl data))\<rparr>) c
      else if pci = 1 then set_rx i (\<lambda>x. x\<lparr>request := None\<rparr>) c
      else c)"

definition single_frame :: "uds_ecu \<Rightarrow> nat \<Rightarrow> bytes \<Rightarrow> int option \<Rightarrow> chunk \<Rightarrow> catalog_error + chunk" where
  "single_frame e i data utc c =
     (let n = unat (hd data) mod 16 in
      if n = 0 \<or> n > length data - 1 then Inr (bump ''bad frames'' c)
      else on_message e i (take n (tl data)) utc (begin_message i (abandon e i utc c)))"

definition first_frame :: "uds_ecu \<Rightarrow> nat \<Rightarrow> bytes \<Rightarrow> int option \<Rightarrow> chunk \<Rightarrow> chunk" where
  "first_frame e i data utc c =
     (let n = (if length data \<ge> 2 then unat (data ! 0) mod 16 * 256 + unat (data ! 1) else 0) in
      if n < 8 \<or> length data < 8 then bump ''bad frames'' c
      else set_rx i (\<lambda>x. x\<lparr>buf := Some (drop 2 data), need := n, sn := 1\<rparr>) (begin_message i (abandon e i utc c)))"

definition consecutive_frame :: "uds_ecu \<Rightarrow> nat \<Rightarrow> bytes \<Rightarrow> int option \<Rightarrow> chunk \<Rightarrow> catalog_error + chunk" where
  "consecutive_frame e i data utc c =
     (let x = rxs c ! i; n = unat (hd data) mod 16 in
      case buf x of
        None \<Rightarrow>
          Inr (if \<not> started x then bump ''frames cut at the start'' c
               else if \<not> quiet x
               then emit e utc ''isotp'' ''orphan'' (py_float (int (length data) - 1)) [] ''consecutive frame without a first frame''
                      (set_rx i (\<lambda>x. x\<lparr>quiet := True\<rparr>) c)
               else c)
      | Some b \<Rightarrow>
          (if n \<noteq> sn x
           then Inr (emit e utc ''isotp'' ''sequence'' (py_float (int (length b))) []
                       (''expected SN '' @ show_hex (sn x) @ '', got '' @ show_hex n)
                       (set_rx i (\<lambda>x. x\<lparr>buf := None, quiet := True\<rparr>) c))
           else
             let b = b @ tl data;
                 c = set_rx i (\<lambda>x. x\<lparr>buf := Some b, sn := (sn x + 1) mod 16\<rparr>) c
             in if length b \<ge> need x
                then on_message e i (take (need x) b) utc (set_rx i (\<lambda>x. x\<lparr>buf := None\<rparr>) c)
                else Inr c))"

definition rx_frame :: "uds_ecu \<Rightarrow> nat \<Rightarrow> bytes \<Rightarrow> int option \<Rightarrow> chunk \<Rightarrow> catalog_error + chunk" where
  "rx_frame e i data utc c =
     (let pci = unat (hd data) div 16 in
      if pci = 0 then single_frame e i data utc c
      else if pci = 1 then Inr (first_frame e i data utc c)
      else if pci = 2 then consecutive_frame e i data utc c
      else if pci = 3 then Inr c
      else Inr (bump ''bad frames'' c))"

text \<open>\<open>feed\<close>: whether the frame is routed, and the new state.\<close>

definition feed :: "uds_ecu list \<Rightarrow> string \<Rightarrow> int \<Rightarrow> bool \<Rightarrow> string \<Rightarrow> int option \<Rightarrow> chunk \<Rightarrow> catalog_error + bool \<times> chunk" where
  "feed es label can_id extended data_hex utc c =
     (case map_of (routes c) (label, can_id, extended) of
        None \<Rightarrow> Inr (False, c)
      | Some (i, role) \<Rightarrow>
          (case fromhex data_hex of
             None \<Rightarrow> Inl ValueError
           | Some [] \<Rightarrow> Inr (True, bump ''bad frames'' c)
           | Some data \<Rightarrow>
               (case role of
                  Tx \<Rightarrow> Inr (True, tx_frame i data c)
                | Rx \<Rightarrow> bindE (rx_frame (es ! i) i data utc c) (\<lambda>c. Inr (True, c)))))"

fun close_rxs :: "rx list \<Rightarrow> nat \<times> rx list" where
  "close_rxs [] = (0, [])"
| "close_rxs (x # xs) =
     (case close_rxs xs of (n, ys) \<Rightarrow> if buf x \<noteq> None then (n + 1, x\<lparr>buf := None\<rparr> # ys) else (n, x # ys))"

definition finish :: "chunk \<Rightarrow> chunk" where
  "finish c = (case close_rxs (rxs c) of (n, xs) \<Rightarrow> (bump ''frames cut at the end'' ^^ n) (c\<lparr>rxs := xs\<rparr>))"

definition count_order :: "string list" where
  "count_order = [''answers'', ''partial answers'', ''unknown answers'', ''pending'', ''unavailable values'',
     ''values past the answer's end'', ''frames cut at the start'', ''frames cut at the end'',
     ''bad frames'', ''misaligned text fields'', ''torn fault records'']"

definition count :: "chunk \<Rightarrow> string \<Rightarrow> nat" where
  "count c key = (case map_of (counts c) key of None \<Rightarrow> 0 | Some n \<Rightarrow> n)"

definition summary :: "chunk \<Rightarrow> string" where
  "summary c =
     (if counts c = [] \<and> events c = 0 then []
      else ''uds: '' @ join_with '', ''
             (map (\<lambda>k. show_nat (count c k) @ '' '' @ k) (filter (\<lambda>k. count c k \<noteq> 0) count_order)
              @ [show_nat (events c) @ '' events'']))"

end
