(* ===== verification/UdsTransfer.thy ===== *)
theory UdsTransfer
  imports UdsChunk
begin

text \<open>
  Reassembly in \<open>UdsChunk\<close>: the frames of one answer are put together as ISO-TP defines it.  The
  receive state is compared with a step relation of its own, and what an unfinished transfer
  holds is traced back to the frames it came in.
\<close>

section \<open>Reassembly\<close>

lemma set_rx_nth [simp]: "i < length (rxs c) \<Longrightarrow> rxs (set_rx i f c) ! i = f (rxs c ! i)"
  by (simp add: set_rx_def)

lemma set_rx_length [simp]: "length (rxs (set_rx i f c)) = length (rxs c)"
  by (simp add: set_rx_def)

lemma set_rx_twice [simp]: "set_rx i f (set_rx i g c) = set_rx i (f \<circ> g) c"
  by (cases "i < length (rxs c)") (simp_all add: set_rx_def list_update_beyond)

lemma rxs_bump [simp]: "rxs (bump k c) = rxs c"
  by (simp add: bump_def)

lemma rxs_emit [simp]: "rxs (emit e utc kind name v t d c) = rxs c"
  by (simp add: emit_def)

lemma rxs_signal [simp]: "rxs (signal name utc v t c) = rxs c"
  by (simp add: signal_def)

lemma rxs_set_state [simp]: "rxs (set_state e i name v t utc c) = rxs c"
  by (simp add: set_state_def Let_def)

lemma rxs_dtc_seen [simp]: "rxs (dtc_seen e utc p cs c) = rxs c"
  by (simp add: dtc_seen_def split: option.split)

lemma rxs_dtc_gone [simp]: "rxs (dtc_gone e utc cur code c) = rxs c"
  by (simp add: dtc_gone_def)

lemma rxs_folds [simp]:
  "rxs (fold (dtc_seen e utc p) xs c) = rxs c" "rxs (fold (dtc_gone e utc cur) ys c) = rxs c"
  by (induction xs arbitrary: c, simp_all) (induction ys arbitrary: c, simp_all)

lemma rxs_on_dtcs [simp]: "rxs (on_dtcs e i msg utc req c) = rxs c"
  by (simp add: on_dtcs_def Let_def)

lemma buf_None [simp]: "buf x = None \<Longrightarrow> x\<lparr>buf := None\<rparr> = x"
  by (cases x) simp

lemma rxs_abandon: "rxs (abandon e i utc c) = rxs (set_rx i (\<lambda>x. x\<lparr>buf := None\<rparr>) c)"
proof (cases "buf (rxs c ! i)")
  case None
  then show ?thesis by (simp add: abandon_def set_rx_def)
next
  case (Some b)
  then show ?thesis by (simp add: abandon_def)
qed

text \<open>The frames an ECU sends for one answer: a first frame with six bytes, then seven bytes per
  consecutive frame, the sequence number counting from one modulo sixteen, the last frame padded.\<close>

function consecutive :: "bytes \<Rightarrow> nat \<Rightarrow> bytes \<Rightarrow> bytes list" where
  "consecutive pad k msg =
     (if msg = [] then []
      else if length msg \<le> 7 then [word_of_nat (0x20 + k mod 16) # msg @ pad]
      else (word_of_nat (0x20 + k mod 16) # take 7 msg) # consecutive pad (k + 1) (drop 7 msg))"
  by auto
termination by (relation "measure (\<lambda>(pad, k, msg). length msg)") auto

declare consecutive.simps [simp del]

definition segment :: "bytes \<Rightarrow> bytes \<Rightarrow> bytes list" where
  "segment pad msg =
     (word_of_nat (0x10 + length msg div 256) # word_of_nat (length msg mod 256) # take 6 msg) # consecutive pad 1 (drop 6 msg)"

definition frames_after :: "nat \<Rightarrow> nat" where
  "frames_after n = (n + 6) div 7"

lemma unat_small: "n < 256 \<Longrightarrow> unat (word_of_nat n :: 8 word) = n"
  by (simp add: unat_of_nat)

lemma nibble_cf: "j < 16 \<Longrightarrow> (32 + j) div 16 = 2 \<and> (32 + j) mod 16 = (j :: nat)"
  by presburger

lemma one_frame: "1 \<le> n \<Longrightarrow> n \<le> 7 \<Longrightarrow> frames_after n = 1"
  unfolding frames_after_def by presburger

lemma more_frames:
  assumes "7 < n"
  shows "frames_after n = 1 + frames_after (n - 7)"
proof -
  have "n + 6 = (n - 7 + 6) + 7" using assms by simp
  then have "(n + 6) div 7 = ((n - 7 + 6) + 7) div 7" by (simp only:)
  then show ?thesis by (simp add: frames_after_def)
qed

lemma set_rx_cong: "f (rxs c ! i) = g (rxs c ! i) \<Longrightarrow> set_rx i f c = set_rx i g c"
  by (simp add: set_rx_def)

lemma consecutive_run:
  assumes i: "i < length (rxs c)"
    and x: "rxs c ! i = x" and b: "buf x = Some got" and n: "need x = length (got @ msg)" and s: "sn x = k mod 16"
    and m: "msg \<noteq> []"
  shows "foldE (\<lambda>d. rx_frame e i d utc) (consecutive pad k msg) c
     = on_message e i (got @ msg) utc (set_rx i (\<lambda>x. x\<lparr>buf := None, sn := (k + frames_after (length msg)) mod 16\<rparr>) c)"
  using assms
proof (induction pad k msg arbitrary: c x got rule: consecutive.induct)
  case (1 pad k msg)
  define h where "h = (word_of_nat (0x20 + k mod 16) :: 8 word)"
  have "unat h = 0x20 + k mod 16" unfolding h_def by (rule unat_small) simp
  with nibble_cf [of "k mod 16"] have h: "unat h div 16 = 2" "unat h mod 16 = k mod 16" by simp_all
  have sk: "sn x = k mod 16" and nx: "need x = length got + length msg" using 1 by simp_all
  show ?case
  proof (cases "length msg \<le> 7")
    case True
    have "1 \<le> length msg" using "1.prems" by (simp add: Suc_le_eq)
    then have fa: "frames_after (length msg) = 1" using True by (rule one_frame)
    have c: "consecutive pad k msg = [h # msg @ pad]"
      using True 1 by (subst consecutive.simps) (simp add: h_def)
    have fr: "rx_frame e i (h # msg @ pad) utc c = on_message e i (got @ msg) utc
        (set_rx i (\<lambda>x. x\<lparr>buf := None, sn := (k + 1) mod 16\<rparr>) c)"
    proof -
      have e: "set_rx i (\<lambda>x. x\<lparr>sn := (sn x + 1) mod 16, buf := None\<rparr>) c = set_rx i (\<lambda>x. x\<lparr>buf := None, sn := (k + 1) mod 16\<rparr>) c"
        using "1.prems"(2) sk by (intro set_rx_cong) (simp add: mod_Suc_eq)
      have "rx_frame e i (h # msg @ pad) utc c = on_message e i (got @ msg) utc (set_rx i (\<lambda>x. x\<lparr>sn := (sn x + 1) mod 16, buf := None\<rparr>) c)"
        using "1.prems"(1-3) h sk nx by (simp add: rx_frame_def consecutive_frame_def Let_def o_def)
      then show ?thesis by (simp only: e)
    qed
    show ?thesis unfolding c fa by (simp only: foldE.simps fr) (cases "on_message e i (got @ msg) utc (set_rx i (\<lambda>x. x\<lparr>buf := None, sn := (k + 1) mod 16\<rparr>) c)"; simp)
  next
    case False
    define c' where "c' = set_rx i (\<lambda>x. x\<lparr>buf := Some (got @ take 7 msg), sn := (k + 1) mod 16\<rparr>) c"
    have c: "consecutive pad k msg = (h # take 7 msg) # consecutive pad (k + 1) (drop 7 msg)"
      using False 1 by (subst consecutive.simps) (simp add: h_def)
    have fr: "rx_frame e i (h # take 7 msg) utc c = Inr c'"
    proof -
      have "c' = set_rx i (\<lambda>x. x\<lparr>buf := Some (got @ take 7 msg), sn := (sn x + 1) mod 16\<rparr>) c"
        unfolding c'_def using "1.prems"(2) sk by (intro set_rx_cong) (simp add: mod_Suc_eq)
      then show ?thesis
        using "1.prems"(1-3) h sk False nx by (simp add: rx_frame_def consecutive_frame_def Let_def)
    qed
    have fa: "frames_after (length msg) = 1 + frames_after (length (drop 7 msg))"
      using more_frames [of "length msg"] False by simp
    have "foldE (\<lambda>d. rx_frame e i d utc) (consecutive pad (k + 1) (drop 7 msg)) c'
       = on_message e i ((got @ take 7 msg) @ drop 7 msg) utc
           (set_rx i (\<lambda>x. x\<lparr>buf := None, sn := (k + 1 + frames_after (length (drop 7 msg))) mod 16\<rparr>) c')"
    proof (rule "1.IH")
      show "msg \<noteq> []" "\<not> length msg \<le> 7" "drop 7 msg \<noteq> []" using False by auto
      show "i < length (rxs c')" using 1 by (simp add: c'_def)
      show "rxs c' ! i = x\<lparr>buf := Some (got @ take 7 msg), sn := (k + 1) mod 16\<rparr>" using 1 by (simp add: c'_def)
      show "buf (x\<lparr>buf := Some (got @ take 7 msg), sn := (k + 1) mod 16\<rparr>) = Some (got @ take 7 msg)"
        "need (x\<lparr>buf := Some (got @ take 7 msg), sn := (k + 1) mod 16\<rparr>) = length ((got @ take 7 msg) @ drop 7 msg)"
        "sn (x\<lparr>buf := Some (got @ take 7 msg), sn := (k + 1) mod 16\<rparr>) = (k + 1) mod 16"
        using nx by simp_all
    qed
    then show ?thesis unfolding c fa by (simp add: fr c'_def o_def)
  qed
qed

lemma segments_reassembled:
  assumes "i < length (rxs c)" and "8 \<le> length msg" and "length msg < 4096"
  shows "foldE (\<lambda>d. rx_frame e i d utc) (segment pad msg) c
    = on_message e i msg utc
        (set_rx i (\<lambda>x. x\<lparr>started := True, quiet := False, need := length msg, buf := None,
                        sn := (1 + frames_after (length msg - 6)) mod 16\<rparr>) (abandon e i utc c))"
proof -
  define d where "d = (word_of_nat (0x10 + length msg div 256) # word_of_nat (length msg mod 256) # take 6 msg :: bytes)"
  have q: "length msg div 256 < 16" using assms(3) by simp
  have "unat (word_of_nat (0x10 + length msg div 256) :: 8 word) = 0x10 + length msg div 256"
    by (rule unat_small) (use q in linarith)
  moreover have "unat (word_of_nat (length msg mod 256) :: 8 word) = length msg mod 256"
    by (rule unat_small) simp
  ultimately have h: "unat (d ! 0) = 0x10 + length msg div 256" "unat (d ! 1) = length msg mod 256" unfolding d_def by simp_all
  have n: "unat (d ! 0) mod 16 * 256 + unat (d ! 1) = length msg" unfolding h using q by simp
  have p: "unat (hd d) div 16 = 1" using h q by (simp add: d_def)
  have ld: "length d = 8" using assms(2) by (simp add: d_def)
  define c1 where "c1 = set_rx i (\<lambda>x. x\<lparr>started := True, quiet := False, buf := Some (take 6 msg), need := length msg, sn := 1\<rparr>) (abandon e i utc c)"
  have fr: "rx_frame e i d utc c = Inr c1"
    using n p ld assms(2) by (simp add: rx_frame_def first_frame_def Let_def begin_message_def c1_def o_def) (simp add: d_def)
  have i1: "i < length (rxs c1)" using assms(1) by (simp add: c1_def rxs_abandon)
  have x1: "rxs c1 ! i = (rxs (abandon e i utc c) ! i)\<lparr>started := True, quiet := False, buf := Some (take 6 msg), need := length msg, sn := 1\<rparr>"
    using assms(1) by (simp add: c1_def rxs_abandon)
  have "foldE (\<lambda>d. rx_frame e i d utc) (consecutive pad 1 (drop 6 msg)) c1
     = on_message e i (take 6 msg @ drop 6 msg) utc
         (set_rx i (\<lambda>x. x\<lparr>buf := None, sn := (1 + frames_after (length (drop 6 msg))) mod 16\<rparr>) c1)"
    by (rule consecutive_run [OF i1 x1]) (use assms(2) in simp_all)
  then show ?thesis
    unfolding segment_def d_def [symmetric] foldE.simps fr bindE_simps by (simp add: c1_def o_def)
qed

section \<open>The receiver as a state machine\<close>

text \<open>The specification: what ISO-TP reception is, without counters, events or requests.\<close>

datatype receiver = Idle | Receiving bytes nat nat

definition pci :: "bytes \<Rightarrow> nat" where
  "pci d = unat (hd d) div 16"

definition nibble :: "bytes \<Rightarrow> nat" where
  "nibble d = unat (hd d) mod 16"

definition first_length :: "bytes \<Rightarrow> nat" where
  "first_length d = (if length d \<ge> 2 then unat (d ! 0) mod 16 * 256 + unat (d ! 1) else 0)"

definition is_single :: "bytes \<Rightarrow> bool" where
  "is_single d \<longleftrightarrow> pci d = 0 \<and> 1 \<le> nibble d \<and> nibble d \<le> length d - 1"

definition is_first :: "bytes \<Rightarrow> bool" where
  "is_first d \<longleftrightarrow> pci d = 1 \<and> 8 \<le> first_length d \<and> 8 \<le> length d"

definition is_cf :: "bytes \<Rightarrow> bool" where
  "is_cf d \<longleftrightarrow> pci d = 2"

inductive isotp :: "receiver \<Rightarrow> bytes \<Rightarrow> bytes option \<Rightarrow> receiver \<Rightarrow> bool" where
  Single: "is_single d \<Longrightarrow> isotp s d (Some (take (nibble d) (tl d))) Idle"
| First: "is_first d \<Longrightarrow> isotp s d None (Receiving (drop 2 d) (first_length d) 1)"
| More: "is_cf d \<Longrightarrow> nibble d = k \<Longrightarrow> length (got @ tl d) < n \<Longrightarrow>
    isotp (Receiving got n k) d None (Receiving (got @ tl d) n ((k + 1) mod 16))"
| Last: "is_cf d \<Longrightarrow> nibble d = k \<Longrightarrow> length (got @ tl d) \<ge> n \<Longrightarrow>
    isotp (Receiving got n k) d (Some (take n (got @ tl d))) Idle"
| Lost: "is_cf d \<Longrightarrow> nibble d \<noteq> k \<Longrightarrow> isotp (Receiving got n k) d None Idle"
| Orphan: "is_cf d \<Longrightarrow> isotp Idle d None Idle"
| Skip: "\<not> is_single d \<Longrightarrow> \<not> is_first d \<Longrightarrow> \<not> is_cf d \<Longrightarrow> isotp s d None s"

inductive_cases isotp_to_receiving: "isotp s d m (Receiving got n k)"

definition receiver_of :: "rx \<Rightarrow> receiver" where
  "receiver_of x = (case buf x of None \<Rightarrow> Idle | Some b \<Rightarrow> Receiving b (need x) (sn x))"

text \<open>A message changes nothing of the receiver but the request it answers.\<close>

lemma foldE_inv:
  assumes "\<And>x b b'. P b \<Longrightarrow> f x b = Inr b' \<Longrightarrow> P b'"
  shows "P b \<Longrightarrow> foldE f xs b = Inr b' \<Longrightarrow> P b'"
  by (induction xs arbitrary: b) (auto simp: err_simps dest: assms)

lemma rxs_on_value [simp]: "rxs (snd (on_value e i utc st name v t tc)) = rxs (snd tc)"
  by (simp add: on_value_def split: prod.split option.split)

lemma rxs_on_text [simp]: "rxs (on_text msg utc f name start c) = rxs c"
  by (simp add: on_text_def Let_def)

lemma rxs_on_element: "on_element e i msg utc st f base k tc = Inr tc' \<Longrightarrow> rxs (snd tc') = rxs (snd tc)"
  by (auto simp: on_element_def Let_def err_simps split: if_splits)

lemma rxs_on_field: "on_field e i gi msg utc fif tc = Inr tc' \<Longrightarrow> rxs (snd tc') = rxs (snd tc)"
  unfolding on_field_def
  by (rule foldE_inv [where P = "\<lambda>t. rxs (snd t) = rxs (snd tc)"]) (auto dest: rxs_on_element)

lemma rxs_on_group: "on_group e i gi msg utc c = Inr c' \<Longrightarrow> rxs c' = rxs c"
proof -
  assume "on_group e i gi msg utc c = Inr c'"
  then obtain tc where t: "foldE (on_field e i gi msg utc) (enumerate 0 (g_fields (e_groups (ue_ecu e) ! gi))) ((0, 0, False), c) = Inr tc"
    and c': "rxs c' = rxs (snd tc)"
    by (auto simp: on_group_def Let_def err_simps split: prod.splits if_splits)
  have "rxs (snd tc) = rxs c"
    by (rule foldE_inv [where P = "\<lambda>t. rxs (snd t) = rxs c", OF _ _ t]) (auto dest: rxs_on_field)
  with c' show ?thesis by simp
qed

lemma receiver_request [simp]: "receiver_of (x\<lparr>request := r\<rparr>) = receiver_of x"
  by (cases "buf x") (simp_all add: receiver_of_def)

lemma on_message_receiver:
  assumes "on_message e i msg utc c = Inr c'" and "i < length (rxs c)"
  shows "receiver_of (rxs c' ! i) = receiver_of (rxs c ! i)" "length (rxs c') = length (rxs c)"
proof -
  have "receiver_of (rxs c' ! i) = receiver_of (rxs c ! i) \<and> length (rxs c') = length (rxs c)"
  proof (cases "msg ! 0 = 0x7F")
    case True
    with assms show ?thesis by (auto simp: on_message_def Let_def split: if_splits)
  next
    case False
    show ?thesis
    proof (cases "length msg \<ge> 3 \<and> msg ! 0 = 0x59 \<and> msg ! 1 = 0x02")
      case True
      with assms show ?thesis by (auto simp: on_message_def Let_def split: if_splits)
    next
      case F2: False
      with False assms show ?thesis
        by (auto simp: on_message_def Let_def dest!: rxs_on_group split: option.splits)
    qed
  qed
  then show "receiver_of (rxs c' ! i) = receiver_of (rxs c ! i)" "length (rxs c') = length (rxs c)" by simp_all
qed

text \<open>What a frame delivers: a message is handled exactly once, on a state with the receiver's
  request and the named states and fault records it had; without one none of those change.\<close>

definition delivers :: "uds_ecu \<Rightarrow> nat \<Rightarrow> int option \<Rightarrow> bytes option \<Rightarrow> chunk \<Rightarrow> chunk \<Rightarrow> bool" where
  "delivers e i utc m c c' \<longleftrightarrow>
     (case m of
        None \<Rightarrow> states c' = states c \<and> dtcs c' = dtcs c
      | Some msg \<Rightarrow> \<exists>c0. on_message e i msg utc c0 = Inr c' \<and> states c0 = states c \<and> dtcs c0 = dtcs c \<and>
          request (rxs c0 ! i) = request (rxs c ! i))"

lemma states_frame [simp]:
  "states (bump k c) = states c" "dtcs (bump k c) = dtcs c"
  "states (emit e utc kind name v t d c) = states c" "dtcs (emit e utc kind name v t d c) = dtcs c"
  "states (set_rx i f c) = states c" "dtcs (set_rx i f c) = dtcs c"
  by (simp_all add: bump_def emit_def set_rx_def)

lemma states_abandon [simp]:
  "states (abandon e i utc c) = states c" "dtcs (abandon e i utc c) = dtcs c"
  by (simp_all add: abandon_def split: option.split)

lemma rx_frame_step:
  assumes r: "rx_frame e i d utc c = Inr c'" and i: "i < length (rxs c)" and d: "d \<noteq> []"
  shows "\<exists>m. isotp (receiver_of (rxs c ! i)) d m (receiver_of (rxs c' ! i)) \<and> delivers e i utc m c c'"
proof -
  have fl: "(if length d \<ge> 2 then unat (d ! 0) mod 16 * 256 + unat (d ! 1) else 0) = first_length d"
    by (simp add: first_length_def)
  consider "pci d = 0" | "pci d = 1" | "pci d = 2" | "pci d > 2" by linarith
  then show ?thesis
  proof cases
    case 1
    then have sf: "single_frame e i d utc c = Inr c'" using r by (simp add: rx_frame_def pci_def)
    show ?thesis
    proof (cases "is_single d")
      case True
      then have om: "on_message e i (take (nibble d) (tl d)) utc (begin_message i (abandon e i utc c)) = Inr c'"
        using sf by (auto simp: single_frame_def Let_def is_single_def nibble_def split: if_splits)
      have "receiver_of (rxs c' ! i) = Idle"
        using on_message_receiver(1) [OF om] i by (simp add: begin_message_def rxs_abandon receiver_of_def)
      moreover have "delivers e i utc (Some (take (nibble d) (tl d))) c c'"
        using om i by (auto simp: delivers_def begin_message_def rxs_abandon)
      ultimately show ?thesis using isotp.Single [OF True] by metis
    next
      case False
      then have "nibble d = 0 \<or> nibble d > length d - 1" using 1 by (auto simp: is_single_def)
      then have "c' = bump ''bad frames'' c" using sf by (auto simp: single_frame_def Let_def nibble_def split: if_splits)
      with isotp.Skip [OF False] 1 show ?thesis by (intro exI [of _ None]) (auto simp: is_first_def is_cf_def delivers_def)
    qed
  next
    case 2
    then have ff: "first_frame e i d utc c = c'" using r by (simp add: rx_frame_def pci_def)
    show ?thesis
    proof (cases "is_first d")
      case True
      then have "first_length d = unat (d ! 0) mod 16 * 256 + unat (d ! Suc 0)" by (simp add: is_first_def first_length_def)
      with True have "receiver_of (rxs c' ! i) = Receiving (drop 2 d) (first_length d) 1"
        using ff i by (auto simp: first_frame_def Let_def fl is_first_def begin_message_def rxs_abandon receiver_of_def)
      moreover have "delivers e i utc None c c'"
        using ff by (auto simp: delivers_def first_frame_def Let_def begin_message_def)
      ultimately show ?thesis using isotp.First [OF True] by metis
    next
      case False
      then have "c' = bump ''bad frames'' c" using ff 2 by (auto simp: first_frame_def Let_def fl is_first_def split: if_splits)
      with isotp.Skip [OF _ False] 2 show ?thesis by (intro exI [of _ None]) (auto simp: is_single_def is_cf_def delivers_def)
    qed
  next
    case 3
    then have cf: "consecutive_frame e i d utc c = Inr c'" "is_cf d" using r by (simp_all add: rx_frame_def pci_def is_cf_def)
    show ?thesis
    proof (cases "buf (rxs c ! i)")
      case None
      then have "receiver_of (rxs c' ! i) = Idle"
        using cf(1) i by (auto simp: consecutive_frame_def Let_def receiver_of_def split: if_splits)
      moreover have "delivers e i utc None c c'"
        using cf(1) None by (auto simp: delivers_def consecutive_frame_def Let_def split: if_splits)
      ultimately show ?thesis using None isotp.Orphan [OF cf(2)] by (intro exI [of _ None]) (simp add: receiver_of_def)
    next
      case (Some b)
      define x where "x = rxs c ! i"
      have s: "receiver_of (rxs c ! i) = Receiving b (need x) (sn x)" using Some by (simp add: receiver_of_def x_def)
      show ?thesis
      proof (cases "nibble d = sn x")
        case False
        then have "receiver_of (rxs c' ! i) = Idle"
          using cf(1) i Some by (auto simp: consecutive_frame_def Let_def receiver_of_def nibble_def x_def)
        moreover have "delivers e i utc None c c'"
          using cf(1) Some False by (auto simp: delivers_def consecutive_frame_def Let_def nibble_def x_def)
        ultimately show ?thesis using s isotp.Lost [OF cf(2) False] by metis
      next
        case True
        then have n: "unat (hd d) mod 16 = sn (rxs c ! i)" by (simp add: nibble_def x_def)
        define c1 where "c1 = set_rx i (\<lambda>x. x\<lparr>buf := Some (b @ tl d), sn := (sn x + 1) mod 16\<rparr>) c"
        have c1: "consecutive_frame e i d utc c = (if need x \<le> length (b @ tl d)
            then on_message e i (take (need x) (b @ tl d)) utc (set_rx i (\<lambda>x. x\<lparr>buf := None\<rparr>) c1) else Inr c1)"
          using Some n by (simp add: consecutive_frame_def Let_def c1_def x_def del: set_rx_twice)
        show ?thesis
        proof (cases "need x \<le> length (b @ tl d)")
          case True': True
          have om: "on_message e i (take (need x) (b @ tl d)) utc (set_rx i (\<lambda>x. x\<lparr>buf := None\<rparr>) c1) = Inr c'"
            using cf(1) True' c1 by simp
          have "receiver_of (rxs c' ! i) = Idle"
            using on_message_receiver(1) [OF om] i by (simp add: c1_def receiver_of_def)
          moreover have "delivers e i utc (Some (take (need x) (b @ tl d))) c c'"
            unfolding delivers_def option.case
            by (rule exI [of _ "set_rx i (\<lambda>x. x\<lparr>buf := None\<rparr>) c1"], use om i in \<open>simp add: c1_def\<close>)
          ultimately show ?thesis using s isotp.Last [OF cf(2) True True'] by metis
        next
          case False
          then have "c' = c1" using cf(1) c1 by simp
          then have "receiver_of (rxs c' ! i) = Receiving (b @ tl d) (need x) ((sn x + 1) mod 16)"
            using i by (simp add: c1_def receiver_of_def x_def)
          moreover have "delivers e i utc None c c'" using \<open>c' = c1\<close> by (simp add: delivers_def c1_def)
          ultimately show ?thesis using s isotp.More [OF cf(2) True, of b "need x"] False by (metis not_le)
        qed
      qed
    qed
  next
    case 4
    then have "rxs c' = rxs c" "delivers e i utc None c c'"
      using r by (auto simp: rx_frame_def pci_def delivers_def split: if_splits)
    with 4 isotp.Skip [of d] show ?thesis
      by (intro exI [of _ None]) (auto simp: is_single_def is_first_def is_cf_def)
  qed
qed

text \<open>Runs of the specification, and what a transfer in progress was made of.\<close>

inductive isotp_run :: "bytes list \<Rightarrow> receiver \<Rightarrow> bool" where
  Start: "isotp_run [] Idle"
| Step: "isotp_run ds s \<Longrightarrow> isotp s d m s' \<Longrightarrow> isotp_run (ds @ [d]) s'"

definition made_of :: "bytes list \<Rightarrow> bytes \<Rightarrow> nat \<Rightarrow> nat \<Rightarrow> bool" where
  "made_of ds got n k \<longleftrightarrow>
     (\<exists>pre f rest. ds = pre @ f # rest \<and> is_first f \<and> n = first_length f \<and>
        (\<forall>d\<in>set rest. \<not> is_single d \<and> \<not> is_first d) \<and>
        map nibble (filter is_cf rest) = map (\<lambda>j. (j + 1) mod 16) [0..<length (filter is_cf rest)] \<and>
        k = (length (filter is_cf rest) + 1) mod 16 \<and>
        got = drop 2 f @ concat (map tl (filter is_cf rest)))"

lemma kind_excl: "is_cf d \<Longrightarrow> \<not> is_single d \<and> \<not> is_first d"
  by (auto simp: is_cf_def is_single_def is_first_def)

lemma made_of_more:
  assumes "made_of ds got n k" and "is_cf d" and "nibble d = k"
  shows "made_of (ds @ [d]) (got @ tl d) n ((k + 1) mod 16)"
proof -
  from assms(1) obtain pre f rest where h: "ds = pre @ f # rest" "is_first f" "n = first_length f"
      "\<forall>d\<in>set rest. \<not> is_single d \<and> \<not> is_first d"
      "map nibble (filter is_cf rest) = map (\<lambda>j. (j + 1) mod 16) [0..<length (filter is_cf rest)]"
      "k = (length (filter is_cf rest) + 1) mod 16" "got = drop 2 f @ concat (map tl (filter is_cf rest))"
    by (auto simp: made_of_def)
  show ?thesis
    unfolding made_of_def
    by (rule exI [of _ pre], rule exI [of _ f], rule exI [of _ "rest @ [d]"])
      (use h assms(2,3) kind_excl [OF assms(2)] in \<open>auto simp: mod_Suc_eq\<close>)
qed

lemma made_of_skip:
  assumes "made_of ds got n k" and "\<not> is_single d" "\<not> is_first d" "\<not> is_cf d"
  shows "made_of (ds @ [d]) got n k"
proof -
  from assms(1) obtain pre f rest where h: "ds = pre @ f # rest" "is_first f" "n = first_length f"
      "\<forall>d\<in>set rest. \<not> is_single d \<and> \<not> is_first d"
      "map nibble (filter is_cf rest) = map (\<lambda>j. (j + 1) mod 16) [0..<length (filter is_cf rest)]"
      "k = (length (filter is_cf rest) + 1) mod 16" "got = drop 2 f @ concat (map tl (filter is_cf rest))"
    by (auto simp: made_of_def)
  show ?thesis
    unfolding made_of_def
    by (rule exI [of _ pre], rule exI [of _ f], rule exI [of _ "rest @ [d]"]) (use h assms in auto)
qed

lemma run_made_of: "isotp_run ds s \<Longrightarrow> s = Receiving got n k \<Longrightarrow> made_of ds got n k"
proof (induction arbitrary: got n k rule: isotp_run.induct)
  case Start
  then show ?case by simp
next
  case (Step ds s d m s')
  from Step.hyps(2) have "isotp s d m (Receiving got n k)" by (simp only: Step.prems)
  then show ?case
  proof (rule isotp_to_receiving)
    assume "is_first d" "got = drop 2 d" "n = first_length d" "k = Suc 0"
    then show ?thesis
      unfolding made_of_def by (intro exI [of _ ds] exI [of _ d] exI [of _ "[]"]) auto
  next
    fix k' got'
    assume "s = Receiving got' n (nibble d)" "is_cf d" "got = got' @ tl d" "k = Suc (nibble d) mod 16"
    then show ?thesis using Step.IH made_of_more [of ds got' n "nibble d" d] by simp
  next
    assume "Receiving got n k = s" "\<not> is_single d" "\<not> is_first d" "\<not> is_cf d"
    then show ?thesis using Step.IH made_of_skip by simp
  qed
qed

section \<open>What a transfer in progress was made of\<close>

lemma rxs_length_message: "on_message e i msg utc c = Inr c' \<Longrightarrow> length (rxs c') = length (rxs c)"
  by (auto simp: on_message_def Let_def dest!: rxs_on_group split: if_splits option.splits)

lemma rx_frames_run:
  "foldE (\<lambda>d. rx_frame e i d utc) ds c = Inr c' \<Longrightarrow> i < length (rxs c) \<Longrightarrow> [] \<notin> set ds \<Longrightarrow>
   isotp_run pre (receiver_of (rxs c ! i)) \<Longrightarrow> isotp_run (pre @ ds) (receiver_of (rxs c' ! i))"
proof (induction ds arbitrary: c pre)
  case Nil
  then show ?case by simp
next
  case (Cons d ds)
  then obtain c1 where c1: "rx_frame e i d utc c = Inr c1" and r: "foldE (\<lambda>d. rx_frame e i d utc) ds c1 = Inr c'"
    by (auto simp: err_simps)
  have "d \<noteq> []" using Cons.prems(3) by auto
  from rx_frame_step [OF c1 Cons.prems(2) this] obtain m where
    "isotp (receiver_of (rxs c ! i)) d m (receiver_of (rxs c1 ! i))" by blast
  with Cons.prems(4) have run: "isotp_run (pre @ [d]) (receiver_of (rxs c1 ! i))" by (rule isotp_run.Step)
  have len: "length (rxs c1) = length (rxs c)"
    using c1 by (auto simp: rx_frame_def single_frame_def first_frame_def consecutive_frame_def begin_message_def Let_def
        rxs_abandon dest!: rxs_length_message split: if_splits option.splits)
  show ?case using Cons.IH [OF r _ _ run] Cons.prems(2,3) len by simp
qed

section \<open>The properties of reassembly\<close>

text \<open>An ECU to try things on.\<close>

definition try_group :: group_rec where
  "try_group = mk_group ''G'' [0x22, 0xF1, 0x90]
     [\<lparr>f_name = ''F'', bit_pos = 24, bit_size = 8, f_unit = [], f_signed = False, byteswap = False, f_ascii = False,
       hexdump = False, f_scales = [], repeat_count = 1, repeat_stride = 0\<rparr>] [] True False 3"

definition try_ecu :: uds_ecu where
  "try_ecu = \<lparr>ue_label = ''can0'', ue_ecu = \<lparr>e_name = ''ECU'', request_id = 0x7E0, response_id = 0x7E8,
      extended_id = False, block_size = 8, st_min_raw = 0, p2_ms = 50, p2_ext_ms = 5000, e_groups = [try_group]\<rparr>,
     answers = [([0x62, 0xF1, 0x90], 0)], prefix_lengths = [3], ue_names = [((0, 0), ''ECU.G.F'')], dtc_texts = [],
     state_fields = [[False]]\<rparr>"

text \<open>
  C5: frame by frame the receiver is ISO-TP.  Whatever its events, counters and requests, the
  reception state of the ECU a frame is for moves as the specification says, and the answer handled
  is the one the specification delivers; an aborted, orphaned or torn transfer delivers nothing.
\<close>

theorem rx_frame_refines:
  assumes "rx_frame e i d utc c = Inr c'" and "i < length (rxs c)" and "d \<noteq> []"
  shows "\<exists>m. isotp (receiver_of (rxs c ! i)) d m (receiver_of (rxs c' ! i)) \<and> delivers e i utc m c c'"
  using assms by (rule rx_frame_step)

theorem rx_frame_refines_witness:
  "\<exists>c' m. rx_frame try_ecu 0 [0x10, 0x0A, 0x62, 0xF1, 0x90, 1, 2, 3] None (new_chunk [try_ecu]) = Inr c' \<and>
     isotp Idle [0x10, 0x0A, 0x62, 0xF1, 0x90, 1, 2, 3] m (receiver_of (rxs c' ! 0))"
proof -
  define c' where "c' = first_frame try_ecu 0 [0x10, 0x0A, 0x62, 0xF1, 0x90, 1, 2, 3] None (new_chunk [try_ecu])"
  have r: "rx_frame try_ecu 0 [0x10, 0x0A, 0x62, 0xF1, 0x90, 1, 2, 3] None (new_chunk [try_ecu]) = Inr c'"
    by (simp add: rx_frame_def c'_def)
  have "receiver_of (rxs (new_chunk [try_ecu]) ! 0) = Idle" by (simp add: new_chunk_def new_rx_def receiver_of_def)
  with r rx_frame_refines [OF r] show ?thesis by (auto simp: new_chunk_def)
qed

text \<open>
  C6: a segmented answer is reassembled.  Feeding the frames of an answer of 8 to 4095 bytes, cut
  the way ISO-TP cuts it and with any padding, is handling that very answer once, on a receiver that
  is free again; a transfer the first frame interrupts is reported and dropped.
\<close>

theorem isotp_roundtrip:
  assumes "i < length (rxs c)" and "8 \<le> length msg" and "length msg < 4096"
  shows "foldE (\<lambda>d. rx_frame e i d utc) (segment pad msg) c
    = on_message e i msg utc
        (set_rx i (\<lambda>x. x\<lparr>started := True, quiet := False, need := length msg, buf := None,
                        sn := (1 + frames_after (length msg - 6)) mod 16\<rparr>) (abandon e i utc c))"
  using assms by (rule segments_reassembled)

theorem isotp_roundtrip_witness:
  "segment [0xAA] [0x62, 0xF1, 0x90, 1, 2, 3, 4, 5, 6] = [[0x10, 9, 0x62, 0xF1, 0x90, 1, 2, 3], [0x21, 4, 5, 6, 0xAA]] \<and>
   foldE (\<lambda>d. rx_frame try_ecu 0 d None) (segment [0xAA] [0x62, 0xF1, 0x90, 1, 2, 3, 4, 5, 6]) (new_chunk [try_ecu])
    = on_message try_ecu 0 [0x62, 0xF1, 0x90, 1, 2, 3, 4, 5, 6] None
        (set_rx 0 (\<lambda>x. x\<lparr>started := True, quiet := False, need := 9, buf := None, sn := 2\<rparr>) (new_chunk [try_ecu]))"
proof
  let ?msg = "[0x62, 0xF1, 0x90, 1, 2, 3, 4, 5, 6] :: bytes"
  show "segment [0xAA] ?msg = [[0x10, 9, 0x62, 0xF1, 0x90, 1, 2, 3], [0x21, 4, 5, 6, 0xAA]]"
    by (simp add: segment_def consecutive.simps)
  have len: "length ?msg = 9" by simp
  have sn: "(1 + frames_after (9 - 6)) mod 16 = 2" by (simp add: frames_after_def)
  have free: "abandon try_ecu 0 None (new_chunk [try_ecu]) = new_chunk [try_ecu]"
    by (simp add: abandon_def new_chunk_def new_rx_def)
  from isotp_roundtrip [of 0 "new_chunk [try_ecu]" ?msg try_ecu None "[0xAA]", unfolded len sn free]
  show "foldE (\<lambda>d. rx_frame try_ecu 0 d None) (segment [0xAA] ?msg) (new_chunk [try_ecu])
    = on_message try_ecu 0 ?msg None
        (set_rx 0 (\<lambda>x. x\<lparr>started := True, quiet := False, need := 9, buf := None, sn := 2\<rparr>) (new_chunk [try_ecu]))"
    by (simp add: new_chunk_def)
qed

text \<open>
  C22: a transfer in progress is the transfer that was sent.  After any frames on a new receiver,
  bytes are held only as the payloads of one first frame and of the consecutive frames after it,
  their sequence numbers counting up from one without a gap, no other message having begun.
\<close>

theorem reassembly_sound:
  assumes "foldE (\<lambda>d. rx_frame e i d utc) ds (new_chunk es) = Inr c" and "i < length es" and "[] \<notin> set ds"
    and "buf (rxs c ! i) = Some got"
  shows "made_of ds got (need (rxs c ! i)) (sn (rxs c ! i))"
proof -
  have "isotp_run [] (receiver_of (rxs (new_chunk es) ! i))"
    using assms(2) by (simp add: new_chunk_def new_rx_def receiver_of_def isotp_run.Start)
  then have "isotp_run ([] @ ds) (receiver_of (rxs c ! i))"
    by (intro rx_frames_run [OF assms(1) _ assms(3)]) (use assms(2) in \<open>simp add: new_chunk_def\<close>)
  then show ?thesis using run_made_of assms(4) by (simp add: receiver_of_def)
qed

theorem reassembly_sound_witness:
  "\<exists>c. foldE (\<lambda>d. rx_frame try_ecu 0 d None) [[0x10, 0x0A, 0x62, 0xF1, 0x90, 1, 2, 3]] (new_chunk [try_ecu]) = Inr c \<and>
     made_of [[0x10, 0x0A, 0x62, 0xF1, 0x90, 1, 2, 3]] [0x62, 0xF1, 0x90, 1, 2, 3] (need (rxs c ! 0)) (sn (rxs c ! 0))"
proof -
  define c where "c = first_frame try_ecu 0 [0x10, 0x0A, 0x62, 0xF1, 0x90, 1, 2, 3] None (new_chunk [try_ecu])"
  have r: "foldE (\<lambda>d. rx_frame try_ecu 0 d None) [[0x10, 0x0A, 0x62, 0xF1, 0x90, 1, 2, 3]] (new_chunk [try_ecu]) = Inr c"
    by (simp add: rx_frame_def c_def)
  have "buf (rxs c ! 0) = Some [0x62, 0xF1, 0x90, 1, 2, 3]"
    by (simp add: c_def first_frame_def begin_message_def new_chunk_def new_rx_def abandon_def)
  with r reassembly_sound [OF r] show ?thesis by simp
qed

end
