(* ===== verification/UdsFacts.thy ===== *)
theory UdsFacts
  imports UdsTransfer CatalogTrip
begin

text \<open>
  What \<open>script/sdlog_uds.py\<close> promises its callers: fault events are the changes between two answers,
  an answer belongs to the group of its longest prefix, signal names are unique, ids are routed to
  one ECU each, and feeding frames never raises.
\<close>

section \<open>Fault events\<close>

fun event_name :: "emitted \<Rightarrow> string" where
  "event_name (Event utc src kind name v t d) = name"
| "event_name (Signal name utc v t) = name"

fun is_kind :: "string \<Rightarrow> emitted \<Rightarrow> bool" where
  "is_kind k (Event utc src kind name v t d) = (kind = k)"
| "is_kind k (Signal name utc v t) = False"

lemma dtc_seen_fold:
  "emissions (fold (dtc_seen e utc p) cs c) = emissions c @
     map (\<lambda>(code, st). Event utc (e_name (ue_ecu e)) ''dtc'' code (py_float (int st)) (dtc_text e code) (the (dtc_detail p code st)))
       (filter (\<lambda>(code, st). dtc_detail p code st \<noteq> None) cs)"
proof (induction cs arbitrary: c)
  case Nil
  then show ?case by simp
next
  case (Cons x cs)
  then show ?case by (cases x) (auto simp: dtc_seen_def emit_def)
qed

lemma dtc_gone_fold:
  "emissions (fold (dtc_gone e utc cur) codes c) = emissions c @
     map (\<lambda>code. Event utc (e_name (ue_ecu e)) ''dtc'' code (Fin 0) (dtc_text e code) ''cleared'')
       (filter (\<lambda>code. map_of cur code = None) codes)"
  by (induction codes arbitrary: c) (auto simp: dtc_gone_def emit_def)

lemma dtcs_frame [simp]:
  "dtcs (bump k c) = dtcs c" "dtcs (emit e utc kind name v t d c) = dtcs c" "emissions (bump k c) = emissions c"
  "dtcs (fold (dtc_seen e utc p) cs c) = dtcs c" "dtcs (fold (dtc_gone e utc cur) codes c) = dtcs c"
proof -
  show b: "dtcs (bump k c) = dtcs c" "dtcs (emit e utc kind name v t d c) = dtcs c" "emissions (bump k c) = emissions c"
    by (simp_all add: bump_def emit_def)
  show "dtcs (fold (dtc_seen e utc p) cs c) = dtcs c"
    by (induction cs arbitrary: c) (simp_all add: dtc_seen_def emit_def split: option.split)
  show "dtcs (fold (dtc_gone e utc cur) codes c) = dtcs c"
    by (induction codes arbitrary: c) (simp_all add: dtc_gone_def emit_def)
qed

lemma dtc_records_distinct: "distinct (map fst ds) \<Longrightarrow> distinct (map fst (dtc_records bs ds))"
  by (induction bs ds rule: dtc_records.induct) (simp_all add: distinct_assoc_put)

lemma on_dtcs_changes:
  fixes e utc msg
  assumes p: "map_of (dtcs c ! i) req = Some prev" and d: "distinct (map fst prev)" and i: "i < length (dtcs c)"
  defines "c' \<equiv> on_dtcs e i msg utc req c" and "cur \<equiv> dtc_records (drop 3 msg) []"
  shows "\<exists>evs. emissions c' = emissions c @ evs \<and> (\<forall>ev\<in>set evs. is_kind ''dtc'' ev) \<and>
      distinct (map event_name evs) \<and> set (map event_name evs) = {code. map_of prev code \<noteq> map_of cur code} \<and>
      map_of (dtcs c' ! i) req = Some cur \<and> distinct (map fst cur)"
proof -
  have dc: "distinct (map fst cur)" by (simp add: cur_def dtc_records_distinct)
  define seen where "seen = filter (\<lambda>(code, st). dtc_detail (Some prev) code st \<noteq> None) cur"
  define gone where "gone = filter (\<lambda>code. map_of cur code = None) (map fst prev)"
  define evs where "evs = map (\<lambda>(code, st). Event utc (e_name (ue_ecu e)) ''dtc'' code (py_float (int st)) (dtc_text e code)
        (the (dtc_detail (Some prev) code st))) seen
     @ map (\<lambda>code. Event utc (e_name (ue_ecu e)) ''dtc'' code (Fin 0) (dtc_text e code) ''cleared'') gone"
  have em: "emissions c' = emissions c @ evs"
    by (simp add: c'_def on_dtcs_def Let_def p dtc_seen_fold dtc_gone_fold evs_def seen_def gone_def cur_def)
  have names: "map event_name evs = map fst seen @ gone"
    by (simp add: evs_def o_def case_prod_unfold)
  have sub: "distinct (map fst seen)" unfolding seen_def using dc by (rule distinct_map_filter)
  have gone_set: "set gone = {code. map_of prev code \<noteq> None \<and> map_of cur code = None}"
    by (auto simp: gone_def map_of_eq_None_iff image_iff)
  have det: "dtc_detail (Some prev) code st \<noteq> None \<longleftrightarrow> map_of prev code \<noteq> Some st" for code st
    by (simp add: dtc_detail_def split: option.split)
  have seen_set: "set (map fst seen) = {code. map_of cur code \<noteq> None \<and> map_of prev code \<noteq> map_of cur code}"
  proof (rule set_eqI)
    fix code
    have "code \<in> set (map fst seen) \<longleftrightarrow> (\<exists>st. (code, st) \<in> set cur \<and> map_of prev code \<noteq> Some st)"
      unfolding seen_def det by (auto simp: image_iff)
    also have "\<dots> \<longleftrightarrow> (\<exists>st. map_of cur code = Some st \<and> map_of prev code \<noteq> Some st)"
      by (simp only: map_of_eq_Some_iff [OF dc])
    also have "\<dots> \<longleftrightarrow> code \<in> {code. map_of cur code \<noteq> None \<and> map_of prev code \<noteq> map_of cur code}" by auto
    finally show "code \<in> set (map fst seen) \<longleftrightarrow> code \<in> {code. map_of cur code \<noteq> None \<and> map_of prev code \<noteq> map_of cur code}" .
  qed
  have "distinct (map event_name evs)"
    unfolding names using sub d gone_set seen_set by (auto simp: gone_def)
  moreover have "set (map event_name evs) = {code. map_of prev code \<noteq> map_of cur code}"
  proof (rule set_eqI)
    fix x
    have "x \<in> set (map event_name evs) \<longleftrightarrow> (map_of cur x \<noteq> None \<and> map_of prev x \<noteq> map_of cur x) \<or> (map_of prev x \<noteq> None \<and> map_of cur x = None)"
      unfolding names set_append seen_set gone_set by blast
    then show "x \<in> set (map event_name evs) \<longleftrightarrow> x \<in> {code. map_of prev code \<noteq> map_of cur code}"
      by (cases "map_of cur x"; cases "map_of prev x") simp_all
  qed
  moreover have "\<forall>ev\<in>set evs. is_kind ''dtc'' ev" by (auto simp: evs_def)
  moreover have "map_of (dtcs c' ! i) req = Some cur"
    using i by (simp add: c'_def on_dtcs_def Let_def cur_def)
  ultimately show ?thesis using em dc by blast
qed

section \<open>The answer lookup\<close>

lemma build_answers_lookup:
  "map_of (build_answers ans gi gs) k =
     (case map_of ans k of Some g \<Rightarrow> Some g | None \<Rightarrow> index_where (\<lambda>g. answer_prefix g = k) gi gs)"
proof (induction gs arbitrary: ans gi)
  case Nil
  then show ?case by (simp split: option.split)
next
  case (Cons g gs)
  show ?case
  proof (cases "map_of ans (answer_prefix g)")
    case None
    then show ?thesis by (cases "map_of ans k"; cases "answer_prefix g = k") (simp_all add: Cons.IH map_add_def)
  next
    case (Some j)
    then show ?thesis by (cases "map_of ans k"; cases "answer_prefix g = k") (simp_all add: Cons.IH)
  qed
qed

lemma index_where_Some:
  "index_where P i xs = Some j \<Longrightarrow> i \<le> j \<and> j < i + length xs \<and> P (xs ! (j - i)) \<and> (\<forall>k. i \<le> k \<and> k < j \<longrightarrow> \<not> P (xs ! (k - i)))"
proof (induction xs arbitrary: i)
  case Nil
  then show ?case by simp
next
  case (Cons x xs)
  show ?case
  proof (cases "P x")
    case True
    with Cons.prems show ?thesis by auto
  next
    case False
    then have h: "index_where P (i + 1) xs = Some j" using Cons.prems by simp
    from Cons.IH [OF this] have ih: "i + 1 \<le> j" "j < i + 1 + length xs" "P (xs ! (j - (i + 1)))"
        "\<forall>k. i + 1 \<le> k \<and> k < j \<longrightarrow> \<not> P (xs ! (k - (i + 1)))" by simp_all
    have "\<not> P ((x # xs) ! (k - i))" if "i \<le> k" "k < j" for k
      using that False ih(4) by (cases "k = i") (auto simp: nth_Cons')
    moreover have "P ((x # xs) ! (j - i))" using ih by (simp add: nth_Cons')
    ultimately show ?thesis using ih by simp
  qed
qed

lemma index_where_None: "index_where P i xs = None \<longleftrightarrow> (\<forall>x\<in>set xs. \<not> P x)"
  by (induction xs arbitrary: i) auto

lemma find_answer_None: "find_answer ans ns msg = None \<longleftrightarrow> (\<forall>n\<in>set ns. map_of ans (take n msg) = None)"
  by (induction ns) (auto split: option.splits)

lemma find_answer_Some:
  "find_answer ans ns msg = Some gi \<Longrightarrow>
   \<exists>xs n ys. ns = xs @ n # ys \<and> map_of ans (take n msg) = Some gi \<and> (\<forall>m\<in>set xs. map_of ans (take m msg) = None)"
proof (induction ns)
  case Nil
  then show ?case by simp
next
  case (Cons n ns)
  show ?case
  proof (cases "map_of ans (take n msg)")
    case (Some g)
    with Cons.prems show ?thesis by (intro exI [of _ "[]"]) auto
  next
    case None
    with Cons obtain xs m ys where "ns = xs @ m # ys" "map_of ans (take m msg) = Some gi" "\<forall>m\<in>set xs. map_of ans (take m msg) = None"
      by auto
    with None show ?thesis by (intro exI [of _ "n # xs"] exI [of _ m] exI [of _ ys]) auto
  qed
qed

lemma longest_prefix:
  assumes "ans = build_answers [] 0 gs"
  shows "case find_answer ans (lengths_of ans) msg of
      None \<Rightarrow> \<forall>g\<in>set gs. \<not> prefix (answer_prefix g) msg
    | Some gi \<Rightarrow> gi < length gs \<and> prefix (answer_prefix (gs ! gi)) msg \<and>
        (\<forall>gj<length gs. prefix (answer_prefix (gs ! gj)) msg \<longrightarrow>
           length (answer_prefix (gs ! gj)) < length (answer_prefix (gs ! gi)) \<or>
           answer_prefix (gs ! gj) = answer_prefix (gs ! gi) \<and> gi \<le> gj)"
proof -
  have look: "map_of ans k = index_where (\<lambda>g. answer_prefix g = k) 0 gs" for k
    by (simp add: assms build_answers_lookup)
  have lens: "set (lengths_of ans) = length ` answer_prefix ` set gs"
  proof -
    have "k \<in> fst ` set ans \<longleftrightarrow> k \<in> answer_prefix ` set gs" for k
    proof -
      have "k \<in> fst ` set ans \<longleftrightarrow> map_of ans k \<noteq> None" by (simp add: map_of_eq_None_iff)
      also have "\<dots> \<longleftrightarrow> k \<in> answer_prefix ` set gs" by (auto simp: look index_where_None)
      finally show ?thesis .
    qed
    then have "fst ` set ans = answer_prefix ` set gs" by blast
    moreover have "set (lengths_of ans) = length ` fst ` set ans" by (auto simp: lengths_of_def)
    ultimately show ?thesis by (simp only:)
  qed
  have at: "map_of ans (take (length (answer_prefix g)) msg) \<noteq> None" if "g \<in> set gs" "prefix (answer_prefix g) msg" for g
  proof -
    have "take (length (answer_prefix g)) msg = answer_prefix g" using that(2) by (auto simp: prefix_def)
    then show ?thesis using that(1) by (auto simp: look index_where_None)
  qed
  show ?thesis
  proof (cases "find_answer ans (lengths_of ans) msg")
    case None
    then have "\<forall>n\<in>length ` answer_prefix ` set gs. map_of ans (take n msg) = None"
      by (simp add: find_answer_None lens)
    with None at show ?thesis by auto
  next
    case (Some gi)
    from find_answer_Some [OF Some] obtain xs n ys where
      n: "lengths_of ans = xs @ n # ys" "map_of ans (take n msg) = Some gi" "\<forall>m\<in>set xs. map_of ans (take m msg) = None"
      by blast
    have desc: "sorted_wrt (\<ge>) (lengths_of ans)"
      by (simp add: lengths_of_def sorted_wrt_rev)
    from n(2) have iw: "index_where (\<lambda>g. answer_prefix g = take n msg) 0 gs = Some gi" by (simp add: look)
    from index_where_Some [OF iw] have gi: "gi < length gs" "answer_prefix (gs ! gi) = take n msg"
        "\<forall>k<gi. answer_prefix (gs ! k) \<noteq> take n msg" by auto
    have pre: "prefix (answer_prefix (gs ! gi)) msg" by (simp add: gi(2) take_is_prefix)
    have "length (answer_prefix (gs ! gj)) < length (answer_prefix (gs ! gi)) \<or>
           answer_prefix (gs ! gj) = answer_prefix (gs ! gi) \<and> gi \<le> gj"
      if gj: "gj < length gs" "prefix (answer_prefix (gs ! gj)) msg" for gj
    proof -
      define m where "m = length (answer_prefix (gs ! gj))"
      have tm: "take m msg = answer_prefix (gs ! gj)" using gj(2) by (auto simp: prefix_def m_def)
      have "m \<in> set (lengths_of ans)" using gj(1) by (auto simp: lens m_def)
      moreover have "m \<notin> set xs" using n(3) at [OF _ gj(2)] gj(1) m_def by auto
      ultimately have "m \<le> n" using desc n(1) by (auto simp: sorted_wrt_append)
      moreover have "m \<le> length msg" using gj(2) by (auto simp: m_def prefix_def)
      ultimately have "m \<le> length (take n msg)" by simp
      then consider "m < length (take n msg)" | "m = length (take n msg)" by linarith
      then show ?thesis
      proof cases
        case 1
        then show ?thesis by (simp add: gi(2) m_def)
      next
        case 2
        then have "take m msg = take n msg" by (metis length_take min_def take_all_iff linear)
        then have eq: "answer_prefix (gs ! gj) = answer_prefix (gs ! gi)" using tm gi(2) by simp
        moreover have "gi \<le> gj" using gi(2,3) eq by (metis not_le)
        ultimately show ?thesis by simp
      qed
    qed
    with Some gi(1) pre show ?thesis by simp
  qed
qed

section \<open>Signal names\<close>

lemma name_fields_distinct:
  "name_fields source aliases seen out flds = Inr names \<Longrightarrow>
   distinct (concat (map (\<lambda>(t, g, f). full_names f (base_name source aliases g f t)) flds)) \<and>
   set (concat (map (\<lambda>(t, g, f). full_names f (base_name source aliases g f t)) flds)) \<inter> seen = {} \<and>
   names = out @ map (\<lambda>(t, g, f). (t, base_name source aliases g f t)) flds"
proof (induction flds arbitrary: seen out)
  case Nil
  then show ?case by simp
next
  case (Cons x flds)
  obtain t g f where x: "x = (t, g, f)" by (cases x)
  define base where "base = base_name source aliases g f t"
  have d: "distinct (full_names f base)" "set (full_names f base) \<inter> seen = {}"
    and r: "name_fields source aliases (seen \<union> set (full_names f base)) (out @ [(t, base)]) flds = Inr names"
    using Cons.prems by (auto simp: x base_def Let_def split: if_splits)
  define B where "B = concat (map (\<lambda>(t, g, f). full_names f (base_name source aliases g f t)) flds)"
  have ih: "distinct B" "set B \<inter> (seen \<union> set (full_names f base)) = {}"
      "names = (out @ [(t, base)]) @ map (\<lambda>(t, g, f). (t, base_name source aliases g f t)) flds"
    using Cons.IH [OF r] by (simp_all add: B_def)
  have c: "concat (map (\<lambda>(t, g, f). full_names f (base_name source aliases g f t)) (x # flds)) = full_names f base @ B"
    by (simp add: x base_def B_def)
  show ?case unfolding c using ih d by (auto simp: x base_def)
qed

definition rows_of :: "ecu_rec \<Rightarrow> (nat \<times> nat) list" where
  "rows_of e = map fst (ecu_fields e)"

lemma ecu_fields_keys: "distinct (map fst (ecu_fields e))"
proof -
  have "distinct (map fst (concat (map (\<lambda>(gi, g). map (\<lambda>(fi, f). ((gi, fi), g, f)) (enumerate 0 (g_fields g))) (enumerate n gs)))) \<and>
     (\<forall>t\<in>set (map fst (concat (map (\<lambda>(gi, g). map (\<lambda>(fi, f). ((gi, fi), g, f)) (enumerate 0 (g_fields g))) (enumerate n gs)))). n \<le> fst t)"
    for n and gs :: "group_rec list"
  proof (induction gs arbitrary: n)
    case Nil
    then show ?case by simp
  next
    case (Cons g gs)
    have m: "map fst (map (\<lambda>(fi, f). ((n, fi), g, f)) (enumerate 0 (g_fields g))) = map (\<lambda>fi. (n, fi)) [0..<length (g_fields g)]"
    proof -
      have "map fst (map (\<lambda>(fi, f). ((n, fi), g, f)) (enumerate 0 (g_fields g))) = map (\<lambda>fi. (n, fi)) (map fst (enumerate 0 (g_fields g)))"
        unfolding map_map by (rule map_cong [OF refl]) (simp add: case_prod_unfold)
      moreover have "map fst (enumerate 0 (g_fields g)) = [0..<length (g_fields g)]" by simp
      ultimately show ?thesis by (simp only:)
    qed
    have "distinct (map (\<lambda>fi. (n, fi)) [0..<length (g_fields g)])" by (simp add: distinct_map inj_on_def)
    define F where "F = map (\<lambda>(fi, f). ((n, fi), g, f)) (enumerate 0 (g_fields g))"
    define R where "R = concat (map (\<lambda>(gi, g). map (\<lambda>(fi, f). ((gi, fi), g, f)) (enumerate 0 (g_fields g))) (enumerate (Suc n) gs))"
    have c: "concat (map (\<lambda>(gi, g). map (\<lambda>(fi, f). ((gi, fi), g, f)) (enumerate 0 (g_fields g))) (enumerate n (g # gs))) = F @ R"
      by (simp add: F_def R_def)
    have r: "distinct (map fst R)" "\<forall>t\<in>set (map fst R). Suc n \<le> fst t" using Cons.IH [of "Suc n"] unfolding R_def by blast+
    have f: "distinct (map fst F)" "\<forall>t\<in>set (map fst F). fst t = n"
      unfolding F_def m using \<open>distinct (map (\<lambda>fi. (n, fi)) [0..<length (g_fields g)])\<close> by auto
    have "set (map fst F) \<inter> set (map fst R) = {}" using f(2) r(2) by fastforce
    then show ?case unfolding c map_append set_append distinct_append using r f by fastforce
  qed
  from this [of 0 "e_groups e"] show ?thesis by (simp add: ecu_fields_def)
qed

text \<open>Every signal name the group loop can use, in its order.\<close>

definition signal_names :: "uds_ecu \<Rightarrow> string list" where
  "signal_names u = concat (map (\<lambda>(t, g, f). map (element_name f (field_base u t)) [0..<nat (repeat_count f)]) (ecu_fields (ue_ecu u)))"

lemma signal_names_unique:
  assumes "new_uds_ecu toml fs lines sp = Inr u"
  shows "distinct (signal_names u)"
proof -
  obtain ei e aliases names where n: "name_fields (e_name e) aliases {} [] (ecu_fields e) = Inr names"
      and u: "ue_ecu u = e" "ue_names u = names"
    using assms by (auto simp: new_uds_ecu_def err_simps Let_def split: option.splits)
  note nf = name_fields_distinct [OF n]
  have nm: "names = map (\<lambda>(t, g, f). (t, base_name (e_name e) aliases g f t)) (ecu_fields e)" using nf by simp
  have "map fst names = map fst (ecu_fields e)" by (simp add: nm case_prod_unfold)
  then have dk: "distinct (map fst names)" using ecu_fields_keys [of e] by simp
  have base: "field_base u t = base_name (e_name e) aliases g f t" if "(t, g, f) \<in> set (ecu_fields e)" for t g f
  proof -
    have "(t, base_name (e_name e) aliases g f t) \<in> set names" using that by (force simp: nm)
    with dk show ?thesis by (simp add: field_base_def u)
  qed
  have "(case x of (t, g, f) \<Rightarrow> map (element_name f (field_base u t)) [0..<nat (repeat_count f)])
      = (case x of (t, g, f) \<Rightarrow> full_names f (base_name (e_name e) aliases g f t))" if "x \<in> set (ecu_fields e)" for x
    using that base by (auto simp: full_names_def element_name_def split: prod.split)
  then have "signal_names u = concat (map (\<lambda>(t, g, f). full_names f (base_name (e_name e) aliases g f t)) (ecu_fields e))"
    unfolding signal_names_def u by (metis (mono_tags, lifting) map_eq_conv)
  with nf show ?thesis by simp
qed

section \<open>Feeding never raises\<close>

definition ecu_ok :: "uds_ecu \<Rightarrow> bool" where
  "ecu_ok e \<longleftrightarrow> answers e = build_answers [] 0 (e_groups (ue_ecu e)) \<and>
     (\<forall>g\<in>set (e_groups (ue_ecu e)). \<forall>f\<in>set (g_fields g). field_sane f)"

definition returns :: "'e + 'a \<Rightarrow> bool" where
  "returns m \<longleftrightarrow> (\<exists>x. m = Inr x)"

lemma returns_Inr [simp]: "returns (Inr x)"
  by (simp add: returns_def)

lemma returns_foldE:
  assumes "\<And>x b. x \<in> set xs \<Longrightarrow> returns (f x b)"
  shows "returns (foldE f xs b)"
  using assms
proof (induction xs arbitrary: b)
  case Nil
  then show ?case by simp
next
  case (Cons x xs)
  from Cons.prems [of x b] obtain b' where "f x b = Inr b'" by (auto simp: returns_def)
  with Cons show ?case by simp
qed

lemma extract_returns:
  assumes "field_sane f" and "\<not> f_ascii f" "\<not> hexdump f"
    and "\<not> bit_pos f + int k * repeat_stride f + bit_size f > int (8 * length msg)"
  shows "returns (extract_field f msg (int k))"
proof -
  have fr: "fits_response f msg (int k)" using assms by (simp add: fits_response_def field_sane_def)
  have "0 \<le> bit_size f" using assms(1) by (simp add: field_sane_def)
  from extract_bits_slice [OF fr this] assms(2,3) show ?thesis by (simp add: extract_field_def Let_def)
qed

lemma on_element_returns: "field_sane f \<Longrightarrow> returns (on_element e i msg utc st f base k tc)"
  unfolding on_element_def Let_def
  using extract_returns [where f = f and k = k and msg = msg] by (auto simp: returns_def simp del: split_paired_Ex)

lemma set_enumerate_snd: "x \<in> set (enumerate n xs) \<Longrightarrow> snd x \<in> set xs"
  by (metis enumerate_eq_zip prod.collapse set_zip_rightD)

lemma on_group_returns:
  assumes ok: "ecu_ok e" and gi: "gi < length (e_groups (ue_ecu e))"
  shows "returns (on_group e i gi msg utc c)"
proof -
  define g where "g = e_groups (ue_ecu e) ! gi"
  have g: "g \<in> set (e_groups (ue_ecu e))" using gi by (simp add: g_def)
  have "returns (foldE (on_field e i gi msg utc) (enumerate 0 (g_fields g)) ((0, 0, False), c))"
  proof (rule returns_foldE)
    fix fif and tc :: "tally \<times> chunk"
    assume "fif \<in> set (enumerate 0 (g_fields g))"
    then have "snd fif \<in> set (g_fields g)" by (rule set_enumerate_snd)
    then have "field_sane (snd fif)" using ok g by (simp add: ecu_ok_def)
    then show "returns (on_field e i gi msg utc fif tc)"
      unfolding on_field_def by (intro returns_foldE on_element_returns)
  qed
  then show ?thesis by (auto simp: returns_def on_group_def Let_def g_def [symmetric] split: prod.splits)
qed

lemma on_message_returns:
  assumes ok: "ecu_ok e"
  shows "returns (on_message e i msg utc c)"
proof (cases "find_answer (answers e) (prefix_lengths e) msg")
  case None
  then show ?thesis by (simp add: on_message_def Let_def)
next
  case (Some gi)
  then obtain k where "map_of (answers e) k = Some gi" using find_answer_Some [OF Some] by blast
  then have "index_where (\<lambda>g. answer_prefix g = k) 0 (e_groups (ue_ecu e)) = Some gi"
    using ok by (simp add: ecu_ok_def build_answers_lookup)
  then have "gi < length (e_groups (ue_ecu e))" using index_where_Some by fastforce
  with Some on_group_returns [OF ok] show ?thesis by (simp add: on_message_def Let_def)
qed

lemma rx_frame_returns: "ecu_ok e \<Longrightarrow> returns (rx_frame e i d utc c)"
  using on_message_returns [of e]
  by (simp add: rx_frame_def single_frame_def consecutive_frame_def Let_def split: option.split)

type_synonym frame = "string \<times> int \<times> bool \<times> string \<times> int option"

definition feed_frame :: "uds_ecu list \<Rightarrow> frame \<Rightarrow> chunk \<Rightarrow> catalog_error + chunk" where
  "feed_frame es fr c =
     (case fr of (label, can_id, extended, hex, utc) \<Rightarrow> bindE (feed es label can_id extended hex utc c) (\<lambda>r. Inr (snd r)))"

lemma add_routes_bound:
  "map_of (add_routes rs n es) k = Some (i, r) \<Longrightarrow> map_of rs k = Some (i, r) \<or> n \<le> i \<and> i < n + length es"
proof (induction es arbitrary: rs n)
  case Nil
  then show ?case by simp
next
  case (Cons e es)
  from Cons.IH [of "assoc_put (tx_key e) (n, Tx) (assoc_put (rx_key e) (n, Rx) rs)" "n + 1"] Cons.prems
  show ?case by (auto split: if_splits)
qed

definition routes_ok :: "uds_ecu list \<Rightarrow> chunk \<Rightarrow> bool" where
  "routes_ok es c \<longleftrightarrow> routes c = add_routes [] 0 es"

lemma routes_emit [simp]:
  "routes (bump k c) = routes c" "routes (emit e utc kind name v t d c) = routes c" "routes (set_rx i f c) = routes c"
  "routes (signal n utc v t c) = routes c"
  by (simp_all add: bump_def emit_def set_rx_def signal_def)

lemma routes_dtc_seen [simp]: "routes (fold (dtc_seen e utc p) cs c) = routes c"
  by (induction cs arbitrary: c) (simp_all add: dtc_seen_def split: option.split)

lemma routes_dtc_gone [simp]: "routes (fold (dtc_gone e utc cur) codes c) = routes c"
  by (induction codes arbitrary: c) (simp_all add: dtc_gone_def)

lemma routes_frame [simp]:
  "routes (set_state e i n v t utc c) = routes c"
  "routes (on_dtcs e i msg utc req c) = routes c" "routes (abandon e i utc c) = routes c"
  "routes (tx_frame i dat c) = routes c"
  by (simp_all add: set_state_def on_dtcs_def abandon_def tx_frame_def Let_def split: option.split)

lemma routes_on_group: "on_group e i gi msg utc c = Inr c' \<Longrightarrow> routes c' = routes c"
proof -
  assume "on_group e i gi msg utc c = Inr c'"
  then obtain tc where t: "foldE (on_field e i gi msg utc) (enumerate 0 (g_fields (e_groups (ue_ecu e) ! gi))) ((0, 0, False), c) = Inr tc"
    and c': "routes c' = routes (snd tc)"
    by (auto simp: on_group_def Let_def err_simps split: prod.splits if_splits)
  have el: "on_element e i msg utc st f base k a = Inr b \<Longrightarrow> routes (snd b) = routes (snd a)" for st f base k a b
    by (auto simp: on_element_def Let_def err_simps on_value_def on_text_def split: if_splits prod.splits option.splits)
  have fl: "on_field e i gi msg utc fif a = Inr b \<Longrightarrow> routes (snd b) = routes (snd a)" for fif a b
    unfolding on_field_def by (rule foldE_inv [where P = "\<lambda>t. routes (snd t) = routes (snd a)"]) (auto dest: el)
  have "routes (snd tc) = routes c"
    by (rule foldE_inv [where P = "\<lambda>t. routes (snd t) = routes c", OF _ _ t]) (auto dest: fl)
  with c' show ?thesis by simp
qed

lemma routes_on_message: "on_message e i msg utc c = Inr c' \<Longrightarrow> routes c' = routes c"
  by (auto simp: on_message_def Let_def dest!: routes_on_group split: if_splits option.splits)

lemma routes_rx_frame: "rx_frame e i d utc c = Inr c' \<Longrightarrow> routes c' = routes c"
  by (auto simp: rx_frame_def single_frame_def first_frame_def consecutive_frame_def begin_message_def Let_def
      dest!: routes_on_message split: if_splits option.splits)

lemma feed_returns:
  assumes es: "\<forall>e\<in>set es. ecu_ok e" and r: "routes_ok es c" and h: "fromhex hex \<noteq> None"
  shows "\<exists>b c'. feed es label can_id extended hex utc c = Inr (b, c') \<and> routes_ok es c' \<and>
     b = (map_of (add_routes [] 0 es) (label, can_id, extended) \<noteq> None)"
proof (cases "map_of (routes c) (label, can_id, extended)")
  case None
  with r show ?thesis by (intro exI [of _ False] exI [of _ c]) (simp add: feed_def routes_ok_def)
next
  case (Some ir)
  obtain i role where ir: "ir = (i, role)" by (cases ir)
  have i: "i < length es" using add_routes_bound [of "[]" 0 es] Some r by (fastforce simp: ir routes_ok_def)
  obtain data where data: "fromhex hex = Some data" using h by auto
  show ?thesis
  proof (cases data)
    case Nil
    with Some ir data r show ?thesis by (auto simp: feed_def routes_ok_def)
  next
    case (Cons b bs)
    show ?thesis
    proof (cases role)
      case Tx
      with Some ir data Cons r show ?thesis by (auto simp: feed_def routes_ok_def)
    next
      case Rx
      have "ecu_ok (es ! i)" using es i by simp
      then obtain c' where c': "rx_frame (es ! i) i data utc c = Inr c'"
        using rx_frame_returns [of "es ! i" i data utc c] by (auto simp: returns_def)
      with routes_rx_frame [OF c'] Rx Some ir data Cons r show ?thesis by (auto simp: feed_def routes_ok_def)
    qed
  qed
qed

lemma feed_all_returns:
  assumes es: "\<forall>e\<in>set es. ecu_ok e"
  shows "\<forall>fr\<in>set frs. fromhex (fst (snd (snd (snd fr)))) \<noteq> None \<Longrightarrow> routes_ok es c \<Longrightarrow>
     \<exists>c'. foldE (feed_frame es) frs c = Inr c' \<and> routes_ok es c'"
proof (induction frs arbitrary: c)
  case Nil
  then show ?case by simp
next
  case (Cons fr frs)
  obtain label can_id ext hex utc where fr: "fr = (label, can_id, ext, hex, utc)" by (cases fr) auto
  have "fromhex hex \<noteq> None" using Cons.prems(1) by (simp add: fr)
  from feed_returns [OF es Cons.prems(2) this] obtain b c1 where
    "feed es label can_id ext hex utc c = Inr (b, c1)" "routes_ok es c1" by blast
  with Cons show ?case by (simp add: fr feed_frame_def)
qed

lemma find_ecu_in: "find_ecu n i cat = Some (j, e) \<Longrightarrow> e \<in> set cat"
  by (induction n i cat rule: find_ecu.induct) (auto split: if_splits)

lemma new_uds_ecu_ok:
  assumes "new_uds_ecu toml fs lines sp = Inr u"
  shows "ecu_ok u" "prefix_lengths u = lengths_of (answers u)"
proof -
  obtain blob cat ei e aliases names texts where
    c: "read_catalog blob = Inr cat" and p: "pick_ecu cat (sp_ecu sp) = Inr (ei, e)"
    and u: "ue_ecu u = e" "answers u = build_answers [] 0 (e_groups e)" "prefix_lengths u = lengths_of (answers u)"
    using assms by (auto simp: new_uds_ecu_def err_simps Let_def split: option.splits sum.splits catalog_error.splits)
  have "e \<in> set cat" using p by (auto simp: pick_ecu_def find_ecu_in split: option.splits list.splits)
  then have "\<forall>g\<in>set (e_groups e). \<forall>f\<in>set (g_fields g). field_sane f"
    using read_catalog_sane [OF c] by (auto simp: cat_fields_def cat_groups_def)
  with u show "ecu_ok u" "prefix_lengths u = lengths_of (answers u)" by (simp_all add: ecu_ok_def)
qed



section \<open>Routes\<close>

lemma claim_ids_spec:
  "claim_ids rs e is = Inr rs' \<Longrightarrow> distinct (map fst rs) \<Longrightarrow>
   rs' = rs @ map (\<lambda>i. ((ue_label e, i, extended_id (ue_ecu e)), e_name (ue_ecu e))) is \<and> distinct (map fst rs')"
proof (induction rs e "is" rule: claim_ids.induct)
  case (2 rs e i "is")
  from "2.prems"(1) have n: "map_of rs (ue_label e, i, extended_id (ue_ecu e)) = None" by (auto simp: Let_def split: if_splits)
  with "2.prems" have "distinct (map fst (rs @ [((ue_label e, i, extended_id (ue_ecu e)), e_name (ue_ecu e))]))"
    by (auto simp: map_of_eq_None_iff)
  moreover have "claim_ids (rs @ [((ue_label e, i, extended_id (ue_ecu e)), e_name (ue_ecu e))]) e is = Inr rs'"
    using n "2.prems"(1) by (simp add: Let_def)
  ultimately have "rs' = (rs @ [((ue_label e, i, extended_id (ue_ecu e)), e_name (ue_ecu e))]) @
      map (\<lambda>i. ((ue_label e, i, extended_id (ue_ecu e)), e_name (ue_ecu e))) is \<and> distinct (map fst rs')"
    using n by (intro "2.IH" [OF refl]) auto
  then show ?case unfolding append.assoc append_Cons append_Nil list.map(2) .
qed simp

lemma routes_from_spec:
  "routes_from rs es = Inr rs' \<Longrightarrow> distinct (map fst rs) \<Longrightarrow>
   distinct (map fst rs') \<and> map fst rs' = map fst rs @ concat (map (\<lambda>e. [tx_key e, rx_key e]) es)"
proof (induction es arbitrary: rs)
  case Nil
  then show ?case by simp
next
  case (Cons e es)
  then obtain rs1 where c: "claim_ids rs e [request_id (ue_ecu e), response_id (ue_ecu e)] = Inr rs1"
    and r: "routes_from rs1 es = Inr rs'" by (auto simp: err_simps)
  note cs = claim_ids_spec [OF c Cons.prems(2)]
  have d: "distinct (map fst rs1)" by (rule conjunct2 [OF cs])
  have k: "map fst rs1 = map fst rs @ [tx_key e, rx_key e]" by (simp add: conjunct1 [OF cs] tx_key_def rx_key_def)
  note ih = Cons.IH [OF r d]
  show ?case by (rule conjI [OF conjunct1 [OF ih]]) (simp add: conjunct2 [OF ih] k)
qed

lemma add_routes_other:
  "k \<notin> rx_key ` set es \<Longrightarrow> k \<notin> tx_key ` set es \<Longrightarrow> map_of (add_routes rs n es) k = map_of rs k"
  by (induction es arbitrary: rs n) auto

lemma add_routes_own:
  "distinct (concat (map (\<lambda>e. [tx_key e, rx_key e]) es)) \<Longrightarrow> i < length es \<Longrightarrow>
   map_of (add_routes rs n es) (rx_key (es ! i)) = Some (n + i, Rx) \<and>
   map_of (add_routes rs n es) (tx_key (es ! i)) = Some (n + i, Tx)"
proof (induction es arbitrary: rs n i)
  case Nil
  then show ?case by simp
next
  case (Cons e es)
  show ?case
  proof (cases i)
    case 0
    have "rx_key e \<notin> rx_key ` set es" "rx_key e \<notin> tx_key ` set es" "tx_key e \<notin> rx_key ` set es" "tx_key e \<notin> tx_key ` set es"
        "rx_key e \<noteq> tx_key e"
      using Cons.prems(1) by auto
    with 0 show ?thesis by (simp add: add_routes_other)
  next
    case (Suc j)
    with Cons.IH [of j "assoc_put (tx_key e) (n, Tx) (assoc_put (rx_key e) (n, Rx) rs)" "n + 1"] Cons.prems show ?thesis by simp
  qed
qed

section \<open>The properties\<close>

lemma routes_owned:
  assumes "routes_of es = Inr rs"
  shows "distinct (map fst rs)"
    and "\<forall>i<length es. map_of (routes (new_chunk es)) (rx_key (es ! i)) = Some (i, Rx) \<and>
           map_of (routes (new_chunk es)) (tx_key (es ! i)) = Some (i, Tx)"
    and "map_of (routes (new_chunk es)) k = None \<longleftrightarrow> k \<notin> set (map fst rs)"
proof -
  have "routes_from [] es = Inr rs" using assms by (simp add: routes_of_def)
  note spec = routes_from_spec [OF this]
  have r: "distinct (map fst rs)" by (rule conjunct1 [OF spec]) simp
  then show "distinct (map fst rs)" .
  have k: "map fst rs = concat (map (\<lambda>e. [tx_key e, rx_key e]) es)" using conjunct2 [OF spec] by simp
  have d: "distinct (concat (map (\<lambda>e. [tx_key e, rx_key e]) es))" using r unfolding k .
  from add_routes_own [OF d] show own: "\<forall>i<length es. map_of (routes (new_chunk es)) (rx_key (es ! i)) = Some (i, Rx) \<and>
           map_of (routes (new_chunk es)) (tx_key (es ! i)) = Some (i, Tx)"
    by (simp add: new_chunk_def)
  have keys: "set (map fst rs) = rx_key ` set es \<union> tx_key ` set es" unfolding k by auto
  show "map_of (routes (new_chunk es)) k = None \<longleftrightarrow> k \<notin> set (map fst rs)"
  proof (cases "k \<in> set (map fst rs)")
    case True
    then obtain i where "i < length es" "k = rx_key (es ! i) \<or> k = tx_key (es ! i)"
      unfolding keys by (auto simp: in_set_conv_nth)
    with own True show ?thesis by auto
  next
    case False
    then have "map_of (add_routes [] 0 es) k = None" using add_routes_other [of k es "[]" 0] unfolding keys by simp
    with False show ?thesis by (simp add: new_chunk_def)
  qed
qed

text \<open>
  C34: every accepted frame id belongs to one ECU.  When \<open>routes_of\<close> accepts the ECUs of a device,
  the two ids of each of them are routed to it and to no other one, as its answers and its requests,
  and nothing else is routed.
\<close>

theorem routes_are_owned:
  assumes "routes_of es = Inr rs"
  shows "distinct (map fst rs) \<and>
    (\<forall>i<length es. map_of (routes (new_chunk es)) (rx_key (es ! i)) = Some (i, Rx) \<and>
       map_of (routes (new_chunk es)) (tx_key (es ! i)) = Some (i, Tx)) \<and>
    (\<forall>k. map_of (routes (new_chunk es)) k = None \<longleftrightarrow> k \<notin> set (map fst rs))"
  using routes_owned [OF assms] by blast

theorem routes_are_owned_witness:
  "map_of (routes (new_chunk [try_ecu])) (''can0'', 0x7E8, False) = Some (0, Rx) \<and>
   map_of (routes (new_chunk [try_ecu])) (''can0'', 0x7E1, False) = None"
proof -
  have r: "routes_of [try_ecu] = Inr [((''can0'', 0x7E0, False), ''ECU''), ((''can0'', 0x7E8, False), ''ECU'')]"
    by (simp add: routes_of_def try_ecu_def)
  from routes_are_owned [OF r] show ?thesis by (simp add: rx_key_def try_ecu_def)
qed

text \<open>
  C19: the fault events are the changes.  After an answer to a request that was answered before, one
  fault event is raised for exactly those codes whose status differs between the two answers, a
  missing code counting as a difference, and the new records are what the next answer is compared with.
\<close>

theorem dtc_events_are_changes:
  assumes "map_of (dtcs c ! i) req = Some prev" and "distinct (map fst prev)" and "i < length (dtcs c)"
  shows "\<exists>evs. emissions (on_dtcs e i msg utc req c) = emissions c @ evs \<and> (\<forall>ev\<in>set evs. is_kind ''dtc'' ev) \<and>
      distinct (map event_name evs) \<and>
      set (map event_name evs) = {code. map_of prev code \<noteq> map_of (dtc_records (drop 3 msg) []) code} \<and>
      map_of (dtcs (on_dtcs e i msg utc req c) ! i) req = Some (dtc_records (drop 3 msg) []) \<and>
      distinct (map fst (dtc_records (drop 3 msg) []))"
  using on_dtcs_changes [OF assms] by blast

theorem dtc_events_are_changes_witness:
  "dtc_records [0x05, 0x62, 0x00, 0x09] [] = [(''P056200'', 9)] \<and>
   (\<exists>evs. emissions (on_dtcs try_ecu 0 [0x59, 0x02, 0xFF, 0x05, 0x62, 0x00, 0x09] None None
              ((new_chunk [try_ecu])\<lparr>dtcs := [[(None, [(''P056200'', 8)])]]\<rparr>)) = evs \<and>
      set (map event_name evs) = {''P056200''})"
proof -
  have d: "dtc_records [0x05, 0x62, 0x00, 0x09] [] = [(''P056200'', 9)]" by code_simp
  have "{code. map_of [(''P056200'', 8 :: nat)] code \<noteq> map_of [(''P056200'', 9)] code} = {''P056200''}" by auto
  with d dtc_events_are_changes [of "(new_chunk [try_ecu])\<lparr>dtcs := [[(None, [(''P056200'', 8)])]]\<rparr>" 0 None
      "[(''P056200'', 8)]" try_ecu "[0x59, 0x02, 0xFF, 0x05, 0x62, 0x00, 0x09]" None]
  show ?thesis by (auto simp: new_chunk_def)
qed

lemma demo_loads:
  assumes "read_catalog b = Inr demo_catalog"
  shows "\<exists>u. new_uds_ecu (\<lambda>_. None) (\<lambda>_. Some b) (\<lambda>_. [])
       \<lparr>sp_label = ''can0'', sp_dcat = ''x.dcat'', sp_ecu = None, sp_names = None, sp_dtc = None\<rparr> = Inr u"
  by (simp add: new_uds_ecu_def assms)
     (simp add: pick_ecu_def demo_catalog_def alias_table_def ecu_fields_def mk_group_def full_names_def Let_def)

text \<open>
  C32: an answer belongs to the group of its longest prefix.  The lookup of a loaded ECU finds a
  group whose request echo the answer begins with, if there is one; no other group has a longer
  matching echo, and of groups with the same echo the first of the catalog is meant.
\<close>

theorem answer_is_longest_prefix:
  assumes "new_uds_ecu toml fs lines sp = Inr u"
  shows "case find_answer (answers u) (prefix_lengths u) msg of
      None \<Rightarrow> \<forall>g\<in>set (e_groups (ue_ecu u)). \<not> prefix (answer_prefix g) msg
    | Some gi \<Rightarrow> gi < length (e_groups (ue_ecu u)) \<and> prefix (answer_prefix (e_groups (ue_ecu u) ! gi)) msg \<and>
        (\<forall>gj<length (e_groups (ue_ecu u)). prefix (answer_prefix (e_groups (ue_ecu u) ! gj)) msg \<longrightarrow>
           length (answer_prefix (e_groups (ue_ecu u) ! gj)) < length (answer_prefix (e_groups (ue_ecu u) ! gi)) \<or>
           answer_prefix (e_groups (ue_ecu u) ! gj) = answer_prefix (e_groups (ue_ecu u) ! gi) \<and> gi \<le> gj)"
  using new_uds_ecu_ok [OF assms] longest_prefix [of "answers u"] by (simp add: ecu_ok_def)

theorem answer_is_longest_prefix_witness:
  "\<exists>b u. write_catalog demo_catalog = Inr b \<and> new_uds_ecu (\<lambda>_. None) (\<lambda>_. Some b) (\<lambda>_. [])
       \<lparr>sp_label = ''can0'', sp_dcat = ''x.dcat'', sp_ecu = None, sp_names = None, sp_dtc = None\<rparr> = Inr u \<and>
     (case find_answer (answers u) (prefix_lengths u) [0x62, 0xF1, 0x90, 0, 7] of
        None \<Rightarrow> \<forall>g\<in>set (e_groups (ue_ecu u)). \<not> prefix (answer_prefix g) [0x62, 0xF1, 0x90, 0, 7]
      | Some gi \<Rightarrow> gi < length (e_groups (ue_ecu u)))"
proof -
  obtain b where b: "write_catalog demo_catalog = Inr b" "\<forall>rest. read_catalog (b @ rest) = Inr demo_catalog"
    using written_holds [OF demo_storable] by blast
  from b(2) have "read_catalog (b @ []) = Inr demo_catalog" by blast
  then obtain u where u: "new_uds_ecu (\<lambda>_. None) (\<lambda>_. Some b) (\<lambda>_. [])
       \<lparr>sp_label = ''can0'', sp_dcat = ''x.dcat'', sp_ecu = None, sp_names = None, sp_dtc = None\<rparr> = Inr u"
    using demo_loads by auto
  with b(1) answer_is_longest_prefix [OF u, of "[0x62, 0xF1, 0x90, 0, 7]"] show ?thesis
    by (auto split: option.splits)
qed

text \<open>
  C33: no two values share a signal.  In a loaded ECU the names of all elements of all fields of all
  groups are pairwise different, however fields are renamed and repeated.
\<close>

theorem signal_names_distinct:
  assumes "new_uds_ecu toml fs lines sp = Inr u"
  shows "distinct (signal_names u)"
  using assms by (rule signal_names_unique)

theorem signal_names_distinct_witness:
  "\<exists>b u. write_catalog demo_catalog = Inr b \<and> new_uds_ecu (\<lambda>_. None) (\<lambda>_. Some b) (\<lambda>_. [])
       \<lparr>sp_label = ''can0'', sp_dcat = ''x.dcat'', sp_ecu = None, sp_names = None, sp_dtc = None\<rparr> = Inr u \<and>
     distinct (signal_names u)"
proof -
  obtain b where b: "write_catalog demo_catalog = Inr b" "\<forall>rest. read_catalog (b @ rest) = Inr demo_catalog"
    using written_holds [OF demo_storable] by blast
  from b(2) have "read_catalog (b @ []) = Inr demo_catalog" by blast
  then obtain u where u: "new_uds_ecu (\<lambda>_. None) (\<lambda>_. Some b) (\<lambda>_. [])
       \<lparr>sp_label = ''can0'', sp_dcat = ''x.dcat'', sp_ecu = None, sp_names = None, sp_dtc = None\<rparr> = Inr u"
    using demo_loads by auto
  with b(1) signal_names_distinct [OF u] show ?thesis by blast
qed

text \<open>
  C18: feeding a chunk never raises.  Whatever frames arrive, as long as their data are hex digits,
  the frames of a chunk are all taken: no read past an answer's end, no bad sequence and no unknown
  answer ends the run.
\<close>

theorem chunk_never_raises:
  assumes "\<forall>u\<in>set us. \<exists>toml fs lines sp. new_uds_ecu toml fs lines sp = Inr u"
    and "\<forall>fr\<in>set frs. fromhex (fst (snd (snd (snd fr)))) \<noteq> None"
  shows "\<exists>c. foldE (feed_frame us) frs (new_chunk us) = Inr c"
proof -
  have "\<forall>u\<in>set us. ecu_ok u" using assms(1) new_uds_ecu_ok(1) by blast
  moreover have "routes_ok us (new_chunk us)" by (simp add: routes_ok_def new_chunk_def)
  ultimately show ?thesis using feed_all_returns [OF _ assms(2)] by blast
qed

theorem chunk_never_raises_witness:
  "\<exists>b u c. write_catalog demo_catalog = Inr b \<and> new_uds_ecu (\<lambda>_. None) (\<lambda>_. Some b) (\<lambda>_. [])
       \<lparr>sp_label = ''can0'', sp_dcat = ''x.dcat'', sp_ecu = None, sp_names = None, sp_dtc = None\<rparr> = Inr u \<and>
     foldE (feed_frame [u]) [(''can0'', 0x7E8, False, ''0662F1900007'', Some 1), (''can0'', 0x7E8, False, ''22'', None)]
        (new_chunk [u]) = Inr c"
proof -
  obtain b where b: "write_catalog demo_catalog = Inr b" "\<forall>rest. read_catalog (b @ rest) = Inr demo_catalog"
    using written_holds [OF demo_storable] by blast
  from b(2) have "read_catalog (b @ []) = Inr demo_catalog" by blast
  then obtain u where u: "new_uds_ecu (\<lambda>_. None) (\<lambda>_. Some b) (\<lambda>_. [])
       \<lparr>sp_label = ''can0'', sp_dcat = ''x.dcat'', sp_ecu = None, sp_names = None, sp_dtc = None\<rparr> = Inr u"
    using demo_loads by auto
  have h: "fromhex ''0662F1900007'' \<noteq> None" "fromhex ''22'' \<noteq> None" by code_simp+
  have "\<exists>c. foldE (feed_frame [u]) [(''can0'', 0x7E8, False, ''0662F1900007'', Some 1), (''can0'', 0x7E8, False, ''22'', None)]
        (new_chunk [u]) = Inr c"
    by (rule chunk_never_raises) (use u h in \<open>auto simp del: fromhex.simps\<close>)
  with b(1) u show ?thesis by blast
qed

end
