(* ===== verification/Effects.thy ===== *)
theory Effects
  imports Prelude
begin

text \<open>
  Python code with state and exceptions: an action takes a state and gives a value or an exception
  together with the state it leaves, mutations before a \<open>raise\<close> included.  \<open>moves R m\<close> says that
  whatever \<open>m\<close> does to the state is in the relation \<open>R\<close>, normally or by exception; a preorder is
  kept by a whole program when its primitive steps keep it.
\<close>

type_synonym ('w, 'e, 'a) act = "'w \<Rightarrow> ('e + 'a) \<times> 'w"

named_theorems act_simps "evaluation of actions"
named_theorems moves_intros "the state relation of composed actions"

section \<open>Actions\<close>

definition ret :: "'a \<Rightarrow> ('w, 'e, 'a) act" where
  "ret a w = (Inr a, w)"

definition raise :: "'e \<Rightarrow> ('w, 'e, 'a) act" where
  "raise e w = (Inl e, w)"

definition bindA :: "('w, 'e, 'a) act \<Rightarrow> ('a \<Rightarrow> ('w, 'e, 'b) act) \<Rightarrow> ('w, 'e, 'b) act" where
  "bindA m f w = (case m w of (Inl e, w) \<Rightarrow> (Inl e, w) | (Inr a, w) \<Rightarrow> f a w)"

definition thenA :: "('w, 'e, 'a) act \<Rightarrow> ('w, 'e, 'b) act \<Rightarrow> ('w, 'e, 'b) act" where
  "thenA m n = bindA m (\<lambda>_. n)"

text \<open>\<open>try: m except e: h e\<close>; a handler re-raises what it does not handle.\<close>

definition catchA :: "('w, 'e, 'a) act \<Rightarrow> ('e \<Rightarrow> ('w, 'e, 'a) act) \<Rightarrow> ('w, 'e, 'a) act" where
  "catchA m h w = (case m w of (Inl e, w) \<Rightarrow> h e w | (Inr a, w) \<Rightarrow> (Inr a, w))"

text \<open>\<open>try: m finally: f\<close> for an \<open>f\<close> that only changes the state.\<close>

definition finallyA :: "('w, 'e, 'a) act \<Rightarrow> ('w \<Rightarrow> 'w) \<Rightarrow> ('w, 'e, 'a) act" where
  "finallyA m f w = (case m w of (r, w) \<Rightarrow> (r, f w))"

definition modify :: "('w \<Rightarrow> 'w) \<Rightarrow> ('w, 'e, unit) act" where
  "modify f w = (Inr (), f w)"

definition gets :: "('w \<Rightarrow> 'a) \<Rightarrow> ('w, 'e, 'a) act" where
  "gets f w = (Inr (f w), w)"

definition whenA :: "bool \<Rightarrow> ('w, 'e, unit) act \<Rightarrow> ('w, 'e, unit) act" where
  "whenA b m = (if b then m else ret ())"

lemma act_eqs [act_simps]:
  "ret a w = (Inr a, w)" "raise e w = (Inl e, w)" "modify f w = (Inr (), f w)" "gets f' w = (Inr (f' w), w)"
  "whenA b m = (if b then m else ret ())"
  by (simp_all add: ret_def raise_def modify_def gets_def whenA_def)

lemma bindA_eqs [act_simps]:
  "bindA m f w = (case m w of (Inl e, w) \<Rightarrow> (Inl e, w) | (Inr a, w) \<Rightarrow> f a w)"
  "thenA m n w = (case m w of (Inl e, w) \<Rightarrow> (Inl e, w) | (Inr a, w) \<Rightarrow> n w)"
  "catchA m' h w = (case m' w of (Inl e, w) \<Rightarrow> h e w | (Inr a, w) \<Rightarrow> (Inr a, w))"
  "finallyA m'' g w = (case m'' w of (r, w) \<Rightarrow> (r, g w))"
  by (simp_all add: bindA_def thenA_def catchA_def finallyA_def split: prod.split sum.split)

text \<open>How an action came to return.\<close>

named_theorems returns_iff "when an action returns a value"

lemma bindA_Inr [returns_iff]: "bindA m f w = (Inr b, v) \<longleftrightarrow> (\<exists>a u. m w = (Inr a, u) \<and> f a u = (Inr b, v))"
  by (cases "m w"; cases "fst (m w)") (auto simp: bindA_def)

lemma thenA_Inr [returns_iff]: "thenA m n w = (Inr b, v) \<longleftrightarrow> (\<exists>a u. m w = (Inr a, u) \<and> n u = (Inr b, v))"
  unfolding thenA_def by (rule bindA_Inr)

lemma catchA_Inr [returns_iff]:
  "catchA m h w = (Inr a, v) \<longleftrightarrow> m w = (Inr a, v) \<or> (\<exists>e u. m w = (Inl e, u) \<and> h e u = (Inr a, v))"
  by (cases "m w"; cases "fst (m w)") (auto simp: catchA_def)

lemma finallyA_Inr [returns_iff]: "finallyA m f w = (Inr a, v) \<longleftrightarrow> (\<exists>u. m w = (Inr a, u) \<and> v = f u)"
  by (cases "m w") (auto simp: finallyA_def)

lemma pure_Inr [returns_iff]:
  "ret a w = (Inr b, v) \<longleftrightarrow> b = a \<and> v = w" "raise e w = (Inr b, v) \<longleftrightarrow> False"
  "gets f w = (Inr b', v) \<longleftrightarrow> b' = f w \<and> v = w" "modify g w = (Inr u, v) \<longleftrightarrow> v = g w"
  by (auto simp: ret_def raise_def gets_def modify_def)

section \<open>Retries\<close>

text \<open>\<open>for _ in attempts: ...\<close> where the body returns, or gives a reason to try again.\<close>

datatype 'a verdict = Done 'a | Again string

primrec tries :: "(nat \<Rightarrow> ('w, 'e, unit) act) \<Rightarrow> nat \<Rightarrow> nat \<Rightarrow> ('w, 'e, 'a verdict) act \<Rightarrow> string
    \<Rightarrow> ('w, 'e, string + 'a) act" where
  "tries nap 0 k body reason = ret (Inl reason)"
| "tries nap (Suc n) k body reason =
     thenA (whenA (k \<noteq> 0) (nap k)) (bindA body (\<lambda>v.
       case v of Done a \<Rightarrow> ret (Inr a) | Again r \<Rightarrow> tries nap n (k + 1) body r))"

section \<open>State relations\<close>

text \<open>What an action run in \<open>w\<close> does to the state: \<open>T\<close> when it ends in an exception \<open>stop\<close> picks
  out, \<open>R\<close> when it returns or ends in another one.\<close>

definition moves_at :: "('w \<Rightarrow> 'w \<Rightarrow> bool) \<Rightarrow> ('w \<Rightarrow> 'w \<Rightarrow> bool) \<Rightarrow> ('e \<Rightarrow> bool) \<Rightarrow> 'w \<Rightarrow> ('w, 'e, 'a) act \<Rightarrow> bool" where
  "moves_at R T stop w m \<longleftrightarrow>
     (case m w of (Inl e, v) \<Rightarrow> (if stop e then T w v else R w v) | (Inr a, v) \<Rightarrow> R w v)"

definition moves :: "('w \<Rightarrow> 'w \<Rightarrow> bool) \<Rightarrow> ('w \<Rightarrow> 'w \<Rightarrow> bool) \<Rightarrow> ('e \<Rightarrow> bool) \<Rightarrow> ('w, 'e, 'a) act \<Rightarrow> bool" where
  "moves R T stop m \<longleftrightarrow> (\<forall>w. moves_at R T stop w m)"

lemma movesI: "(\<And>w. moves_at R T stop w m) \<Longrightarrow> moves R T stop m"
  by (simp add: moves_def)

lemma moves_atD:
  assumes "moves_at R T stop w m"
  shows "m w = (Inr a, v) \<Longrightarrow> R w v" and "m w = (Inl e, v) \<Longrightarrow> \<not> stop e \<Longrightarrow> R w v"
    and "m w = (Inl e, v) \<Longrightarrow> stop e \<Longrightarrow> T w v"
  using assms by (simp_all add: moves_at_def)

lemma movesD: "moves R T stop m \<Longrightarrow> moves_at R T stop w m"
  by (simp add: moves_def)

lemma moves_state: "moves R R stop m \<longleftrightarrow> (\<forall>w. R w (snd (m w)))"
proof -
  have "moves_at R R stop w m \<longleftrightarrow> R w (snd (m w))" for w
    by (cases "m w"; cases "fst (m w)") (simp_all add: moves_at_def)
  then show ?thesis by (simp add: moves_def)
qed

locale effect_relation =
  fixes R T :: "'w \<Rightarrow> 'w \<Rightarrow> bool" and stop :: "'e \<Rightarrow> bool"
  assumes R_refl: "R w w"
    and R_trans: "R u v \<Longrightarrow> R v w \<Longrightarrow> R u w"
    and R_T: "R u v \<Longrightarrow> T v w \<Longrightarrow> T u w"
begin

abbreviation does :: "('w, 'e, 'a) act \<Rightarrow> bool" where
  "does \<equiv> moves R T stop"

abbreviation does_at :: "'w \<Rightarrow> ('w, 'e, 'a) act \<Rightarrow> bool" where
  "does_at \<equiv> moves_at R T stop"

lemma does_at_bindA:
  assumes "does_at w m" and "\<And>a v. m w = (Inr a, v) \<Longrightarrow> does_at v (f a)"
  shows "does_at w (bindA m f)"
proof (cases "m w")
  case (Pair r v)
  show ?thesis
  proof (cases r)
    case (Inl e)
    with Pair assms(1) show ?thesis by (simp add: moves_at_def bindA_def)
  next
    case (Inr a)
    have R: "R w v" using moves_atD(1) [OF assms(1)] Pair Inr by simp
    have "does_at v (f a)" using assms(2) Pair Inr by simp
    with R show ?thesis using R_trans R_T
      by (auto simp: moves_at_def bindA_def Pair Inr split: sum.splits prod.splits if_splits)
  qed
qed

lemma does_at_thenA: "does_at w m \<Longrightarrow> (\<And>a v. m w = (Inr a, v) \<Longrightarrow> does_at v n) \<Longrightarrow> does_at w (thenA m n)"
  unfolding thenA_def by (rule does_at_bindA)

lemma does_at_catchA:
  assumes "does_at w m" and "\<And>e. stop e \<Longrightarrow> h e = raise e"
    and "\<And>e v. m w = (Inl e, v) \<Longrightarrow> \<not> stop e \<Longrightarrow> does_at v (h e)"
  shows "does_at w (catchA m h)"
proof (cases "m w")
  case (Pair r v)
  show ?thesis
  proof (cases r)
    case (Inr a)
    with Pair assms(1) show ?thesis by (simp add: moves_at_def catchA_def)
  next
    case (Inl e)
    show ?thesis
    proof (cases "stop e")
      case True
      with Pair Inl assms(1) show ?thesis by (simp add: moves_at_def catchA_def assms(2) raise_def)
    next
      case False
      have R: "R w v" using moves_atD(2) [OF assms(1)] Pair Inl False by simp
      have "does_at v (h e)" using assms(3) Pair Inl False by simp
      with R show ?thesis using R_trans R_T
        by (auto simp: moves_at_def catchA_def Pair Inl split: sum.splits prod.splits if_splits)
    qed
  qed
qed

lemma does_at_pure: "does_at w (ret a)" "does_at w (gets f)" "\<not> stop e \<Longrightarrow> does_at w (raise e)"
  by (simp_all add: moves_at_def ret_def gets_def raise_def R_refl)

lemma does_ret [moves_intros]: "does (ret a)" and does_gets [moves_intros]: "does (gets f)"
  and does_raise [moves_intros]: "\<not> stop e \<Longrightarrow> does (raise e)"
  by (simp_all add: moves_def does_at_pure)

lemma does_bindA [moves_intros]: "does m \<Longrightarrow> (\<And>a. does (f a)) \<Longrightarrow> does (bindA m f)"
  unfolding moves_def by (blast intro: does_at_bindA)

lemma does_thenA [moves_intros]: "does m \<Longrightarrow> does n \<Longrightarrow> does (thenA m n)"
  unfolding thenA_def by (rule does_bindA)

lemma does_catchA [moves_intros]:
  "does m \<Longrightarrow> (\<And>e. stop e \<Longrightarrow> h e = raise e) \<Longrightarrow> (\<And>e. \<not> stop e \<Longrightarrow> does (h e)) \<Longrightarrow> does (catchA m h)"
  unfolding moves_def by (blast intro: does_at_catchA)

lemma does_finallyA:
  assumes "does m" and "\<And>u v. R u v \<Longrightarrow> R u (f v)" and "\<And>u v. T u v \<Longrightarrow> T u (f v)"
  shows "does (finallyA m f)"
proof (rule movesI)
  fix w
  obtain r v where m: "m w = (r, v)" by (cases "m w")
  from movesD [OF assms(1), of w] show "does_at w (finallyA m f)"
    using assms(2,3) by (auto simp: moves_at_def finallyA_def m split: sum.splits)
qed

lemma does_modify: "(\<And>w. R w (f w)) \<Longrightarrow> does (modify f)"
  by (simp add: moves_def moves_at_def modify_def)

lemma does_whenA [moves_intros]: "(b \<Longrightarrow> does m) \<Longrightarrow> does (whenA b m)"
  by (simp add: whenA_def does_ret)

lemma does_if [moves_intros]: "(b \<Longrightarrow> does m) \<Longrightarrow> (\<not> b \<Longrightarrow> does n) \<Longrightarrow> does (if b then m else n)"
  by simp

lemma does_tries [moves_intros]:
  assumes "\<And>k. does (nap k)" and "does body"
  shows "does (tries nap n k body reason)"
proof (induction n arbitrary: k reason)
  case 0
  show ?case by (simp add: does_ret)
next
  case (Suc n)
  have "does (case v of Done a \<Rightarrow> ret (Inr a) | Again r \<Rightarrow> tries nap n (k + 1) body r)" for v
    by (cases v) (simp_all add: does_ret Suc)
  then show ?case unfolding tries.simps by (intro does_thenA does_whenA does_bindA assms)
qed

text \<open>The same for a loop that only behaves in states with an invariant.\<close>

lemma does_at_tries:
  assumes nap: "\<And>w k. P w \<Longrightarrow> does_at w (nap k) \<and> P (snd (nap k w))"
    and body: "\<And>w. P w \<Longrightarrow> does_at w body \<and> P (snd (body w))"
  shows "P w \<Longrightarrow> does_at w (tries nap n k body reason)"
proof (induction n arbitrary: k reason w)
  case 0
  show ?case by (simp add: does_at_pure)
next
  case (Suc n)
  have pre: "does_at w (whenA (k \<noteq> 0) (nap k)) \<and> P (snd (whenA (k \<noteq> 0) (nap k) w))"
    using nap [OF Suc.prems, of k] Suc.prems by (simp add: whenA_def does_at_pure ret_def)
  show ?case
    unfolding tries.simps
  proof (rule does_at_thenA [OF conjunct1 [OF pre]], rule does_at_bindA)
    fix a v
    assume "whenA (k \<noteq> 0) (nap k) w = (Inr a, v)"
    with pre have Pv: "P v" by simp
    show "does_at v body" using body [OF Pv] by simp
    fix b u
    assume "body v = (Inr b, u)"
    with body [OF Pv] have "P u" by (metis snd_conv)
    then show "does_at u (case b of Done a \<Rightarrow> ret (Inr a) | Again r \<Rightarrow> tries nap n (k + 1) body r)"
      by (cases b) (simp_all add: does_at_pure Suc.IH)
  qed
qed

end

section \<open>Counting steps\<close>

text \<open>\<open>spends c n m\<close>: whatever happens, \<open>m\<close> raises the counter \<open>c\<close> by at most \<open>n\<close>.\<close>

definition spends :: "('w \<Rightarrow> nat) \<Rightarrow> nat \<Rightarrow> ('w, 'e, 'a) act \<Rightarrow> bool" where
  "spends c n m \<longleftrightarrow> (\<forall>w. c (snd (m w)) \<le> c w + n)"

named_theorems spends_intros "the cost of composed actions"

lemma spendsI: "(\<And>w. c (snd (m w)) \<le> c w + n) \<Longrightarrow> spends c n m"
  by (simp add: spends_def)

lemma spendsD: "spends c n m \<Longrightarrow> m w = (r, w') \<Longrightarrow> c w' \<le> c w + n"
  by (metis snd_conv spends_def)

lemma spends_le: "spends c n m \<Longrightarrow> n \<le> k \<Longrightarrow> spends c k m"
  unfolding spends_def by (meson add_left_mono le_trans)

lemma spends_free [spends_intros]:
  "spends c n (ret a)" "spends c n (raise e)" "spends c n (gets f)"
  by (simp_all add: spends_def ret_def raise_def gets_def)

lemma spends_modify [spends_intros]: "(\<And>w. c (f w) = c w) \<Longrightarrow> spends c n (modify f)"
  by (simp add: spends_def modify_def)

lemma spends_bindA:
  assumes "spends c i m" and "\<And>a. spends c j (f a)" and "i + j \<le> n"
  shows "spends c n (bindA m f)"
proof (rule spendsI)
  fix w
  obtain r v where m: "m w = (r, v)" by (cases "m w")
  have 1: "c v \<le> c w + i" using spendsD [OF assms(1) m] .
  have 2: "c (snd (f a v)) \<le> c v + j" for a using assms(2) by (simp add: spends_def)
  show "c (snd (bindA m f w)) \<le> c w + n"
  proof (cases r)
    case (Inl e)
    then show ?thesis using 1 assms(3) by (simp add: bindA_def m)
  next
    case (Inr a)
    then show ?thesis using 1 2 [of a] assms(3) by (simp add: bindA_def m)
  qed
qed

lemma spends_thenA: "spends c i m \<Longrightarrow> spends c j m' \<Longrightarrow> i + j \<le> n \<Longrightarrow> spends c n (thenA m m')"
  unfolding thenA_def by (rule spends_bindA)

lemma spends_catchA:
  assumes "spends c i m" and "\<And>e. spends c j (h e)" and "i + j \<le> n"
  shows "spends c n (catchA m h)"
proof (rule spendsI)
  fix w
  obtain r v where m: "m w = (r, v)" by (cases "m w")
  have 1: "c v \<le> c w + i" using spendsD [OF assms(1) m] .
  have 2: "c (snd (h e v)) \<le> c v + j" for e using assms(2) by (simp add: spends_def)
  show "c (snd (catchA m h w)) \<le> c w + n"
  proof (cases r)
    case (Inl e)
    then show ?thesis using 1 2 [of e] assms(3) by (simp add: catchA_def m)
  next
    case (Inr a)
    then show ?thesis using 1 assms(3) by (simp add: catchA_def m)
  qed
qed

lemma spends_finallyA: "spends c n m \<Longrightarrow> (\<And>w. c (f w) = c w) \<Longrightarrow> spends c n (finallyA m f)"
  unfolding spends_def finallyA_def by (metis prod.collapse case_prod_conv snd_conv)

lemma spends_whenA: "spends c n m \<Longrightarrow> spends c n (whenA b m)"
  by (simp add: whenA_def spends_free)

lemma spends_if: "(b \<Longrightarrow> spends c n m) \<Longrightarrow> (\<not> b \<Longrightarrow> spends c n m') \<Longrightarrow> spends c n (if b then m else m')"
  by simp

lemma spends_tries:
  assumes nap: "\<And>k. spends c 0 (nap k)" and body: "spends c b body"
  shows "spends c (n * b) (tries nap n k body reason)"
proof (induction n arbitrary: k reason)
  case 0
  show ?case by (simp add: spends_free)
next
  case (Suc n)
  have v: "spends c (n * b) (case v of Done a \<Rightarrow> ret (Inr a) | Again r \<Rightarrow> tries nap n (k + 1) body r)" for v
    by (cases v) (simp_all add: spends_free Suc)
  have "spends c (b + n * b) (bindA body (\<lambda>v. case v of Done a \<Rightarrow> ret (Inr a) | Again r \<Rightarrow> tries nap n (k + 1) body r))"
    by (rule spends_bindA [OF body v order_refl])
  then have "spends c (Suc n * b) (thenA (whenA (k \<noteq> 0) (nap k))
      (bindA body (\<lambda>v. case v of Done a \<Rightarrow> ret (Inr a) | Again r \<Rightarrow> tries nap n (k + 1) body r)))"
    by (rule spends_thenA [OF spends_whenA [OF nap]]) simp
  then show ?case by simp
qed

end
