(* ===== verification/Stamps.thy ===== *)
theory Stamps
  imports Prelude
begin

text \<open>
  \<open>script/sdlog.py\<close>, the values of one card-file line: strict numbers, the stamp chain
  (\<open>Chain\<close>), the UTC correspondence (\<open>UtcAnchor\<close>), the clock statements (\<open>ClockPoint\<close>,
  \<open>ClockState\<close>), retention windows (\<open>Gap\<close>), identity lines (\<open>Ident\<close>) and the leading token.
  Every \<open>raise ValueError\<close> is an \<open>Inl\<close> of \<open>value_error\<close>, one constructor per
  message of the source, carrying the values the message quotes.
\<close>

datatype value_error =
    NotDecimal string
  | IntLiteral string
  | NotHex string
  | HexTooWide string
  | NotAnchored string
  | DeltaBeforeAnchor string
  | UnknownFlags string string
  | FieldCount nat
  | HalfByte nat
  | DataTooLong nat
  | TextFieldCount nat
  | TextToken string
  | IdentNeedsFields
  | IdentNotKeyValue string
  | IdentRepeats string
  | ClockNeedsFields
  | ClockPairing string string
  | ClockNoDetail string
  | ClockCardWithoutSeq
  | Truncated string
  | StreamFields nat
  | UnknownKind string
  | UtcNeedsFields
  | OriginNeedsField

section \<open>Constants\<close>

definition RECORD_KINDS :: "string set" where
  "RECORD_KINDS = {''C'', ''L'', ''U'', ''I''}"

definition RECORD_FIELDS :: nat where "RECORD_FIELDS = 4"
definition TEXT_FIELDS :: nat where "TEXT_FIELDS = 4"

definition is_flag_letter :: "char \<Rightarrow> bool" where
  "is_flag_letter c \<longleftrightarrow> c \<in> set ''xrts~''"

definition SUPPORTED_FORMAT_VERSIONS :: "int set" where
  "SUPPORTED_FORMAT_VERSIONS = {2}"

definition ANCHOR_MARK :: char where "ANCHOR_MARK = CHR ''@''"
definition MAX_DATA_HEX :: nat where "MAX_DATA_HEX = 16"
definition SEQ_MODULUS :: int where "SEQ_MODULUS = 10000000"
definition U64_MAX :: int where "U64_MAX = 18446744073709551615"
definition CLOCK_SLACK_US :: int where "CLOCK_SLACK_US = 2000000"

text \<open>CPython refuses to convert a decimal literal of more than 4300 digits.\<close>

definition INT_MAX_STR_DIGITS :: nat where "INT_MAX_STR_DIGITS = 4300"

section \<open>Strict numbers\<close>

definition parse_u :: "string \<Rightarrow> value_error + int" where
  "parse_u text =
     (if text = [] \<or> \<not> isdigit text then Inl (NotDecimal text)
      else if \<not> list_all ascii_digit text \<or> length text > INT_MAX_STR_DIGITS then Inl (IntLiteral text)
      else Inr (dec_value text))"

definition parse_x :: "string \<Rightarrow> value_error + int" where
  "parse_x text =
     (if text = [] \<or> \<not> list_all is_hex_char text then Inl (NotHex text)
      else Inr (hex_value text))"

definition parse_u64_x :: "string \<Rightarrow> value_error + int" where
  "parse_u64_x text = (if length text > 16 then Inl (HexTooWide text) else parse_x text)"

definition parse_abs_stamp :: "string \<Rightarrow> value_error + int" where
  "parse_abs_stamp text =
     (if \<not> starts_with [ANCHOR_MARK] text then Inl (NotAnchored text)
      else parse_x (drop 1 text))"

lemma parse_x_Inr: "parse_x t = Inr v \<longleftrightarrow> t \<noteq> [] \<and> list_all is_hex_char t \<and> v = hex_value t"
  by (auto simp: parse_x_def)

lemma parse_x_nonneg: "parse_x t = Inr v \<Longrightarrow> 0 \<le> v"
  using hex_value_bounds by (auto simp: parse_x_Inr)

lemma parse_x_show [simp]: "parse_x (show_hex n) = Inr (int n)"
  by (simp add: parse_x_def show_hex_chars)

lemma parse_u64_x_bounds: "parse_u64_x t = Inr v \<Longrightarrow> 0 \<le> v \<and> v \<le> U64_MAX"
proof -
  assume *: "parse_u64_x t = Inr v"
  then have len: "length t \<le> 16" and hx: "list_all is_hex_char t" and v: "v = hex_value t"
    by (auto simp: parse_u64_x_def parse_x_Inr split: if_splits)
  from hex_value_bounds [OF hx] have "0 \<le> v" "v < 16 ^ length t" by (auto simp: v)
  moreover have "(16::int) ^ length t \<le> 16 ^ 16"
    using len by (intro power_increasing) auto
  ultimately show ?thesis by (simp add: U64_MAX_def)
qed

section \<open>The stamp chain\<close>

record chain =
  prev :: int
  started :: bool

definition new_chain :: chain where
  "new_chain = \<lparr>prev = 0, started = False\<rparr>"

definition chain_read :: "chain \<Rightarrow> string \<Rightarrow> value_error + (chain \<times> int)" where
  "chain_read c text =
     (if starts_with [ANCHOR_MARK] text then
        bindE (parse_x (drop 1 text)) (\<lambda>v. Inr (c\<lparr>prev := v, started := True\<rparr>, v))
      else
        bindE (parse_x text) (\<lambda>v.
          if \<not> started c then Inl (DeltaBeforeAnchor text)
          else Inr (c\<lparr>prev := prev c + v\<rparr>, prev c + v)))"

section \<open>The UTC correspondence\<close>

record utc_anchor =
  boot_us :: "int option"
  utc_us :: "int option"

definition new_utc_anchor :: utc_anchor where
  "new_utc_anchor = \<lparr>boot_us = None, utc_us = None\<rparr>"

definition utc_valid :: "utc_anchor \<Rightarrow> bool" where
  "utc_valid a \<longleftrightarrow> boot_us a \<noteq> None \<and> utc_us a \<noteq> None"

definition utc_set :: "utc_anchor \<Rightarrow> int \<Rightarrow> int \<Rightarrow> utc_anchor" where
  "utc_set a b u = a\<lparr>boot_us := Some b, utc_us := Some u\<rparr>"

definition utc_resolve :: "utc_anchor \<Rightarrow> int \<Rightarrow> int option" where
  "utc_resolve a record_boot_us =
     (case (boot_us a, utc_us a) of
        (Some b, Some u) \<Rightarrow>
          (if record_boot_us \<ge> b
           then (let delta = record_boot_us - b in Some (min U64_MAX (u + delta)))
           else Some (max 0 (u - (b - record_boot_us))))
      | _ \<Rightarrow> None)"

section \<open>Clock statements\<close>

text \<open>\<open>CLOCK_BASES\<close> and \<open>CLOCK_SOURCES\<close>; a missing key is \<open>None\<close>.\<close>

definition CLOCK_BASES :: "string \<Rightarrow> int option" where
  "CLOCK_BASES b =
     (if b = ''utc'' then Some 3 else if b = ''drift'' then Some 2
      else if b = ''est'' then Some 1 else None)"

definition CLOCK_SOURCES :: "string \<Rightarrow> string option" where
  "CLOCK_SOURCES s =
     (if s = ''sync'' \<or> s = ''warm'' then Some ''utc'' else if s = ''sleep'' then Some ''drift''
      else if s = ''card'' \<or> s = ''build'' then Some ''est'' else None)"

record clock_point =
  cp_t_us :: int
  cp_utc_us :: int
  cp_basis :: string
  cp_src :: string
  cp_detail :: "int option"

definition cp_resolve :: "clock_point \<Rightarrow> int \<Rightarrow> int" where
  "cp_resolve p b = max 0 (min U64_MAX (cp_utc_us p + (b - cp_t_us p)))"

definition cp_label :: "clock_point \<Rightarrow> string" where
  "cp_label p =
     (case cp_detail p of
        None \<Rightarrow> cp_basis p @ ''/'' @ cp_src p
      | Some d \<Rightarrow> cp_basis p @ ''/'' @ cp_src p @ '':'' @ show_int d)"

record clock_correction =
  cc_t_us :: int
  cc_was :: clock_point
  cc_delta_us :: int

definition cc_backwards :: "clock_correction \<Rightarrow> bool" where
  "cc_backwards c \<longleftrightarrow> cp_basis (cc_was c) = ''est'' \<and> cc_delta_us c < - CLOCK_SLACK_US"

definition parse_clock_line :: "string \<Rightarrow> value_error + clock_point" where
  "parse_clock_line line =
     (let fields = split_on CHR '','' line in
      if fields ! 0 \<noteq> ''#clock'' \<or> length fields \<notin> {5, 6} then Inl ClockNeedsFields
      else
        bindE (parse_abs_stamp (fields ! 1)) (\<lambda>t.
        bindE (parse_u64_x (fields ! 2)) (\<lambda>u.
          let basis = fields ! 3; src = fields ! 4 in
          if CLOCK_BASES basis = None \<or> CLOCK_SOURCES src \<noteq> Some basis then Inl (ClockPairing basis src)
          else
            bindE (if length fields = 6 then
                     (if src \<notin> {''card'', ''sleep''} then Inl (ClockNoDetail src)
                      else bindE (parse_u (fields ! 5)) (\<lambda>d. Inr (Some d)))
                   else if src = ''card'' then Inl ClockCardWithoutSeq
                   else Inr None) (\<lambda>detail.
            Inr \<lparr>cp_t_us = t, cp_utc_us = u, cp_basis = basis, cp_src = src, cp_detail = detail\<rparr>))))"

record clock_state =
  cs_current :: "clock_point option"
  cs_first :: "clock_point option"
  cs_corrections :: "clock_correction list"
  cs_lines :: nat

definition new_clock_state :: clock_state where
  "new_clock_state = \<lparr>cs_current = None, cs_first = None, cs_corrections = [], cs_lines = 0\<rparr>"

text \<open>\<open>CLOCK_BASES[b]\<close>: every point offered has a basis of the table (\<open>parse_clock_line\<close>
  checks it, \<open>#utc\<close> builds one of basis \<open>utc\<close>), so the subscript cannot raise.\<close>

definition basis_rank :: "string \<Rightarrow> int" where
  "basis_rank b = (case CLOCK_BASES b of Some r \<Rightarrow> r | None \<Rightarrow> 0)"

definition clock_offer :: "clock_state \<Rightarrow> clock_point \<Rightarrow> bool \<Rightarrow> clock_state" where
  "clock_offer st point from_clock_line =
     (let st = (if from_clock_line
                then st\<lparr>cs_lines := cs_lines st + 1,
                        cs_first := (if cs_first st = None then Some point else cs_first st)\<rparr>
                else st) in
      case cs_current st of
        None \<Rightarrow> st\<lparr>cs_current := Some point\<rparr>
      | Some current \<Rightarrow>
          if basis_rank (cp_basis point) < basis_rank (cp_basis current) then st
          else
            (let st = (if cp_basis point = ''utc'' \<and> cp_basis current \<noteq> ''utc''
                       then st\<lparr>cs_corrections := cs_corrections st
                              @ [\<lparr>cc_t_us = cp_t_us point, cc_was = current,
                                  cc_delta_us = cp_utc_us point - cp_resolve current (cp_t_us point)\<rparr>]\<rparr>
                       else st)
             in st\<lparr>cs_current := Some point\<rparr>))"

definition clock_resolve :: "clock_state \<Rightarrow> int \<Rightarrow> (int \<times> string) option" where
  "clock_resolve st b =
     (case cs_current st of None \<Rightarrow> None | Some p \<Rightarrow> Some (cp_resolve p b, cp_basis p))"

section \<open>Retention windows\<close>

record gap =
  gap_t_us :: int
  gap_chunks :: int
  gap_bytes :: int
  gap_first_seq :: int
  gap_last_seq :: int

definition gap_span :: "gap \<Rightarrow> int" where
  "gap_span g =
     (if gap_last_seq g \<ge> gap_first_seq g then gap_last_seq g - gap_first_seq g + 1
      else SEQ_MODULUS - gap_first_seq g + gap_last_seq g + 1)"

definition gap_punctured :: "gap \<Rightarrow> bool" where
  "gap_punctured g \<longleftrightarrow> gap_chunks g \<noteq> gap_span g"

definition gap_window :: "gap \<Rightarrow> string" where
  "gap_window g =
     (let window = show_int (gap_first_seq g) @ ''..'' @ show_int (gap_last_seq g) in
      if \<not> gap_punctured g then window
      else window @ '' (punctured: the window is '' @ show_int (gap_span g) @ '' seqs wide)'')"

section \<open>Identity lines\<close>

text \<open>\<open>Ident.fields\<close>: the keys in the writer's order.\<close>

type_synonym ident = "(string \<times> string) list"

definition ident_get :: "ident \<Rightarrow> string \<Rightarrow> string option" where
  "ident_get i key = map_of i key"

fun ident_items :: "string list \<Rightarrow> ident \<Rightarrow> value_error + ident" where
  "ident_items [] parsed = Inr parsed"
| "ident_items (item # items) parsed =
     (case partition_on CHR ''='' item of
        (key, sep, val) \<Rightarrow>
          if \<not> sep \<or> key = [] then Inl (IdentNotKeyValue item)
          else if key \<in> fst ` set parsed then Inl (IdentRepeats key)
          else ident_items items (parsed @ [(key, val)]))"

definition parse_ident_line :: "string \<Rightarrow> value_error + ident" where
  "parse_ident_line line =
     (let fields = split_on CHR '','' line in
      if fields ! 0 \<noteq> ''#ident'' \<or> length fields < 2 then Inl IdentNeedsFields
      else ident_items (drop 1 fields) [])"

definition ident_date_label :: "ident \<Rightarrow> string" where
  "ident_date_label i =
     (let date = (case ident_get i ''date'' of Some d \<Rightarrow> d | None \<Rightarrow> ''-'');
          clock = (case ident_get i ''clock'' of Some c \<Rightarrow> c | None \<Rightarrow> ''none'') in
      if date = ''-'' \<or> clock = ''none'' then ''unknown (no clock statement)''
      else
        (let basis = fst (partition_on CHR ''/'' clock) in
         if basis = ''est'' then date @ '' at least ('' @ clock @ '': a lower bound, not a reading)''
         else if basis = ''drift'' then date @ '' ('' @ clock @ '': ran through deep sleep, may be minutes off)''
         else date @ '' ('' @ clock @ '')''))"

section \<open>The leading token and the field checks of a line\<close>

text \<open>The source reads \<open>token[0]\<close>; its callers hand over a nonempty token.\<close>

definition split_token :: "string \<Rightarrow> value_error + (string \<times> int \<times> string)" where
  "split_token token =
     (let kind = take 1 token;
          digits = takeWhile is_hex_char (drop 1 token);
          flags = dropWhile is_hex_char (drop 1 token) in
      bindE (parse_x digits) (\<lambda>tag.
        if \<not> list_all is_flag_letter flags then Inl (UnknownFlags flags token)
        else Inr (kind, tag, flags)))"

definition check_record :: "string list \<Rightarrow> value_error + unit" where
  "check_record cols =
     (if length cols \<noteq> RECORD_FIELDS then Inl (FieldCount (length cols))
      else
        bindE (parse_x (cols ! 2)) (\<lambda>_.
          let data = cols ! 3 in
          if length data mod 2 \<noteq> 0 then Inl (HalfByte (length data))
          else if length data > MAX_DATA_HEX then Inl (DataTooLong (length data div 2))
          else if data \<noteq> [] then bindE (parse_x data) (\<lambda>_. Inr ())
          else Inr ()))"

definition check_text :: "string list \<Rightarrow> value_error + unit" where
  "check_text cols =
     (if length cols < TEXT_FIELDS then Inl (TextFieldCount (length cols))
      else if length (cols ! 0) \<noteq> 2 then Inl (TextToken (cols ! 0))
      else Inr ())"

section \<open>Facts about the stamp chain\<close>

lemma starts_with_Cons: "starts_with [c] (x # s) \<longleftrightarrow> x = c"
  by (auto simp: starts_with_def)

lemma hex_not_anchor: "list_all is_hex_char s \<Longrightarrow> \<not> starts_with [ANCHOR_MARK] s"
proof -
  have "\<not> is_hex_char ANCHOR_MARK" by code_simp
  then show "list_all is_hex_char s \<Longrightarrow> \<not> starts_with [ANCHOR_MARK] s"
    by (cases s) (auto simp: starts_with_def)
qed

lemma chain_read_anchor: "chain_read c (ANCHOR_MARK # show_hex n) = Inr (c\<lparr>prev := int n, started := True\<rparr>, int n)"
  by (simp add: chain_read_def starts_with_Cons)

lemma chain_read_step:
  "started c \<Longrightarrow> chain_read c (show_hex n) = Inr (c\<lparr>prev := prev c + int n\<rparr>, prev c + int n)"
  by (simp add: chain_read_def hex_not_anchor show_hex_chars)

lemma chain_read_Inr:
  assumes "chain_read c t = Inr (c', v)"
  shows "started c'" and "prev c' = v"
    and "starts_with [ANCHOR_MARK] t \<Longrightarrow> 0 \<le> v"
    and "\<not> starts_with [ANCHOR_MARK] t \<Longrightarrow> started c \<and> prev c \<le> v"
  using assms parse_x_nonneg
  by (auto simp: chain_read_def err_simps split: if_splits)

text \<open>
  The writer's side of the column, as the format describes it: an anchored line carries the
  absolute time, any other line the step from the line before.
\<close>

fun stamp_column :: "nat \<Rightarrow> (bool \<times> nat) list \<Rightarrow> string list" where
  "stamp_column p [] = []"
| "stamp_column p ((anchored, t) # xs) =
     (if anchored then ANCHOR_MARK # show_hex t else show_hex (t - p)) # stamp_column t xs"

fun steps_forward :: "nat \<Rightarrow> (bool \<times> nat) list \<Rightarrow> bool" where
  "steps_forward p [] = True"
| "steps_forward p ((anchored, t) # xs) = ((anchored \<or> p \<le> t) \<and> steps_forward t xs)"

fun chain_run :: "chain \<Rightarrow> string list \<Rightarrow> value_error + int list" where
  "chain_run c [] = Inr []"
| "chain_run c (t # ts) =
     bindE (chain_read c t) (\<lambda>(c', v). bindE (chain_run c' ts) (\<lambda>vs. Inr (v # vs)))"

lemma chain_run_column:
  "started c \<Longrightarrow> prev c = int p \<Longrightarrow> steps_forward p xs \<Longrightarrow>
   chain_run c (stamp_column p xs) = Inr (map (\<lambda>(a, t). int t) xs)"
proof (induction xs arbitrary: c p)
  case Nil
  then show ?case by simp
next
  case (Cons x xs)
  obtain a t where x: "x = (a, t)" by (cases x)
  show ?case
  proof (cases a)
    case True
    with Cons x show ?thesis by (simp add: chain_read_anchor)
  next
    case False
    with Cons.prems x have "p \<le> t" by simp
    with False Cons x show ?thesis by (simp add: chain_read_step)
  qed
qed

text \<open>
  C20: the stamp column decodes to the times that were written.  For every list of lines whose
  first line is anchored and whose unanchored lines do not step back in time, reading the
  column the writer produces through \<open>Chain\<close> gives exactly the absolute times.
\<close>

theorem chain_decodes_column:
  assumes "steps_forward t ((True, t) # xs)"
  shows "chain_run new_chain (stamp_column 0 ((True, t) # xs)) = Inr (int t # map (\<lambda>(a, t). int t) xs)"
proof -
  have "chain_run \<lparr>prev = int t, started = True\<rparr> (stamp_column t xs) = Inr (map (\<lambda>(a, t). int t) xs)"
    using assms by (intro chain_run_column) auto
  then show ?thesis by (simp add: chain_read_anchor new_chain_def)
qed

theorem chain_decodes_column_witness:
  "chain_run new_chain (stamp_column 0 [(True, 4096), (False, 4100), (False, 4200), (True, 7)])
     = Inr [4096, 4100, 4200, 7]"
  using chain_decodes_column [of 4096 "[(False, 4100), (False, 4200), (True, 7)]"] by simp

section \<open>Facts about the clock\<close>

text \<open>
  The two projections onto the UTC axis agree.  \<open>UtcAnchor.resolve\<close>, which reads \<open>#utc\<close>
  lines, and \<open>ClockPoint.resolve\<close>, which reads \<open>#clock\<close> lines, compute the same saturating
  value for every boot time whenever the UTC reading fits the 64 bits the line parser allows,
  and the value stays inside the 64-bit range.
\<close>

theorem utc_resolve_is_clock_resolve:
  assumes "cp_utc_us p = u" and "0 \<le> u" and "u \<le> U64_MAX"
  shows "utc_resolve (utc_set a (cp_t_us p) u) b = Some (cp_resolve p b)
     \<and> 0 \<le> cp_resolve p b \<and> cp_resolve p b \<le> U64_MAX"
  using assms by (auto simp: utc_resolve_def utc_set_def cp_resolve_def U64_MAX_def min_def max_def Let_def)

theorem utc_resolve_is_clock_resolve_witness:
  "utc_resolve (utc_set new_utc_anchor 500 1700000000000000) 1500 = Some 1700000000001000"
  using utc_resolve_is_clock_resolve [of "\<lparr>cp_t_us = 500, cp_utc_us = 1700000000000000,
     cp_basis = ''utc'', cp_src = ''sync'', cp_detail = None\<rparr>" 1700000000000000 new_utc_anchor 1500]
  by (simp add: U64_MAX_def cp_resolve_def)

definition point_rank :: "clock_point \<Rightarrow> int" where
  "point_rank p = basis_rank (cp_basis p)"

definition offers :: "(clock_point \<times> bool) list \<Rightarrow> clock_state" where
  "offers ps = foldl (\<lambda>st (p, from_line). clock_offer st p from_line) new_clock_state ps"

text \<open>The reading rule of the clock specification: the last statement of the best basis.\<close>

definition best_statement :: "clock_point list \<Rightarrow> clock_point" where
  "best_statement ps = last (filter (\<lambda>p. \<forall>q\<in>set ps. point_rank q \<le> point_rank p) ps)"

lemma offers_snoc: "offers (ps @ [(p, f)]) = clock_offer (offers ps) p f"
  by (simp add: offers_def)

lemma offers_Nil: "offers [] = new_clock_state"
  by (simp add: offers_def)

lemma clock_offer_current:
  "cs_current (clock_offer st p f) =
     (case cs_current st of None \<Rightarrow> Some p
      | Some c \<Rightarrow> if point_rank p < point_rank c then Some c else Some p)"
  by (auto simp: clock_offer_def point_rank_def Let_def split: option.splits)

lemma best_exists: "ps \<noteq> [] \<Longrightarrow> filter (\<lambda>p. \<forall>q\<in>set ps. point_rank q \<le> point_rank p) ps \<noteq> []"
proof -
  assume ne: "ps \<noteq> []"
  then have "Max (point_rank ` set ps) \<in> point_rank ` set ps" by (intro Max_in) auto
  then obtain p where "p \<in> set ps" "point_rank p = Max (point_rank ` set ps)" by auto
  then have "\<forall>q\<in>set ps. point_rank q \<le> point_rank p" by simp
  with \<open>p \<in> set ps\<close> show ?thesis by (auto simp: filter_empty_conv)
qed

lemma best_statement_max:
  "ps \<noteq> [] \<Longrightarrow> best_statement ps \<in> set ps \<and> (\<forall>q\<in>set ps. point_rank q \<le> point_rank (best_statement ps))"
  using last_in_set [OF best_exists [of ps]] by (auto simp: best_statement_def)

lemma best_statement_snoc:
  assumes "ps \<noteq> []"
  shows "best_statement (ps @ [p]) =
    (if point_rank p < point_rank (best_statement ps) then best_statement ps else p)"
proof (cases "point_rank p < point_rank (best_statement ps)")
  case True
  have "filter (\<lambda>r. \<forall>q\<in>set (ps @ [p]). point_rank q \<le> point_rank r) (ps @ [p])
      = filter (\<lambda>r. \<forall>q\<in>set ps. point_rank q \<le> point_rank r) ps"
    using True best_statement_max [OF assms]
    by (auto simp: filter_empty_conv intro!: filter_cong)
  with True show ?thesis by (simp add: best_statement_def)
next
  case False
  then have "\<forall>q\<in>set (ps @ [p]). point_rank q \<le> point_rank p"
    using best_statement_max [OF assms] by auto
  with False show ?thesis by (simp add: best_statement_def)
qed

text \<open>
  C21: \<open>ClockState.offer\<close> implements the reading rule of the clock specification.  After any
  nonempty sequence of statements, from \<open>#clock\<close> and from \<open>#utc\<close> lines, the statement in
  scope is the last one among those of the best basis offered so far: a later line overrides
  an earlier one of the same or a worse basis and never a better one.
\<close>

theorem clock_state_keeps_best:
  assumes "ps \<noteq> []"
  shows "cs_current (offers ps) = Some (best_statement (map fst ps))"
  using assms
proof (induction ps rule: rev_induct)
  case Nil
  then show ?case by simp
next
  case (snoc x ps)
  obtain p f where x: "x = (p, f)" by (cases x)
  show ?case
  proof (cases "ps = []")
    case True
    then show ?thesis
      by (simp add: x offers_snoc offers_Nil clock_offer_current new_clock_state_def best_statement_def
            del: append.simps flip: append_Nil)
  next
    case False
    with snoc.IH show ?thesis
      by (simp add: x offers_snoc clock_offer_current best_statement_snoc)
  qed
qed

theorem clock_state_keeps_best_witness:
  "cs_current (offers
     [(\<lparr>cp_t_us = 0, cp_utc_us = 5, cp_basis = ''est'', cp_src = ''card'', cp_detail = Some 3\<rparr>, True),
      (\<lparr>cp_t_us = 9, cp_utc_us = 90, cp_basis = ''utc'', cp_src = ''sync'', cp_detail = None\<rparr>, False),
      (\<lparr>cp_t_us = 10, cp_utc_us = 70, cp_basis = ''drift'', cp_src = ''sleep'', cp_detail = None\<rparr>, True)])
   = Some \<lparr>cp_t_us = 9, cp_utc_us = 90, cp_basis = ''utc'', cp_src = ''sync'', cp_detail = None\<rparr>"
  using clock_state_keeps_best [of
     "[(\<lparr>cp_t_us = 0, cp_utc_us = 5, cp_basis = ''est'', cp_src = ''card'', cp_detail = Some 3\<rparr>, True),
      (\<lparr>cp_t_us = 9, cp_utc_us = 90, cp_basis = ''utc'', cp_src = ''sync'', cp_detail = None\<rparr>, False),
      (\<lparr>cp_t_us = 10, cp_utc_us = 70, cp_basis = ''drift'', cp_src = ''sleep'', cp_detail = None\<rparr>, True)]"]
  by (simp add: best_statement_def point_rank_def basis_rank_def CLOCK_BASES_def)

lemma basis_rank_max: "basis_rank b \<le> 3" and basis_rank_utc: "basis_rank b = 3 \<longleftrightarrow> b = ''utc''"
  by (auto simp: basis_rank_def CLOCK_BASES_def)

lemma clock_offer_corrections:
  "cs_corrections (clock_offer st p f) = cs_corrections st \<or>
   (\<exists>c d. cs_current st = Some c \<and> cp_basis c \<noteq> ''utc'' \<and> cp_basis p = ''utc'' \<and>
      cs_corrections (clock_offer st p f) = cs_corrections st @ [d] \<and> cc_was d = c)"
  by (auto simp: clock_offer_def Let_def split: option.splits)

lemma clock_offer_utc_stays:
  assumes "cs_current st = Some c" and "cp_basis c = ''utc''"
  shows "cs_corrections (clock_offer st p f) = cs_corrections st"
    and "\<exists>c'. cs_current (clock_offer st p f) = Some c' \<and> cp_basis c' = ''utc''"
proof -
  show "cs_corrections (clock_offer st p f) = cs_corrections st"
    using assms clock_offer_corrections [of st p f] by auto
  have "basis_rank (cp_basis p) < basis_rank ''utc'' \<or> cp_basis p = ''utc''"
    using basis_rank_max [of "cp_basis p"] basis_rank_utc [of "cp_basis p"] basis_rank_utc [of "''utc''"]
    by (simp add: order_less_le)
  then show "\<exists>c'. cs_current (clock_offer st p f) = Some c' \<and> cp_basis c' = ''utc''"
    using assms by (auto simp: clock_offer_current point_rank_def)
qed

definition corrections_inv :: "clock_state \<Rightarrow> bool" where
  "corrections_inv st \<longleftrightarrow>
     cs_corrections st = [] \<or>
     (length (cs_corrections st) = 1 \<and> (\<exists>c. cs_current st = Some c \<and> cp_basis c = ''utc''))"

lemma clock_offer_corrections_inv: "corrections_inv st \<Longrightarrow> corrections_inv (clock_offer st p f)"
proof (cases "cs_corrections st = []")
  case True
  from clock_offer_corrections [of st p f] show ?thesis
  proof
    assume "cs_corrections (clock_offer st p f) = cs_corrections st"
    with True show ?thesis by (simp add: corrections_inv_def)
  next
    assume "\<exists>c d. cs_current st = Some c \<and> cp_basis c \<noteq> ''utc'' \<and> cp_basis p = ''utc'' \<and>
      cs_corrections (clock_offer st p f) = cs_corrections st @ [d] \<and> cc_was d = c"
    then obtain c d where *: "cs_current st = Some c" "cp_basis p = ''utc''"
      "cs_corrections (clock_offer st p f) = [d]" using True by auto
    have "\<not> point_rank p < point_rank c"
      using * basis_rank_max [of "cp_basis c"] by (simp add: point_rank_def basis_rank_def CLOCK_BASES_def)
    with * show ?thesis by (simp add: corrections_inv_def clock_offer_current)
  qed
next
  case False
  assume "corrections_inv st"
  with False obtain c where "length (cs_corrections st) = 1" "cs_current st = Some c" "cp_basis c = ''utc''"
    by (auto simp: corrections_inv_def)
  with clock_offer_utc_stays [of st c p f] show ?thesis by (simp add: corrections_inv_def)
qed

text \<open>
  C39: a file has at most one clock correction, and it is one against a statement that was not a
  reading.  Once a reading (\<open>utc\<close>) is in scope nothing but another reading replaces it, so the
  error of an estimate or of a sleep clock is measured exactly once, by the first reading.
\<close>

theorem clock_corrected_once:
  "length (cs_corrections (offers ps)) \<le> 1 \<and>
   (\<forall>c\<in>set (cs_corrections (offers ps)). cp_basis (cc_was c) \<noteq> ''utc'')"
proof (induction ps rule: rev_induct)
  case Nil
  then show ?case by (simp add: offers_Nil new_clock_state_def)
next
  case (snoc x ps)
  obtain p f where x: "x = (p, f)" by (cases x)
  have inv: "corrections_inv (offers qs)" for qs
    by (induction qs rule: rev_induct)
       (auto simp: offers_Nil new_clock_state_def offers_snoc clock_offer_corrections_inv,
        simp add: corrections_inv_def)
  have "length (cs_corrections (offers (ps @ [x]))) \<le> 1"
    using inv [of "ps @ [x]"] by (auto simp: corrections_inv_def)
  moreover have "\<forall>c\<in>set (cs_corrections (clock_offer (offers ps) p f)). cp_basis (cc_was c) \<noteq> ''utc''"
    using snoc.IH clock_offer_corrections [of "offers ps" p f] by auto
  ultimately show ?case by (simp add: x offers_snoc)
qed

theorem clock_corrected_once_witness:
  "length (cs_corrections (offers
     [(\<lparr>cp_t_us = 0, cp_utc_us = 5, cp_basis = ''est'', cp_src = ''card'', cp_detail = Some 3\<rparr>, True),
      (\<lparr>cp_t_us = 9, cp_utc_us = 90, cp_basis = ''utc'', cp_src = ''sync'', cp_detail = None\<rparr>, False)])) \<le> 1"
  using clock_corrected_once [of
     "[(\<lparr>cp_t_us = 0, cp_utc_us = 5, cp_basis = ''est'', cp_src = ''card'', cp_detail = Some 3\<rparr>, True),
      (\<lparr>cp_t_us = 9, cp_utc_us = 90, cp_basis = ''utc'', cp_src = ''sync'', cp_detail = None\<rparr>, False)]"] by blast

section \<open>Facts about retention windows\<close>

text \<open>
  The width of a retention window is the modular distance.  For two sequence numbers of the
  counter, \<open>Gap.span\<close> lies between 1 and the modulus and counting \<open>span - 1\<close> steps from the
  first endpoint, wrapping at 10 000 000, reaches the last one.
\<close>

theorem gap_span_modular:
  assumes "0 \<le> gap_first_seq g" and "gap_first_seq g < SEQ_MODULUS"
    and "0 \<le> gap_last_seq g" and "gap_last_seq g < SEQ_MODULUS"
  shows "1 \<le> gap_span g \<and> gap_span g \<le> SEQ_MODULUS
     \<and> (gap_first_seq g + gap_span g - 1) mod SEQ_MODULUS = gap_last_seq g"
proof (cases "gap_last_seq g \<ge> gap_first_seq g")
  case True
  with assms show ?thesis by (simp add: gap_span_def)
next
  case False
  have "(SEQ_MODULUS + gap_last_seq g) mod SEQ_MODULUS = gap_last_seq g"
    using assms by simp
  with False assms show ?thesis by (simp add: gap_span_def SEQ_MODULUS_def)
qed

theorem gap_span_modular_witness:
  "gap_span \<lparr>gap_t_us = 0, gap_chunks = 3, gap_bytes = 9, gap_first_seq = 9999999, gap_last_seq = 1\<rparr> = 3
   \<and> (9999999 + 3 - 1) mod SEQ_MODULUS = 1"
  using gap_span_modular [of "\<lparr>gap_t_us = 0, gap_chunks = 3, gap_bytes = 9, gap_first_seq = 9999999, gap_last_seq = 1\<rparr>"]
  by (simp add: gap_span_def SEQ_MODULUS_def)

section \<open>Facts about tokens, records and identity lines\<close>

lemma flag_not_hex: "is_flag_letter c \<Longrightarrow> \<not> is_hex_char c"
proof -
  have "\<forall>c\<in>set ''xrts~''. \<not> is_hex_char c" by code_simp
  then show "is_flag_letter c \<Longrightarrow> \<not> is_hex_char c" by (auto simp: is_flag_letter_def)
qed

text \<open>
  The leading token delimits itself.  A token built from any kind letter, the uppercase hex
  of any tag and any flag letters splits back into exactly these three parts, because no flag
  letter is a hex digit.
\<close>

theorem split_token_roundtrip:
  assumes "list_all is_flag_letter flags"
  shows "split_token (k # show_hex tag @ flags) = Inr ([k], int tag, flags)"
proof -
  have 1: "takeWhile is_hex_char (show_hex tag @ flags) = show_hex tag"
    and 2: "dropWhile is_hex_char (show_hex tag @ flags) = flags"
  proof -
    have all: "\<And>c. c \<in> set (show_hex tag) \<Longrightarrow> is_hex_char c"
      using show_hex_chars by (auto simp: list_all_iff)
    have none: "takeWhile is_hex_char flags = []" "dropWhile is_hex_char flags = flags"
      using assms flag_not_hex by (cases flags; simp)+
    show "takeWhile is_hex_char (show_hex tag @ flags) = show_hex tag"
      using all none by (simp add: takeWhile_append2)
    show "dropWhile is_hex_char (show_hex tag @ flags) = flags"
      using all none by (simp add: dropWhile_append2)
  qed
  show ?thesis using assms by (simp add: split_token_def Let_def 1 2)
qed

theorem split_token_roundtrip_witness: "split_token (CHR ''C'' # show_hex 26 @ ''xs'') = Inr (''C'', 26, ''xs'')"
  using split_token_roundtrip [of "''xs''" "CHR ''C''" 26] by (simp add: is_flag_letter_def)

text \<open>
  The field checks of a record line are exactly the format.  A line's fields pass iff there
  are four of them, the identifier is uppercase hex and the payload is at most sixteen uppercase
  hex digits in whole bytes.
\<close>

theorem check_record_iff:
  "check_record cols = Inr () \<longleftrightarrow>
     length cols = 4 \<and> cols ! 2 \<noteq> [] \<and> list_all is_hex_char (cols ! 2) \<and>
     list_all is_hex_char (cols ! 3) \<and> even (length (cols ! 3)) \<and> length (cols ! 3) \<le> 16"
  by (auto simp: check_record_def RECORD_FIELDS_def MAX_DATA_HEX_def err_simps parse_x_Inr Let_def
           even_iff_mod_2_eq_zero)

definition ident_ok :: "ident \<Rightarrow> bool" where
  "ident_ok i \<longleftrightarrow> i \<noteq> [] \<and> distinct (map fst i) \<and>
     (\<forall>(k, v)\<in>set i. k \<noteq> [] \<and> CHR ''='' \<notin> set k \<and> CHR '','' \<notin> set k \<and> CHR '','' \<notin> set v)"

definition print_ident :: "ident \<Rightarrow> string" where
  "print_ident i = join_with '','' (''#ident'' # map (\<lambda>(k, v). k @ ''='' @ v) i)"

lemma partition_on_found: "partition_on c s = (a, True, b) \<longleftrightarrow> s = a @ c # b \<and> c \<notin> set a"
proof (induction s arbitrary: a)
  case Nil
  then show ?case by simp
next
  case (Cons x s)
  obtain a' sep r where p: "partition_on c s = (a', sep, r)"
    by (cases "partition_on c s")
  show ?case
  proof (cases a)
    case Nil
    then show ?thesis by (auto simp: p)
  next
    case (Cons y ys)
    with Cons.IH [of ys] show ?thesis by (simp add: p) blast
  qed
qed

lemma ident_items_Inr:
  "ident_items items parsed = Inr i \<longleftrightarrow>
   (\<exists>kvs. i = parsed @ kvs \<and> items = map (\<lambda>(k, v). k @ ''='' @ v) kvs \<and>
      (\<forall>(k, v)\<in>set kvs. k \<noteq> [] \<and> CHR ''='' \<notin> set k) \<and>
      distinct (map fst kvs) \<and> fst ` set kvs \<inter> fst ` set parsed = {})"
  (is "?L items parsed \<longleftrightarrow> ?R items parsed")
proof (induction items arbitrary: parsed)
  case Nil
  then show ?case by auto
next
  case (Cons item items)
  obtain k sep v where p: "partition_on CHR ''='' item = (k, sep, v)"
    by (cases "partition_on CHR ''='' item") auto
  show ?case
  proof
    assume L: "?L (item # items) parsed"
    with p have sep: "sep" "k \<noteq> []" "k \<notin> fst ` set parsed" "?L items (parsed @ [(k, v)])"
      by (auto split: if_splits)
    then obtain kvs where "i = (parsed @ [(k, v)]) @ kvs" "items = map (\<lambda>(k, v). k @ ''='' @ v) kvs"
      "\<forall>(k, v)\<in>set kvs. k \<noteq> [] \<and> CHR ''='' \<notin> set k" "distinct (map fst kvs)"
      "fst ` set kvs \<inter> fst ` set (parsed @ [(k, v)]) = {}"
      using Cons.IH [of "parsed @ [(k, v)]"] by blast
    moreover have "item = k @ ''='' @ v" "CHR ''='' \<notin> set k"
      using p sep partition_on_found [of "CHR ''=''" item k v] by auto
    ultimately show "?R (item # items) parsed"
      using sep by (intro exI [of _ "(k, v) # kvs"]) auto
  next
    assume "?R (item # items) parsed"
    then obtain kvs where kvs: "i = parsed @ kvs" "item # items = map (\<lambda>(k, v). k @ ''='' @ v) kvs"
      "\<forall>(k, v)\<in>set kvs. k \<noteq> [] \<and> CHR ''='' \<notin> set k" "distinct (map fst kvs)"
      "fst ` set kvs \<inter> fst ` set parsed = {}" by (elim exE conjE) (rule that, assumption+)
    from kvs(2) have "kvs \<noteq> []" by auto
    then obtain k' v' kvs' where kvs0: "kvs = (k', v') # kvs'"
      by (metis list.exhaust surj_pair)
    with kvs(2) have kvs': "kvs = (k', v') # kvs'" "item = k' @ ''='' @ v'"
      "items = map (\<lambda>(k, v). k @ ''='' @ v) kvs'" by simp_all
    have "CHR ''='' \<notin> set k'" using kvs(3) unfolding kvs0 by simp
    then have "partition_on CHR ''='' item = (k', True, v')"
      unfolding partition_on_found kvs'(2) by simp
    moreover have "?R items (parsed @ [(k', v')])"
      using kvs kvs' by (intro exI [of _ kvs']) auto
    then have "?L items (parsed @ [(k', v')])"
      using Cons.IH by blast
    moreover have "k' \<noteq> []" "k' \<notin> fst ` set parsed"
      using kvs kvs' by auto
    ultimately show "?L (item # items) parsed"
      by simp
  qed
qed

text \<open>
  C40: an identity line means exactly what it spells.  \<open>parse_ident_line\<close> accepts a line iff it is
  the printed form of a nonempty mapping whose keys are distinct, nonempty and free of \<open>=\<close>
  (values may hold further \<open>=\<close>), and it returns that mapping, in the line's order.
\<close>

theorem parse_ident_iff: "parse_ident_line line = Inr i \<longleftrightarrow> ident_ok i \<and> line = print_ident i"
proof
  assume "parse_ident_line line = Inr i"
  then obtain rest where f: "split_on CHR '','' line = ''#ident'' # rest" "rest \<noteq> []"
      and items: "ident_items rest [] = Inr i"
    by (cases "split_on CHR '','' line") (auto simp: parse_ident_line_def Let_def split: if_splits)
  from items have i: "rest = map (\<lambda>(k, v). k @ ''='' @ v) i"
     "\<forall>(k, v)\<in>set i. k \<noteq> [] \<and> CHR ''='' \<notin> set k" "distinct (map fst i)"
    by (auto simp: ident_items_Inr)
  have "CHR '','' \<notin> set k \<and> CHR '','' \<notin> set v" if "(k, v) \<in> set i" for k v
  proof -
    have "k @ ''='' @ v \<in> set rest" using that i(1) by force
    then have "CHR '','' \<notin> set (k @ ''='' @ v)"
      using split_on_no_sep [of "k @ ''='' @ v" "CHR '',''" line] f by auto
    then show ?thesis by auto
  qed
  then have "ident_ok i" using i f by (auto simp: ident_ok_def)
  moreover have "line = print_ident i"
    using join_split [of "CHR '',''" line] f i by (simp add: print_ident_def)
  ultimately show "ident_ok i \<and> line = print_ident i" by blast
next
  assume *: "ident_ok i \<and> line = print_ident i"
  have sep: "\<forall>x\<in>set (''#ident'' # map (\<lambda>(k, v). k @ ''='' @ v) i). CHR '','' \<notin> set x"
    using * by (auto simp: ident_ok_def)
  have "split_on CHR '','' line = ''#ident'' # map (\<lambda>(k, v). k @ ''='' @ v) i"
    using * split_join [OF sep] by (simp add: print_ident_def del: join_with.simps)
  moreover have "ident_items (map (\<lambda>(k, v). k @ ''='' @ v) i) [] = Inr i"
    using * by (subst ident_items_Inr) (auto simp: ident_ok_def)
  ultimately show "parse_ident_line line = Inr i"
    using * by (simp add: parse_ident_line_def ident_ok_def Let_def Suc_le_eq)
qed

end
