(* ===== verification/LogFile.thy ===== *)
theory LogFile
  imports Stamps
begin

text \<open>
  \<open>script/sdlog.py\<close>, whole files: \<open>Report\<close> and \<open>parse_file\<close> (the verdict on a card file),
  \<open>StreamReader\<close> (the records the decoder and \<open>extract\<close> read) and the commands' exit status.
  A file is its bytes decoded as latin-1, a \<open>string\<close>.  A raised \<open>ValueError\<close> leaves behind the
  mutations made before it, so a line handler returns the state together with how it ended.
\<close>

section \<open>Reports\<close>

record source =
  src_kind :: string
  src_label :: string
  src_tag :: int
  src_origin :: string
  src_detail :: string

record drop_marker =
  drop_t_us :: int
  drop_what :: string
  drop_delta :: int
  drop_total :: int

text \<open>\<open>bad_lines\<close> holds the line number, the error and the first 80 characters of the line.\<close>

record report =
  r_path :: string
  format_version :: "int option"
  r_seq :: "int option"
  esphome_version :: string
  r_sources :: "source list"
  counts :: "(string \<times> int) list"
  r_labels :: "(string \<times> int) list"
  drops :: "drop_marker list"
  gaps :: "gap list"
  rotate_to :: string
  close_reason :: "string option"
  torn_tail :: bool
  bad_lines :: "(nat \<times> value_error \<times> string) list"
  first_t_us :: "int option"
  last_t_us :: "int option"
  first_utc_us :: "int option"
  last_utc_us :: "int option"
  r_origin :: "string option"
  idents :: "ident list"
  r_clock :: clock_state
  utc_anchor_count :: nat
  total_lines :: nat
  legacy :: bool

definition new_report :: "string \<Rightarrow> report" where
  "new_report path =
     \<lparr>r_path = path, format_version = None, r_seq = None, esphome_version = [], r_sources = [],
      counts = [], r_labels = [], drops = [], gaps = [], rotate_to = [], close_reason = None,
      torn_tail = False, bad_lines = [], first_t_us = None, last_t_us = None, first_utc_us = None,
      last_utc_us = None, r_origin = None, idents = [], r_clock = new_clock_state,
      utc_anchor_count = 0, total_lines = 0, legacy = False\<rparr>"

definition dropped_total :: "report \<Rightarrow> int" where
  "dropped_total r = sum_list (map drop_delta (drops r))"

definition discarded_chunks_total :: "report \<Rightarrow> int" where
  "discarded_chunks_total r = sum_list (map gap_chunks (gaps r))"

definition discarded_bytes_total :: "report \<Rightarrow> int" where
  "discarded_bytes_total r = sum_list (map gap_bytes (gaps r))"

fun label_in :: "source list \<Rightarrow> int \<Rightarrow> string \<Rightarrow> string" where
  "label_in [] tag token = token"
| "label_in (src # srcs) tag token = (if src_tag src = tag then src_label src else label_in srcs tag token)"

definition label_for :: "report \<Rightarrow> int \<Rightarrow> string \<Rightarrow> string" where
  "label_for r tag token = label_in (r_sources r) tag token"

definition unsupported_version :: "report \<Rightarrow> bool" where
  "unsupported_version r \<longleftrightarrow>
     (case format_version r of None \<Rightarrow> False | Some v \<Rightarrow> v \<notin> SUPPORTED_FORMAT_VERSIONS)"

definition clean :: "report \<Rightarrow> bool" where
  "clean r \<longleftrightarrow> bad_lines r = []"

text \<open>\<open>d[k] = d.get(k, 0) + n\<close> on a dictionary in insertion order.\<close>

fun bump :: "string \<Rightarrow> int \<Rightarrow> (string \<times> int) list \<Rightarrow> (string \<times> int) list" where
  "bump k n [] = [(k, n)]"
| "bump k n ((k', m) # d) = (if k' = k then (k, m + n) # d else (k', m) # bump k n d)"

definition note_time :: "report \<Rightarrow> int \<Rightarrow> report" where
  "note_time r t =
     r\<lparr>first_t_us := (if first_t_us r = None then Some t else first_t_us r), last_t_us := Some t\<rparr>"

definition note_utc :: "report \<Rightarrow> int option \<Rightarrow> report" where
  "note_utc r utc =
     (case utc of None \<Rightarrow> r
      | Some u \<Rightarrow> r\<lparr>first_utc_us := (if first_utc_us r = None then Some u else first_utc_us r),
                    last_utc_us := Some u\<rparr>)"

section \<open>Meta lines\<close>

text \<open>How a handler ends: go on with the next line, return the report, or raise.\<close>

datatype flow = Next | Return | Raise value_error

text \<open>\<open>parse_file\<close>'s local state: the report and the two running correspondences.\<close>

record pstate =
  rep :: report
  ps_chain :: chain
  ps_utc :: utc_anchor

definition raise_or :: "pstate \<Rightarrow> value_error + 'a \<Rightarrow> ('a \<Rightarrow> pstate \<times> flow) \<Rightarrow> pstate \<times> flow" where
  "raise_or st m f = (case m of Inl e \<Rightarrow> (st, Raise e) | Inr v \<Rightarrow> f v)"

definition with_rep :: "pstate \<Rightarrow> (report \<Rightarrow> report) \<Rightarrow> pstate" where
  "with_rep st f = st\<lparr>rep := f (rep st)\<rparr>"

definition meta_sdlog :: "pstate \<Rightarrow> string list \<Rightarrow> pstate \<times> flow" where
  "meta_sdlog st cols =
     (if length cols < 5 then (st, Raise (Truncated ''#sdlog''))
      else raise_or st (parse_u (cols ! 1)) (\<lambda>v.
        let st = with_rep st (\<lambda>r. r\<lparr>format_version := Some v\<rparr>) in
        raise_or st (parse_u (cols ! 2)) (\<lambda>s.
          let st = with_rep st (\<lambda>r. r\<lparr>r_seq := Some s, esphome_version := cols ! 4\<rparr>) in
          if v \<in> SUPPORTED_FORMAT_VERSIONS
          then raise_or st (parse_abs_stamp (cols ! 3)) (\<lambda>_. (st, Next))
          else (st, Next))))"

definition meta_src :: "pstate \<Rightarrow> string list \<Rightarrow> pstate \<times> flow" where
  "meta_src st cols =
     (if length cols < 6 then (st, Raise (Truncated ''#src''))
      else raise_or st (parse_x (cols ! 3)) (\<lambda>tag.
        (with_rep st (\<lambda>r. r\<lparr>r_sources := r_sources r @
           [\<lparr>src_kind = cols ! 1, src_label = cols ! 2, src_tag = tag,
             src_origin = cols ! 4, src_detail = cols ! 5\<rparr>]\<rparr>), Next)))"

definition meta_drop :: "pstate \<Rightarrow> string list \<Rightarrow> pstate \<times> flow" where
  "meta_drop st cols =
     (if length cols < 5 then (st, Raise (Truncated ''#drop''))
      else raise_or st (parse_abs_stamp (cols ! 1)) (\<lambda>t.
        raise_or st (parse_u (cols ! 3)) (\<lambda>d.
        raise_or st (parse_u (cols ! 4)) (\<lambda>n.
        (with_rep st (\<lambda>r. r\<lparr>drops := drops r @
           [\<lparr>drop_t_us = t, drop_what = cols ! 2, drop_delta = d, drop_total = n\<rparr>]\<rparr>), Next)))))"

definition meta_gap :: "pstate \<Rightarrow> string list \<Rightarrow> pstate \<times> flow" where
  "meta_gap st cols =
     (if length cols < 6 then (st, Raise (Truncated ''#gap''))
      else raise_or st (parse_abs_stamp (cols ! 1)) (\<lambda>t.
        raise_or st (parse_u (cols ! 2)) (\<lambda>n.
        raise_or st (parse_u (cols ! 3)) (\<lambda>b.
        raise_or st (parse_u (cols ! 4)) (\<lambda>f.
        raise_or st (parse_u (cols ! 5)) (\<lambda>l.
        (with_rep st (\<lambda>r. r\<lparr>gaps := gaps r @
           [\<lparr>gap_t_us = t, gap_chunks = n, gap_bytes = b, gap_first_seq = f, gap_last_seq = l\<rparr>]\<rparr>),
         Next)))))))"

definition utc_point :: "int \<Rightarrow> int \<Rightarrow> clock_point" where
  "utc_point b u = \<lparr>cp_t_us = b, cp_utc_us = u, cp_basis = ''utc'', cp_src = ''sync'', cp_detail = None\<rparr>"

definition meta_utc :: "pstate \<Rightarrow> string list \<Rightarrow> pstate \<times> flow" where
  "meta_utc st cols =
     (if length cols \<noteq> 3 then (st, Raise UtcNeedsFields)
      else raise_or st (parse_u64_x (cols ! 1)) (\<lambda>b.
        raise_or st (parse_u64_x (cols ! 2)) (\<lambda>u.
        (with_rep (st\<lparr>ps_utc := utc_set (ps_utc st) b u\<rparr>)
           (\<lambda>r. r\<lparr>utc_anchor_count := utc_anchor_count r + 1,
                  r_clock := clock_offer (r_clock r) (utc_point b u) False\<rparr>), Next))))"

definition meta_rotate :: "pstate \<Rightarrow> string list \<Rightarrow> pstate \<times> flow" where
  "meta_rotate st cols =
     (if length cols < 3 then (st, Raise (Truncated ''#rotate''))
      else (with_rep st (\<lambda>r. r\<lparr>rotate_to := cols ! 2\<rparr>), Next))"

definition meta_close :: "pstate \<Rightarrow> string list \<Rightarrow> pstate \<times> flow" where
  "meta_close st cols =
     (if length cols < 3 then (st, Raise (Truncated ''#close''))
      else (with_rep st (\<lambda>r. r\<lparr>close_reason := Some (cols ! 2)\<rparr>), Next))"

definition meta_clock :: "pstate \<Rightarrow> string \<Rightarrow> pstate \<times> flow" where
  "meta_clock st line =
     raise_or st (parse_clock_line line) (\<lambda>p.
       (with_rep st (\<lambda>r. r\<lparr>r_clock := clock_offer (r_clock r) p True\<rparr>), Next))"

definition meta_ident :: "pstate \<Rightarrow> string \<Rightarrow> pstate \<times> flow" where
  "meta_ident st line =
     raise_or st (parse_ident_line line) (\<lambda>i. (with_rep st (\<lambda>r. r\<lparr>idents := idents r @ [i]\<rparr>), Next))"

definition meta_origin :: "pstate \<Rightarrow> string list \<Rightarrow> pstate \<times> flow" where
  "meta_origin st cols =
     (if length cols \<noteq> 2 then (st, Raise OriginNeedsField)
      else (with_rep st (\<lambda>r. r\<lparr>r_origin := Some (cols ! 1)\<rparr>), Next))"

definition parse_meta :: "pstate \<Rightarrow> string \<Rightarrow> pstate \<times> flow" where
  "parse_meta st line =
     (let cols = split_on CHR '','' line; head = cols ! 0 in
      if head = ''#sdlog'' then meta_sdlog st cols
      else if head = ''#src'' then meta_src st cols
      else if head = ''#drop'' then meta_drop st cols
      else if head = ''#gap'' then meta_gap st cols
      else if head = ''#rotate'' then meta_rotate st cols
      else if head = ''#close'' then meta_close st cols
      else if head = ''#utc'' then meta_utc st cols
      else if head = ''#clock'' then meta_clock st line
      else if head = ''#ident'' then meta_ident st line
      else if head = ''#origin'' then meta_origin st cols
      else (st, Next))"

section \<open>Stream lines and the file\<close>

definition kind_of :: "string list \<Rightarrow> string" where
  "kind_of cols = take 1 (cols ! 0)"

definition count_record :: "report \<Rightarrow> string \<Rightarrow> string \<Rightarrow> report" where
  "count_record r kind label =
     r\<lparr>counts := bump kind 1 (counts r), r_labels := bump label 1 (r_labels r)\<rparr>"

definition record_line :: "pstate \<Rightarrow> int \<Rightarrow> string \<Rightarrow> string list \<Rightarrow> pstate \<times> flow" where
  "record_line st t kind cols =
     raise_or st (split_token (cols ! 0)) (\<lambda>(_, tag, _).
     raise_or st (check_record cols) (\<lambda>_.
     (with_rep st (\<lambda>r.
        let r = note_utc (note_time r t) (utc_resolve (ps_utc st) t)
        in count_record r kind (label_for r tag (cols ! 0))), Next)))"

definition text_line :: "pstate \<Rightarrow> int \<Rightarrow> string list \<Rightarrow> pstate \<times> flow" where
  "text_line st t cols =
     raise_or st (check_text cols) (\<lambda>_.
     (with_rep st (\<lambda>r.
        let r = note_utc (note_time r t) (utc_resolve (ps_utc st) t)
        in r\<lparr>counts := bump ''X'' 1 (counts r)\<rparr>), Next))"

definition stream_line :: "pstate \<Rightarrow> string \<Rightarrow> pstate \<times> flow" where
  "stream_line st line =
     (let cols = split_on CHR '','' line; kind = kind_of cols in
      if kind \<in> RECORD_KINDS \<or> kind = ''X'' then
        (if length cols < 2 then (st, Raise (StreamFields (length cols)))
         else raise_or st (chain_read (ps_chain st) (cols ! 1)) (\<lambda>(ch, t).
           let st = st\<lparr>ps_chain := ch\<rparr> in
           if kind \<in> RECORD_KINDS then record_line st t kind cols else text_line st t cols))
      else (st, Raise (UnknownKind kind)))"

definition line_step :: "nat \<Rightarrow> string \<Rightarrow> pstate \<Rightarrow> pstate \<times> flow" where
  "line_step number line st =
     (if line = [] then (st, Next)
      else
        (let st = with_rep st (\<lambda>r. r\<lparr>total_lines := total_lines r + 1\<rparr>) in
         if starts_with ''#pad,'' line then (st, Next)
         else if number = 1 \<and> starts_with ''# '' line then (with_rep st (\<lambda>r. r\<lparr>legacy := True\<rparr>), Return)
         else if starts_with ''#'' line then
           (case parse_meta st line of
              (st, Next) \<Rightarrow> (st, if unsupported_version (rep st) then Return else Next)
            | other \<Rightarrow> other)
         else stream_line st line))"

definition add_bad :: "nat \<Rightarrow> value_error \<Rightarrow> string \<Rightarrow> pstate \<Rightarrow> pstate" where
  "add_bad number e line st = with_rep st (\<lambda>r. r\<lparr>bad_lines := bad_lines r @ [(number, e, take 80 line)]\<rparr>)"

text \<open>The loop over the lines; \<open>is_last\<close> is that no line is left.\<close>

fun parse_lines :: "nat \<Rightarrow> string list \<Rightarrow> pstate \<Rightarrow> pstate \<times> bool" where
  "parse_lines number [] st = (st, True)"
| "parse_lines number (line # rest) st =
     (case line_step number line st of
        (st, Return) \<Rightarrow> (st, False)
      | (st, Next) \<Rightarrow> parse_lines (number + 1) rest st
      | (st, Raise e) \<Rightarrow>
          parse_lines (number + 1) rest
            (if rest = [] \<and> torn_tail (rep st) then st else add_bad number e line st))"

definition file_lines :: "string \<Rightarrow> string list \<times> bool" where
  "file_lines text =
     (let lines = split_on CHR ''\<newline>'' text in
      if last lines = [] then (butlast lines, False) else (lines, True))"

definition new_pstate :: "string \<Rightarrow> bool \<Rightarrow> pstate" where
  "new_pstate path torn =
     \<lparr>rep = (new_report path)\<lparr>torn_tail := torn\<rparr>, ps_chain = new_chain, ps_utc = new_utc_anchor\<rparr>"

definition parse_file :: "string \<Rightarrow> string \<Rightarrow> report" where
  "parse_file path text =
     (let ends_clean = (text \<noteq> [] \<and> last text = CHR ''\<newline>'');
          (lines, torn) = file_lines text in
      case parse_lines 1 lines (new_pstate path torn) of
        (st, False) \<Rightarrow> rep st
      | (st, True) \<Rightarrow>
          (if \<not> ends_clean \<and> lines = [] then (rep st)\<lparr>torn_tail := True\<rparr> else rep st))"

section \<open>The check command\<close>

text \<open>A file argument: its name and its bytes, or that reading it raised \<open>OSError\<close>.\<close>

definition check_one :: "bool \<Rightarrow> string \<times> string option \<Rightarrow> int" where
  "check_one strict file =
     (case snd file of
        None \<Rightarrow> 2
      | Some text \<Rightarrow>
          (let r = parse_file (fst file) text in
           if unsupported_version r then 2
           else max (if \<not> clean r then 1 else 0)
                (max (if strict \<and> drops r \<noteq> [] then 1 else 0)
                (max (if strict \<and> gaps r \<noteq> [] then 1 else 0)
                     (if strict \<and> close_reason r = None then 1 else 0)))))"

definition cmd_check :: "bool \<Rightarrow> (string \<times> string option) list \<Rightarrow> int" where
  "cmd_check strict files = foldl (\<lambda>status file. max status (check_one strict file)) 0 files"

section \<open>The record reader\<close>

text \<open>
  \<open>StreamReader\<close> opens the file in text mode: \<open>\r\<close>, \<open>\n\<close> and \<open>\r\n\<close> all end a line, where
  \<open>parse_file\<close> splits at \<open>\n\<close> alone.  A last line without terminator is never read.
\<close>

fun universal_newlines :: "string \<Rightarrow> string" where
  "universal_newlines [] = []"
| "universal_newlines [c] = (if c = CHR 13 then [CHR ''\<newline>''] else [c])"
| "universal_newlines (c # d # s) =
     (if c = CHR 13 \<and> d = CHR ''\<newline>'' then CHR ''\<newline>'' # universal_newlines s
      else if c = CHR 13 then CHR ''\<newline>'' # universal_newlines (d # s)
      else c # universal_newlines (d # s))"

definition complete_lines :: "string \<Rightarrow> string list" where
  "complete_lines text = butlast (split_on CHR ''\<newline>'' (universal_newlines text))"

text \<open>What stops the reader: its own \<open>ReadError\<close>s, and the \<open>ValueError\<close> of an unguarded \<open>int()\<close>.\<close>

datatype read_exn =
    BadVersion "int option"
  | UnreadableUtc
  | UnreadableClock
  | UnreadableStamp
  | UncaughtValueError string

record stream_item =
  sl_kind :: string
  sl_t_us :: int
  sl_utc_us :: "int option"
  sl_fields :: "string list"
  sl_line :: string
  sl_utc_best :: "(int \<times> string) option"

record reader =
  rd_chain :: chain
  rd_utc :: utc_anchor
  rd_clock :: clock_state
  rd_labels :: "int \<Rightarrow> string option"

definition new_reader :: reader where
  "new_reader = \<lparr>rd_chain = new_chain, rd_utc = new_utc_anchor, rd_clock = new_clock_state, rd_labels = Map.empty\<rparr>"

definition reader_label :: "reader \<Rightarrow> int \<Rightarrow> string \<Rightarrow> string" where
  "reader_label rd tag token = (case rd_labels rd tag of Some l \<Rightarrow> l | None \<Rightarrow> token)"

definition reader_version :: "string list \<Rightarrow> read_exn + int option" where
  "reader_version cols =
     (if length cols > 1 \<and> isdigit (cols ! 1) then
        (case parse_u (cols ! 1) of Inl _ \<Rightarrow> Inl (UncaughtValueError (cols ! 1)) | Inr v \<Rightarrow> Inr (Some v))
      else Inr None)"

definition reader_meta :: "bool \<Rightarrow> reader \<Rightarrow> string \<Rightarrow> read_exn + reader" where
  "reader_meta estimates rd line =
     (let cols = split_on CHR '','' line in
      if starts_with ''#sdlog,'' line then
        bindE (reader_version cols) (\<lambda>version.
          case version of
            Some v \<Rightarrow> if v \<in> SUPPORTED_FORMAT_VERSIONS then Inr rd else Inl (BadVersion version)
          | None \<Rightarrow> Inl (BadVersion version))
      else if starts_with ''#src,'' line then
        (if length cols \<ge> 4 \<and> list_all is_hex_char (cols ! 3) \<and> cols ! 3 \<noteq> []
         then Inr (rd\<lparr>rd_labels := (rd_labels rd)(hex_value (cols ! 3) \<mapsto> cols ! 2)\<rparr>)
         else Inr rd)
      else if starts_with ''#utc,'' line \<or> line = ''#utc'' then
        (if length cols \<noteq> 3 then Inl UnreadableUtc
         else (case (parse_u64_x (cols ! 1), parse_u64_x (cols ! 2)) of
                 (Inr b, Inr u) \<Rightarrow>
                   Inr (rd\<lparr>rd_utc := utc_set (rd_utc rd) b u,
                          rd_clock := clock_offer (rd_clock rd) (utc_point b u) False\<rparr>)
               | _ \<Rightarrow> Inl UnreadableUtc))
      else if starts_with ''#clock,'' line \<and> estimates then
        (case parse_clock_line line of
           Inl _ \<Rightarrow> Inl UnreadableClock
         | Inr p \<Rightarrow> Inr (rd\<lparr>rd_clock := clock_offer (rd_clock rd) p True\<rparr>))
      else Inr rd)"

text \<open>One complete line: the reader's next state and the line it yields, if it yields one.\<close>

definition reader_step :: "bool \<Rightarrow> reader \<Rightarrow> string \<Rightarrow> read_exn + (reader \<times> stream_item option)" where
  "reader_step estimates rd line =
     (if starts_with ''#'' line then bindE (reader_meta estimates rd line) (\<lambda>rd. Inr (rd, None))
      else
        (let cols = split_on CHR '','' line; kind = kind_of cols in
         if kind \<notin> RECORD_KINDS \<and> kind \<noteq> ''X'' then Inr (rd, None)
         else if length cols > 1 then
           (case chain_read (rd_chain rd) (cols ! 1) of
              Inl _ \<Rightarrow> Inl UnreadableStamp
            | Inr (ch, t) \<Rightarrow>
                (let best = (if estimates then clock_resolve (rd_clock rd) t else None) in
                 Inr (rd\<lparr>rd_chain := ch\<rparr>,
                      Some \<lparr>sl_kind = kind, sl_t_us = t, sl_utc_us = utc_resolve (rd_utc rd) t,
                            sl_fields = cols, sl_line = line, sl_utc_best = best\<rparr>)))
         else Inr (rd, None)))"

text \<open>The generator: every line yielded, each with the reader as its consumer sees it, and what stopped it.\<close>

fun read_lines :: "bool \<Rightarrow> reader \<Rightarrow> string list \<Rightarrow> (stream_item \<times> reader) list \<times> read_exn option" where
  "read_lines estimates rd [] = ([], None)"
| "read_lines estimates rd (line # lines) =
     (case reader_step estimates rd line of
        Inl e \<Rightarrow> ([], Some e)
      | Inr (rd', None) \<Rightarrow> read_lines estimates rd' lines
      | Inr (rd', Some sl) \<Rightarrow>
          (case read_lines estimates rd' lines of (out, e) \<Rightarrow> ((sl, rd') # out, e)))"

definition read_stream :: "bool \<Rightarrow> string \<Rightarrow> (stream_item \<times> reader) list \<times> read_exn option" where
  "read_stream estimates text = read_lines estimates new_reader (complete_lines text)"

section \<open>The extract and head commands\<close>

record extract_args =
  x_type :: string
  x_label :: "string option"
  x_shed :: bool
  x_no_header :: bool
  x_estimates :: bool

definition upper_char :: "char \<Rightarrow> char" where
  "upper_char c = (if 97 \<le> (of_char c :: nat) \<and> (of_char c :: nat) \<le> 122 then char_of ((of_char c :: nat) - 32) else c)"

definition extract_header :: "string \<Rightarrow> string option" where
  "extract_header wanted =
     (if wanted \<in> RECORD_KINDS then Some ''t_us,label,id_hex,flags,dlc,data_hex,utc_us''
      else if wanted = ''X'' then Some ''t_us,level,tag,message,utc_us'' else None)"

definition utc_column :: "bool \<Rightarrow> stream_item \<Rightarrow> string" where
  "utc_column estimates sl =
     (case sl_utc_us sl of None \<Rightarrow> [] | Some u \<Rightarrow> show_int u) @
     (if estimates then
        (case sl_utc_best sl of None \<Rightarrow> '',,'' | Some (u, b) \<Rightarrow> '','' @ show_int u @ '','' @ b)
      else [])"

text \<open>The row printed for one stream line, \<open>None\<close> where the loop goes on without printing.\<close>

definition extract_row :: "extract_args \<Rightarrow> string \<Rightarrow> stream_item \<times> reader \<Rightarrow> string option" where
  "extract_row args wanted item =
     (let (stream, rd) = item; cols = sl_fields stream; utc = utc_column (x_estimates args) stream in
      if sl_kind stream \<noteq> wanted then None
      else if wanted \<in> RECORD_KINDS then
        (if length cols \<noteq> RECORD_FIELDS then None
         else case split_token (cols ! 0) of
             Inl _ \<Rightarrow> None
           | Inr (_, tag, flags) \<Rightarrow>
               (let label = reader_label rd tag (cols ! 0) in
                if (case x_label args of None \<Rightarrow> False | Some l \<Rightarrow> l \<noteq> [] \<and> label \<noteq> l) then None
                else if x_shed args \<and> CHR ''s'' \<notin> set flags then None
                else
                  (let data = cols ! 3 in
                   Some (join_with '',''
                     [show_int (sl_t_us stream), label, cols ! 2, if flags = [] then ''-'' else flags,
                      show_nat (length data div 2), data, utc]))))
      else if length cols < TEXT_FIELDS then None
      else
        (let rest = snd (snd (partition_on CHR '','' (sl_line stream)));
             tail = snd (snd (partition_on CHR '','' rest)) in
         Some (join_with '','' [show_int (sl_t_us stream), drop 1 (cols ! 0), tail, utc])))"

text \<open>How the command ends: its exit status, or the exception nothing catches.\<close>

datatype exit = Exit int | Crash string

definition cmd_extract :: "extract_args \<Rightarrow> string \<Rightarrow> string list \<times> exit" where
  "cmd_extract args text =
     (let wanted = map upper_char (x_type args) in
      case extract_header wanted of
        None \<Rightarrow> ([], Exit 2)
      | Some header \<Rightarrow>
          (let header = header @ (if x_estimates args then '',utc_best_us,utc_basis'' else []);
               (items, stop) = read_stream (x_estimates args) text;
               rows = List.map_filter (extract_row args wanted) items;
               head = (if x_no_header args then [] else [header]) in
           case stop of
             None \<Rightarrow> (head @ rows, Exit 0)
           | Some (UncaughtValueError t) \<Rightarrow> ((if rows = [] then [] else head @ rows), Crash t)
           | Some _ \<Rightarrow> ((if rows = [] then [] else head @ rows), Exit 2)))"

fun head_lines :: "string list \<Rightarrow> string list" where
  "head_lines [] = []"
| "head_lines (line # lines) =
     (if starts_with ''#pad,'' line \<or> \<not> starts_with ''#'' line then [] else line # head_lines lines)"

text \<open>The lines \<open>head\<close> copies out, the last of them without its terminator if it had none.\<close>

definition cmd_head :: "string \<Rightarrow> string list" where
  "cmd_head text =
     (let ls = split_on CHR ''\<newline>'' (universal_newlines text) in
      head_lines (if last ls = [] then butlast ls else ls))"

section \<open>Facts about a pass over a file\<close>

named_theorems handler_defs "the definitions of the line handlers"

lemmas [handler_defs] =
  raise_or_def with_rep_def meta_sdlog_def meta_src_def meta_drop_def meta_gap_def meta_utc_def
  meta_rotate_def meta_close_def meta_clock_def meta_ident_def meta_origin_def
  note_time_def note_utc_def count_record_def

definition set_torn :: "bool \<Rightarrow> pstate \<Rightarrow> pstate" where
  "set_torn b st = with_rep st (\<lambda>r. r\<lparr>torn_tail := b\<rparr>)"

lemma set_torn_simps [simp]:
  "ps_chain (set_torn b st) = ps_chain st" "ps_utc (set_torn b st) = ps_utc st"
  "rep (set_torn b st) = (rep st)\<lparr>torn_tail := b\<rparr>"
  by (simp_all add: set_torn_def with_rep_def)

lemma pstate_eqI: "rep s = rep t \<Longrightarrow> ps_chain s = ps_chain t \<Longrightarrow> ps_utc s = ps_utc t \<Longrightarrow> s = (t :: pstate)"
  by (cases s; cases t) simp

abbreviation torn_map :: "bool \<Rightarrow> pstate \<times> flow \<Rightarrow> pstate \<times> flow" where
  "torn_map b \<equiv> map_prod (set_torn b) id"

text \<open>
  No handler touches \<open>bad_lines\<close> or \<open>torn_tail\<close>, and none reads \<open>torn_tail\<close>: each handler
  commutes with setting the flag.
\<close>

definition frame :: "pstate \<Rightarrow> (nat \<times> value_error \<times> string) list \<times> bool" where
  "frame st = (bad_lines (rep st), torn_tail (rep st))"

lemma handler_torn:
  "meta_sdlog (set_torn b st) cols = torn_map b (meta_sdlog st cols)"
  "meta_src (set_torn b st) cols = torn_map b (meta_src st cols)"
  "meta_drop (set_torn b st) cols = torn_map b (meta_drop st cols)"
  "meta_gap (set_torn b st) cols = torn_map b (meta_gap st cols)"
  "meta_utc (set_torn b st) cols = torn_map b (meta_utc st cols)"
  "meta_rotate (set_torn b st) cols = torn_map b (meta_rotate st cols)"
  "meta_close (set_torn b st) cols = torn_map b (meta_close st cols)"
  "meta_clock (set_torn b st) line = torn_map b (meta_clock st line)"
  "meta_ident (set_torn b st) line = torn_map b (meta_ident st line)"
  "meta_origin (set_torn b st) cols = torn_map b (meta_origin st cols)"
  by (simp_all add: handler_defs set_torn_def Let_def split: sum.split)

lemma handler_frame:
  "frame (fst (meta_sdlog st cols)) = frame st"
  "frame (fst (meta_src st cols)) = frame st"
  "frame (fst (meta_drop st cols)) = frame st"
  "frame (fst (meta_gap st cols)) = frame st"
  "frame (fst (meta_utc st cols)) = frame st"
  "frame (fst (meta_rotate st cols)) = frame st"
  "frame (fst (meta_close st cols)) = frame st"
  "frame (fst (meta_clock st line)) = frame st"
  "frame (fst (meta_ident st line)) = frame st"
  "frame (fst (meta_origin st cols)) = frame st"
  by (simp_all add: handler_defs frame_def Let_def split: sum.split)

lemma parse_meta_torn: "parse_meta (set_torn b st) line = torn_map b (parse_meta st line)"
  by (simp only: parse_meta_def Let_def handler_torn if_distrib [of "torn_map b"] map_prod_simp id_apply)

lemma parse_meta_frame: "frame (fst (parse_meta st line)) = frame st"
  by (simp only: parse_meta_def Let_def handler_frame if_distrib [of fst] if_distrib [of frame] fst_conv if_cancel)

lemma note_torn:
  "note_time (r\<lparr>torn_tail := b\<rparr>) t = (note_time r t)\<lparr>torn_tail := b\<rparr>"
  "note_utc (r\<lparr>torn_tail := b\<rparr>) u = (note_utc r u)\<lparr>torn_tail := b\<rparr>"
  "label_for (r\<lparr>torn_tail := b\<rparr>) tag tok = label_for r tag tok"
  "count_record (r\<lparr>torn_tail := b\<rparr>) k l = (count_record r k l)\<lparr>torn_tail := b\<rparr>"
  by (simp_all add: note_time_def note_utc_def label_for_def count_record_def split: option.split)

lemma note_frame:
  "bad_lines (note_time r t) = bad_lines r" "torn_tail (note_time r t) = torn_tail r"
  "bad_lines (note_utc r u) = bad_lines r" "torn_tail (note_utc r u) = torn_tail r"
  "bad_lines (count_record r k l) = bad_lines r" "torn_tail (count_record r k l) = torn_tail r"
  by (simp_all add: note_time_def note_utc_def count_record_def split: option.split)

lemma stream_handler_torn:
  "record_line (set_torn b st) t kind cols = torn_map b (record_line st t kind cols)"
  "text_line (set_torn b st) t cols = torn_map b (text_line st t cols)"
  by (simp_all add: record_line_def text_line_def raise_or_def with_rep_def set_torn_def note_torn Let_def
        split: sum.split prod.split)

lemma stream_handler_frame:
  "frame (fst (record_line st t kind cols)) = frame st"
  "frame (fst (text_line st t cols)) = frame st"
  by (simp_all add: record_line_def text_line_def raise_or_def with_rep_def note_frame frame_def Let_def
        split: sum.split prod.split)

lemma set_torn_chain: "(set_torn b st)\<lparr>ps_chain := ch\<rparr> = set_torn b (st\<lparr>ps_chain := ch\<rparr>)"
  by (simp add: set_torn_def with_rep_def)

lemma frame_chain: "frame (st\<lparr>ps_chain := ch\<rparr>) = frame st"
  by (simp add: frame_def)

lemma stream_line_torn: "stream_line (set_torn b st) line = torn_map b (stream_line st line)"
  unfolding stream_line_def Let_def
  by (simp add: raise_or_def set_torn_chain stream_handler_torn split: sum.split prod.split)

lemma stream_line_frame: "frame (fst (stream_line st line)) = frame st"
  unfolding stream_line_def Let_def
  by (simp add: raise_or_def stream_handler_frame frame_chain split: sum.split prod.split)

lemma line_step_torn: "line_step n line (set_torn b st) = torn_map b (line_step n line st)"
proof -
  let ?f = "\<lambda>r. r\<lparr>total_lines := total_lines r + 1\<rparr>"
  have 1: "with_rep (set_torn b st) ?f = set_torn b (with_rep st ?f)"
    by (simp add: with_rep_def set_torn_def)
  have 2: "with_rep (set_torn b s) (\<lambda>r. r\<lparr>legacy := True\<rparr>) = set_torn b (with_rep s (\<lambda>r. r\<lparr>legacy := True\<rparr>))" for s
    by (simp add: with_rep_def set_torn_def)
  have 3: "unsupported_version (rep (set_torn b s)) = unsupported_version (rep s)" for s
    by (simp add: unsupported_version_def)
  show ?thesis
    unfolding line_step_def Let_def 1
    by (simp add: 2 3 parse_meta_torn stream_line_torn del: set_torn_simps split: prod.split flow.split)
qed

lemma line_step_frame: "frame (fst (line_step n line st)) = frame st"
proof -
  have 1: "frame (with_rep s (\<lambda>r. r\<lparr>total_lines := total_lines r + 1\<rparr>)) = frame s"
    and 2: "frame (with_rep s (\<lambda>r. r\<lparr>legacy := True\<rparr>)) = frame s" for s
    by (simp_all add: frame_def with_rep_def)
  have 3: "fst (case pm of (s, Next) \<Rightarrow> (s, g s) | other \<Rightarrow> other) = fst pm" for pm :: "pstate \<times> flow" and g
    by (cases pm) (simp split: flow.split)
  show ?thesis
    unfolding line_step_def Let_def
    by (simp only: if_distrib [of fst] if_distrib [of frame] fst_conv 1 2 3 parse_meta_frame
          stream_line_frame if_cancel)
qed

text \<open>The lines a pass goes through without an exception, whether or not the last may be torn.\<close>

fun no_raise :: "nat \<Rightarrow> string list \<Rightarrow> pstate \<Rightarrow> bool" where
  "no_raise number [] st = True"
| "no_raise number (line # rest) st =
     (case line_step number line st of
        (st, Return) \<Rightarrow> True
      | (st, Next) \<Rightarrow> no_raise (number + 1) rest st
      | (st, Raise e) \<Rightarrow> False)"

lemma no_raise_torn: "no_raise n ls (set_torn b st) = no_raise n ls st"
  by (induction ls arbitrary: n st) (auto simp: line_step_torn split: prod.splits flow.splits)

lemma no_raise_take: "no_raise n ls st \<Longrightarrow> no_raise n (take k ls) st"
proof (induction ls arbitrary: n st k)
  case Nil
  then show ?case by simp
next
  case (Cons l ls)
  then show ?case by (cases k) (auto split: prod.splits flow.splits)
qed

lemma parse_lines_bad:
  "bad_lines (rep (fst (parse_lines n ls st))) = [] \<longleftrightarrow>
     bad_lines (rep st) = [] \<and> no_raise n (if torn_tail (rep st) then butlast ls else ls) st"
proof (induction ls arbitrary: n st)
  case Nil
  then show ?case by simp
next
  case (Cons l ls)
  obtain s' fl where step: "line_step n l st = (s', fl)" by (cases "line_step n l st")
  have "frame s' = frame st" using line_step_frame [of n l st] step by simp
  then have fr: "bad_lines (rep s') = bad_lines (rep st)" "torn_tail (rep s') = torn_tail (rep st)"
    by (simp_all add: frame_def)
  have bad: "bad_lines (rep (add_bad n e l s')) \<noteq> []" for e
    by (simp add: add_bad_def with_rep_def)
  show ?case
  proof (cases fl)
    case Next
    with step fr Cons.IH [of "n + 1" s'] show ?thesis by auto
  next
    case Return
    with step fr show ?thesis by auto
  next
    case (Raise e)
    with step fr Cons.IH [of "n + 1" s'] Cons.IH [of "n + 1" "add_bad n e l s'"] bad
    show ?thesis by (cases ls) auto
  qed
qed

lemma file_lines_complete:
  assumes "file_lines text = (lines, torn)"
  shows "(if torn then butlast lines else lines) = butlast (split_on CHR ''\<newline>'' text)"
  using assms by (auto simp: file_lines_def Let_def split: if_splits)

lemma clean_iff_no_raise:
  "clean (parse_file path text) \<longleftrightarrow>
     no_raise 1 (butlast (split_on CHR ''\<newline>'' text)) (new_pstate path False)"
proof -
  obtain lines torn where fl: "file_lines text = (lines, torn)" by (cases "file_lines text")
  have new: "new_pstate path torn = set_torn torn (new_pstate path False)"
    by (simp add: new_pstate_def set_torn_def with_rep_def)
  have "clean (parse_file path text) \<longleftrightarrow> bad_lines (rep (fst (parse_lines 1 lines (new_pstate path torn)))) = []"
    by (auto simp: parse_file_def fl clean_def Let_def split: prod.splits bool.splits)
  also have "\<dots> \<longleftrightarrow> no_raise 1 (if torn then butlast lines else lines) (new_pstate path torn)"
    by (subst parse_lines_bad) (simp add: new_pstate_def new_report_def)
  also have "\<dots> \<longleftrightarrow> no_raise 1 (butlast (split_on CHR ''\<newline>'' text)) (new_pstate path torn)"
    by (simp only: file_lines_complete [OF fl])
  finally show ?thesis by (simp only: new no_raise_torn)
qed

lemma butlast_split_take:
  "\<exists>k. butlast (split_on c (take n s)) = take k (butlast (split_on c s))"
proof -
  obtain k p r where "split_on c (take n s) = take k (split_on c s) @ [p]" "k < length (split_on c s)"
    using split_on_take [of c n s] by blast
  then have "butlast (split_on c (take n s)) = take k (butlast (split_on c s))"
    by (simp add: take_butlast)
  then show ?thesis ..
qed

text \<open>
  C8: losing power never makes a sound file look defective.  If \<open>parse_file\<close> reports no malformed
  line on a file, it reports none on any prefix of it: wherever the bytes stop, the one line
  that may be cut is the last, and its error is not counted.
\<close>

theorem truncated_file_stays_clean:
  assumes "clean (parse_file path text)"
  shows "clean (parse_file path (take n text))"
proof -
  obtain k where "butlast (split_on CHR ''\<newline>'' (take n text)) = take k (butlast (split_on CHR ''\<newline>'' text))"
    using butlast_split_take by blast
  with assms show ?thesis by (simp only: clean_iff_no_raise no_raise_take)
qed

theorem truncated_file_stays_clean_witness:
  "clean (parse_file ''L1'' (take 29 ''#sdlog,2,1,@0,x\<newline>C1x,@10,1A2,0011\<newline>''))"
proof -
  have "clean (parse_file ''L1'' ''#sdlog,2,1,@0,x\<newline>C1x,@10,1A2,0011\<newline>'')"
    by code_simp
  then show ?thesis by (rule truncated_file_stays_clean)
qed

section \<open>The check and the reader agree\<close>

definition total_count :: "report \<Rightarrow> int" where
  "total_count r = sum_list (map snd (counts r))"

definition follows :: "pstate \<Rightarrow> reader \<Rightarrow> bool" where
  "follows st rd \<longleftrightarrow> rd_chain rd = ps_chain st \<and> rd_utc rd = ps_utc st"

definition observed :: "pstate \<Rightarrow> (string \<times> int) list \<times> int option \<times> int option" where
  "observed st = (counts (rep st), first_t_us (rep st), last_t_us (rep st))"

lemma bump_total: "sum_list (map snd (bump k n d)) = sum_list (map snd d) + n"
  by (induction d) auto

lemma handler_observed:
  "observed (fst (meta_sdlog st cols)) = observed st"
  "observed (fst (meta_src st cols)) = observed st"
  "observed (fst (meta_drop st cols)) = observed st"
  "observed (fst (meta_gap st cols)) = observed st"
  "observed (fst (meta_utc st cols)) = observed st"
  "observed (fst (meta_rotate st cols)) = observed st"
  "observed (fst (meta_close st cols)) = observed st"
  "observed (fst (meta_clock st line)) = observed st"
  "observed (fst (meta_ident st line)) = observed st"
  "observed (fst (meta_origin st cols)) = observed st"
  by (simp_all add: handler_defs observed_def Let_def split: sum.split)

lemma parse_meta_observed: "observed (fst (parse_meta st line)) = observed st"
  by (simp only: parse_meta_def Let_def handler_observed if_distrib [of fst] if_distrib [of observed] fst_conv if_cancel)

lemma handler_chain:
  "ps_chain (fst (meta_sdlog st cols)) = ps_chain st" "ps_utc (fst (meta_sdlog st cols)) = ps_utc st"
  "ps_chain (fst (meta_src st cols)) = ps_chain st" "ps_utc (fst (meta_src st cols)) = ps_utc st"
  "ps_chain (fst (meta_drop st cols)) = ps_chain st" "ps_utc (fst (meta_drop st cols)) = ps_utc st"
  "ps_chain (fst (meta_gap st cols)) = ps_chain st" "ps_utc (fst (meta_gap st cols)) = ps_utc st"
  "ps_chain (fst (meta_rotate st cols)) = ps_chain st" "ps_utc (fst (meta_rotate st cols)) = ps_utc st"
  "ps_chain (fst (meta_close st cols)) = ps_chain st" "ps_utc (fst (meta_close st cols)) = ps_utc st"
  "ps_chain (fst (meta_clock st line)) = ps_chain st" "ps_utc (fst (meta_clock st line)) = ps_utc st"
  "ps_chain (fst (meta_ident st line)) = ps_chain st" "ps_utc (fst (meta_ident st line)) = ps_utc st"
  "ps_chain (fst (meta_origin st cols)) = ps_chain st" "ps_utc (fst (meta_origin st cols)) = ps_utc st"
  "ps_chain (fst (meta_utc st cols)) = ps_chain st"
  by (simp_all add: handler_defs Let_def split: sum.split)

lemma parse_meta_chain: "ps_chain (fst (parse_meta st line)) = ps_chain st"
  by (simp only: parse_meta_def Let_def handler_chain if_distrib [of fst] if_distrib [of ps_chain] fst_conv if_cancel)

lemma parse_meta_utc:
  "split_on CHR '','' line ! 0 \<noteq> ''#utc'' \<Longrightarrow> ps_utc (fst (parse_meta st line)) = ps_utc st"
  by (simp only: parse_meta_def Let_def handler_chain if_distrib [of fst] if_distrib [of ps_utc] fst_conv
        if_cancel if_False)

lemma starts_with_head:
  assumes "starts_with (h @ '','') line" and "CHR '','' \<notin> set h"
  shows "split_on CHR '','' line ! 0 = h"
proof -
  from assms(1) have "line = h @ CHR '','' # drop (Suc (length h)) line"
    unfolding starts_with_def
    by (metis append.assoc append_Cons append_self_conv2 append_take_drop_id length_append_singleton)
  then show ?thesis
    using split_on_append_sep [OF assms(2), of "drop (Suc (length h)) line"] by (metis nth_Cons_0)
qed

lemma starts_with_append: "starts_with (p @ q) s \<Longrightarrow> starts_with p s"
  unfolding starts_with_def
  by (metis append_eq_conv_conj append_take_drop_id append.assoc)

lemma head_starts_with:
  assumes "split_on CHR '','' line ! 0 = h"
  shows "line = h \<or> starts_with (h @ '','') line"
proof -
  obtain ls where s: "split_on CHR '','' line = h # ls"
    using assms by (cases "split_on CHR '','' line") auto
  have "line = join_with '','' (h # ls)" using join_split [of "CHR '',''" line] s by simp
  then show ?thesis by (cases ls) (auto simp: starts_with_def)
qed

lemma reader_meta_follows:
  assumes meta: "parse_meta st line = (st', Next)" and ok: "\<not> unsupported_version (rep st')"
    and fol: "follows st rd"
  shows "\<exists>rd'. reader_meta est rd line = Inr rd' \<and> follows st' rd'"
proof -
  let ?cols = "split_on CHR '','' line"
  have ch: "ps_chain st' = ps_chain st" using parse_meta_chain [of st line] meta by simp
  have utc: "?cols ! 0 \<noteq> ''#utc'' \<Longrightarrow> ps_utc st' = ps_utc st"
    using parse_meta_utc [of line st] meta by simp
  have keep: "?cols ! 0 \<noteq> ''#utc'' \<Longrightarrow> follows st' rd" using ch utc fol by (simp add: follows_def)
  show ?thesis
  proof (cases "?cols ! 0 = ''#utc''")
    case True
    then have "meta_utc st ?cols = (st', Next)" using meta by (simp add: parse_meta_def Let_def)
    then obtain b u where "length ?cols = 3" "parse_u64_x (?cols ! 1) = Inr b" "parse_u64_x (?cols ! 2) = Inr u"
        "ps_utc st' = utc_set (ps_utc st) b u"
      by (auto simp: handler_defs split: if_splits sum.splits)
    moreover have "starts_with ''#utc,'' line \<or> line = ''#utc''" "\<not> starts_with ''#sdlog,'' line"
        "\<not> starts_with ''#src,'' line"
      using head_starts_with [OF True] starts_with_head [of "''#sdlog''" line] starts_with_head [of "''#src''" line] True
      by auto
    ultimately show ?thesis using ch fol
      by (auto simp: reader_meta_def Let_def follows_def)
  next
    case False
    then have nutc: "\<not> (starts_with ''#utc,'' line \<or> line = ''#utc'')"
      using starts_with_head [of "''#utc''" line] by (auto simp: starts_with_def)
    show ?thesis
    proof (cases "starts_with ''#sdlog,'' line")
      case True
      then have "?cols ! 0 = ''#sdlog''" using starts_with_head [of "''#sdlog''" line] by simp
      with meta have "meta_sdlog st ?cols = (st', Next)" by (simp add: parse_meta_def Let_def)
      then obtain v where v: "parse_u (?cols ! 1) = Inr v" "length ?cols > 1" "format_version (rep st') = Some v"
        by (auto simp: handler_defs Let_def split: if_splits sum.splits)
      then have "v \<in> SUPPORTED_FORMAT_VERSIONS" using ok by (simp add: unsupported_version_def)
      moreover have "isdigit (?cols ! 1)" using v(1) by (simp add: parse_u_def split: if_splits)
      ultimately have "reader_meta est rd line = Inr rd"
        using True v by (simp add: reader_meta_def reader_version_def)
      with keep False show ?thesis by blast
    next
      case nsd: False
      show ?thesis
      proof (cases "starts_with ''#src,'' line")
        case True
        with nsd keep [OF False] show ?thesis by (auto simp: reader_meta_def Let_def follows_def)
      next
        case nsrc: False
        show ?thesis
        proof (cases "starts_with ''#clock,'' line \<and> est")
          case True
          then have "?cols ! 0 = ''#clock''" using starts_with_head [of "''#clock''" line] by simp
          with meta have "meta_clock st line = (st', Next)" by (simp add: parse_meta_def Let_def)
          then obtain p where "parse_clock_line line = Inr p" by (auto simp: handler_defs split: sum.splits)
          with True nsd nsrc nutc keep [OF False] show ?thesis
            by (simp add: reader_meta_def Let_def follows_def)
        next
          case nclk: False
          with nsd nsrc nutc have "reader_meta est rd line = Inr rd" by (auto simp: reader_meta_def Let_def)
          with keep False show ?thesis by blast
        qed
      qed
    qed
  qed
qed

text \<open>What one line that \<open>check\<close> goes on from yields in the reader.\<close>

definition yields :: "pstate \<Rightarrow> pstate \<Rightarrow> stream_item option \<Rightarrow> bool" where
  "yields st st' sl \<longleftrightarrow>
     (case sl of
        None \<Rightarrow> observed st' = observed st
      | Some s \<Rightarrow>
          total_count (rep st') = total_count (rep st) + 1 \<and>
          first_t_us (rep st') = (if first_t_us (rep st) = None then Some (sl_t_us s) else first_t_us (rep st)) \<and>
          last_t_us (rep st') = Some (sl_t_us s))"

lemma note_observed:
  "counts (note_utc (note_time r t) u) = counts r"
  "last_t_us (note_utc (note_time r t) u) = Some t"
  "first_t_us (note_utc (note_time r t) u) = (if first_t_us r = None then Some t else first_t_us r)"
  by (simp_all add: note_time_def note_utc_def split: option.split)

lemma stream_handler_effect:
  assumes "record_line st t kind cols = (st', Next) \<or> text_line st t cols = (st', Next)"
  shows "ps_chain st' = ps_chain st \<and> ps_utc st' = ps_utc st \<and>
     total_count (rep st') = total_count (rep st) + 1 \<and>
     first_t_us (rep st') = (if first_t_us (rep st) = None then Some t else first_t_us (rep st)) \<and>
     last_t_us (rep st') = Some t"
proof -
  from assms obtain f where "st' = with_rep st (\<lambda>r. f (note_utc (note_time r t) (utc_resolve (ps_utc st) t)))"
      "\<And>r. total_count (f r) = total_count r + 1" "\<And>r. first_t_us (f r) = first_t_us r" "\<And>r. last_t_us (f r) = last_t_us r"
  proof
    assume "record_line st t kind cols = (st', Next)"
    then obtain tag where "st' = with_rep st (\<lambda>r. (\<lambda>r. count_record r kind (label_for r tag (cols ! 0)))
        (note_utc (note_time r t) (utc_resolve (ps_utc st) t)))"
      by (auto simp: record_line_def raise_or_def Let_def split: sum.splits)
    then show thesis
      by (rule that) (simp_all add: count_record_def total_count_def bump_total)
  next
    assume "text_line st t cols = (st', Next)"
    then have "st' = with_rep st (\<lambda>r. (\<lambda>r. r\<lparr>counts := bump ''X'' 1 (counts r)\<rparr>)
        (note_utc (note_time r t) (utc_resolve (ps_utc st) t)))"
      by (auto simp: text_line_def raise_or_def Let_def split: sum.splits)
    then show thesis
      by (rule that) (simp_all add: total_count_def bump_total)
  qed
  then show ?thesis
    by (simp add: with_rep_def note_observed total_count_def)
qed

lemma stream_line_yields:
  assumes step: "stream_line st line = (st', Next)" and fol: "follows st rd"
    and st: "\<not> starts_with ''#'' line"
  shows "\<exists>rd' sl. reader_step est rd line = Inr (rd', Some sl) \<and> follows st' rd' \<and> yields st st' (Some sl)"
proof -
  let ?cols = "split_on CHR '','' line"
  from step obtain ch t where k: "kind_of ?cols \<in> RECORD_KINDS \<or> kind_of ?cols = ''X''"
      and len: "\<not> length ?cols < 2" and rd: "chain_read (ps_chain st) (?cols ! 1) = Inr (ch, t)"
      and h: "(if kind_of ?cols \<in> RECORD_KINDS then record_line (st\<lparr>ps_chain := ch\<rparr>) t (kind_of ?cols) ?cols
               else text_line (st\<lparr>ps_chain := ch\<rparr>) t ?cols) = (st', Next)"
    by (auto simp: stream_line_def Let_def raise_or_def split: if_splits sum.splits)
  have "record_line (st\<lparr>ps_chain := ch\<rparr>) t (kind_of ?cols) ?cols = (st', Next) \<or>
      text_line (st\<lparr>ps_chain := ch\<rparr>) t ?cols = (st', Next)"
    using h by (cases "kind_of ?cols \<in> RECORD_KINDS") simp_all
  from stream_handler_effect [OF this]
  have eff: "follows st' (rd\<lparr>rd_chain := ch\<rparr>) \<and> total_count (rep st') = total_count (rep st) + 1 \<and>
          first_t_us (rep st') = (if first_t_us (rep st) = None then Some t else first_t_us (rep st)) \<and>
          last_t_us (rep st') = Some t"
    using fol by (simp add: follows_def)
  have "reader_step est rd line = Inr (rd\<lparr>rd_chain := ch\<rparr>,
      Some \<lparr>sl_kind = kind_of ?cols, sl_t_us = t, sl_utc_us = utc_resolve (rd_utc rd) t, sl_fields = ?cols,
        sl_line = line, sl_utc_best = (if est then clock_resolve (rd_clock rd) t else None)\<rparr>)"
    using k len rd fol st by (auto simp: reader_step_def Let_def follows_def)
  with eff show ?thesis by (auto simp: yields_def)
qed

lemma line_step_yields:
  assumes step: "line_step n line st = (st', Next)" and fol: "follows st rd"
  shows "\<exists>rd' sl. reader_step est rd line = Inr (rd', sl) \<and> follows st' rd' \<and> yields st st' sl"
proof (cases "line = []")
  case True
  with step fol show ?thesis
    by (auto simp: line_step_def reader_step_def starts_with_def kind_of_def RECORD_KINDS_def yields_def)
next
  case ne: False
  let ?s = "with_rep st (\<lambda>r. r\<lparr>total_lines := total_lines r + 1\<rparr>)"
  have fol': "follows ?s rd" and obs: "observed ?s = observed st"
    using fol by (simp_all add: follows_def observed_def with_rep_def)
  have tot: "yields ?s st' sl \<Longrightarrow> yields st st' sl" for sl
    using obs by (cases sl) (simp_all add: yields_def observed_def total_count_def)
  show ?thesis
  proof (cases "starts_with ''#'' line")
    case True
    have pad: "reader_meta est rd line = Inr rd" if "starts_with ''#pad,'' line"
    proof -
      have "split_on CHR '','' line ! 0 = ''#pad''" using starts_with_head [of "''#pad''" line] that by simp
      then have "\<not> starts_with ''#sdlog,'' line" "\<not> starts_with ''#src,'' line" "\<not> starts_with ''#utc,'' line"
        "line \<noteq> ''#utc''" "\<not> starts_with ''#clock,'' line"
        using starts_with_head [of "''#sdlog''" line] starts_with_head [of "''#src''" line]
          starts_with_head [of "''#utc''" line] starts_with_head [of "''#clock''" line] by auto
      then show ?thesis by (simp add: reader_meta_def Let_def)
    qed
    show ?thesis
    proof (cases "starts_with ''#pad,'' line")
      case isp: True
      then have "st' = ?s" using step ne by (simp add: line_step_def Let_def)
      then show ?thesis using pad [OF isp] True fol' obs
        by (auto simp: reader_step_def yields_def)
    next
      case False
      from step ne False True have m: "parse_meta ?s line = (st', Next)" "\<not> unsupported_version (rep st')"
        by (auto simp: line_step_def Let_def split: if_splits prod.splits flow.splits)
      then obtain rd' where "reader_meta est rd line = Inr rd'" "follows st' rd'"
        using reader_meta_follows [OF m fol'] by blast
      moreover have "observed st' = observed st" using parse_meta_observed [of ?s line] m obs by simp
      ultimately show ?thesis using True by (auto simp: reader_step_def yields_def)
    qed
  next
    case False
    then have "\<not> starts_with ''#pad,'' line" "\<not> starts_with ''# '' line"
      using starts_with_append [of "''#''" "''pad,''" line] starts_with_append [of "''#''" "'' ''" line] by auto
    with step ne False have "stream_line ?s line = (st', Next)"
      by (simp add: line_step_def Let_def)
    from stream_line_yields [OF this fol' False] tot show ?thesis by blast
  qed
qed

lemma handler_no_return:
  "snd (meta_sdlog st cols) \<noteq> Return" "snd (meta_src st cols) \<noteq> Return" "snd (meta_drop st cols) \<noteq> Return"
  "snd (meta_gap st cols) \<noteq> Return" "snd (meta_utc st cols) \<noteq> Return" "snd (meta_rotate st cols) \<noteq> Return"
  "snd (meta_close st cols) \<noteq> Return" "snd (meta_clock st line) \<noteq> Return"
  "snd (meta_ident st line) \<noteq> Return" "snd (meta_origin st cols) \<noteq> Return"
  by (simp_all add: handler_defs Let_def split: sum.split)

lemma parse_meta_no_return: "snd (parse_meta st line) \<noteq> Return"
  by (simp add: parse_meta_def Let_def handler_no_return)

lemma stream_line_no_return: "snd (stream_line st line) \<noteq> Return"
  by (simp add: stream_line_def record_line_def text_line_def raise_or_def Let_def split: sum.split prod.split)

lemma line_step_return:
  assumes "line_step n line st = (st', Return)"
  shows "legacy (rep st') \<or> unsupported_version (rep st')"
  using assms parse_meta_no_return stream_line_no_return
  by (auto simp: line_step_def Let_def with_rep_def split: if_splits prod.splits flow.splits) (metis snd_conv)+

lemma parse_lines_return:
  "parse_lines n ls st = (st', False) \<Longrightarrow> legacy (rep st') \<or> unsupported_version (rep st')"
proof (induction n ls st rule: parse_lines.induct)
  case (2 n l ls st)
  then show ?case
    by (auto split: prod.splits flow.splits dest: line_step_return)
qed simp

lemma read_lines_follow:
  assumes "no_raise n ls st" and "parse_lines n ls st = (st', True)" and "follows st rd"
  shows "\<exists>items. read_lines est rd ls = (items, None) \<and>
     total_count (rep st') = total_count (rep st) + int (length items) \<and>
     first_t_us (rep st') =
       (if first_t_us (rep st) = None \<and> items \<noteq> [] then Some (sl_t_us (fst (hd items))) else first_t_us (rep st)) \<and>
     last_t_us (rep st') = (if items = [] then last_t_us (rep st) else Some (sl_t_us (fst (last items))))"
  using assms
proof (induction ls arbitrary: n st rd)
  case Nil
  then show ?case by simp
next
  case (Cons l ls)
  obtain s fl where step: "line_step n l st = (s, fl)" by (cases "line_step n l st")
  with Cons.prems have "fl = Next" by (cases fl) auto
  with step have step: "line_step n l st = (s, Next)" by simp
  with Cons.prems have rest: "no_raise (n + 1) ls s" "parse_lines (n + 1) ls s = (st', True)" by auto
  obtain rd' sl where rd: "reader_step est rd l = Inr (rd', sl)" "follows s rd'" "yields st s sl"
    using line_step_yields [OF step Cons.prems(3)] by blast
  obtain items where items: "read_lines est rd' ls = (items, None)"
     "total_count (rep st') = total_count (rep s) + int (length items)"
     "first_t_us (rep st') =
       (if first_t_us (rep s) = None \<and> items \<noteq> [] then Some (sl_t_us (fst (hd items))) else first_t_us (rep s))"
     "last_t_us (rep st') = (if items = [] then last_t_us (rep s) else Some (sl_t_us (fst (last items))))"
    using Cons.IH [OF rest rd(2)] by blast
  show ?case
  proof (cases sl)
    case None
    with rd items show ?thesis by (simp add: yields_def observed_def total_count_def)
  next
    case (Some x)
    with rd items show ?thesis by (simp add: yields_def)
  qed
qed

lemma universal_newlines_id: "CHR 13 \<notin> set s \<Longrightarrow> universal_newlines s = s"
  by (induction s rule: universal_newlines.induct) auto

lemma split_on_ends: "s \<noteq> [] \<Longrightarrow> last s = c \<Longrightarrow> last (split_on c s) = []"
proof -
  assume "s \<noteq> []" "last s = c"
  then have "s = butlast s @ c # []" using append_butlast_last_id [of s] by simp
  then have "split_on c s = split_on c (butlast s) @ [[]]"
    by (metis split_on.simps(1) split_on_append)
  then show ?thesis by simp
qed



section \<open>Facts about the check command\<close>

lemma check_one_bounds: "0 \<le> check_one strict f \<and> check_one strict f \<le> 2"
  by (auto simp: check_one_def Let_def split: option.splits)

lemma foldl_max: "foldl (\<lambda>s x. max s (g x)) a xs = (if xs = [] then a else max a (Max (g ` set xs)))"
  for g :: "'a \<Rightarrow> int"
  by (induction xs arbitrary: a) (auto simp: max.assoc)

lemma cmd_check_le: "cmd_check strict fs \<le> v \<longleftrightarrow> (\<forall>f\<in>set fs. check_one strict f \<le> v)" if "0 \<le> v"
  using that by (auto simp: cmd_check_def foldl_max)

text \<open>
  C38: the exit status of \<open>check\<close> says what was found.  It is 0 iff every file was read, is of a
  supported version, has no malformed line and, with \<open>--strict\<close>, carries no drop, no retention
  gap and a close line; it is 2 iff some file could not be read or is of another version; it is
  1 in every other case.
\<close>

theorem cmd_check_status:
  "cmd_check strict fs \<in> {0, 1, 2} \<and>
   (cmd_check strict fs = 2 \<longleftrightarrow>
      (\<exists>(name, content)\<in>set fs. content = None \<or>
         (\<exists>text. content = Some text \<and> unsupported_version (parse_file name text)))) \<and>
   (cmd_check strict fs = 0 \<longleftrightarrow>
      (\<forall>(name, content)\<in>set fs. \<exists>text. content = Some text \<and>
         (let r = parse_file name text in
            \<not> unsupported_version r \<and> clean r \<and>
            (strict \<longrightarrow> drops r = [] \<and> gaps r = [] \<and> close_reason r \<noteq> None))))"
proof -
  have pos: "0 \<le> cmd_check strict fs" by (simp add: cmd_check_def foldl_max)
  have two: "cmd_check strict fs \<le> 2" using check_one_bounds by (simp add: cmd_check_le)
  have c1: "check_one strict f \<le> 1 \<longleftrightarrow>
      \<not> (snd f = None \<or> (\<exists>t. snd f = Some t \<and> unsupported_version (parse_file (fst f) t)))" for f
    by (auto simp: check_one_def Let_def split: option.splits)
  have c0: "check_one strict f \<le> 0 \<longleftrightarrow> (\<exists>t. snd f = Some t \<and>
       (let r = parse_file (fst f) t in \<not> unsupported_version r \<and> clean r \<and>
            (strict \<longrightarrow> drops r = [] \<and> gaps r = [] \<and> close_reason r \<noteq> None)))" for f
    by (auto simp: check_one_def Let_def split: option.splits)
  have "cmd_check strict fs = 2 \<longleftrightarrow> \<not> cmd_check strict fs \<le> 1" using two by linarith
  also have "\<dots> \<longleftrightarrow> (\<exists>(name, content)\<in>set fs. content = None \<or>
         (\<exists>text. content = Some text \<and> unsupported_version (parse_file name text)))"
    by (simp only: cmd_check_le [OF zero_le_one] c1 case_prod_unfold ball_simps bex_simps not_not)
  finally have is2: "cmd_check strict fs = 2 \<longleftrightarrow>
      (\<exists>(name, content)\<in>set fs. content = None \<or>
         (\<exists>text. content = Some text \<and> unsupported_version (parse_file name text)))" .
  have "cmd_check strict fs = 0 \<longleftrightarrow> cmd_check strict fs \<le> 0" using pos by linarith
  then have is0: "cmd_check strict fs = 0 \<longleftrightarrow>
      (\<forall>(name, content)\<in>set fs. \<exists>text. content = Some text \<and>
         (let r = parse_file name text in \<not> unsupported_version r \<and> clean r \<and>
            (strict \<longrightarrow> drops r = [] \<and> gaps r = [] \<and> close_reason r \<noteq> None)))"
    by (simp only: cmd_check_le [OF order_refl] c0 case_prod_unfold)
  have "cmd_check strict fs \<in> {0, 1, 2}" using pos two by auto
  with is2 is0 show ?thesis by blast
qed

theorem cmd_check_status_witness:
  "cmd_check True [(''L0000001.LOG'', None)] = 2"
  using cmd_check_status [of True "[(''L0000001.LOG'', None)]"] by simp

section \<open>Behaviours the documentation does not state\<close>

text \<open>A tail torn inside the \<open>#close\<close> line reads as closed, and a torn record that is still
  well-formed is counted, although the report calls the line discarded.\<close>

lemma torn_close_reads_closed:
  "let r = parse_file ''L1'' ''#sdlog,2,1,@0,x\<newline>#close,@1F,ro'' in
     torn_tail r \<and> clean r \<and> close_reason r = Some ''ro''"
  by code_simp

lemma torn_record_is_counted:
  "let r = parse_file ''L1'' ''#sdlog,2,1,@0,x\<newline>C1x,@10,1A2,00'' in
     torn_tail r \<and> clean r \<and> counts r = [(''C'', 1)]"
  by code_simp

text \<open>A superscript digit (code 178) in the version field is a malformed line to \<open>check\<close> and an
  uncaught exception in the reader.\<close>

lemma superscript_version_crashes_reader:
  "snd (read_stream False (''#sdlog,'' @ [char_of (178::nat)] @ '',1,@0,x'' @ [CHR ''\<newline>'']))
     = Some (UncaughtValueError [char_of (178::nat)])"
  by code_simp

end
