(* ===== verification/Collector.thy ===== *)
theory Collector
  imports Effects LogFile Catalog "HOL-Library.Product_Lexorder"
begin

text \<open>
  \<open>script/sdlog_collect.py\<close>: one collection pass over one device.  The network is a script of
  replies, one per request (an exhausted script is a device that does not answer); the archive is
  a map from a directory and a file name to bytes, with a script of outcomes for the operations
  that write to it (an exhausted script is a disk that works; a failed write leaves its file as it
  was).  Each request is recorded with the archive as it was when the request left.

  The reads whose failure the code does not catch where it happens (the digests, the window under a
  resume point, the tests for a file) draw from the same script; a \<open>stat\<close> or a report read that fails
  is the code's case of a file that is not there.

  JSON, the digest and the clock are parameters (\<open>env\<close>), a file's text is its bytes; \<open>too_deep\<close>
  picks out the texts on which \<open>json.loads\<close> raises \<open>RecursionError\<close>.  Reasons
  are reported, never inspected, and are shortened.  Chunk names are ASCII once they passed
  \<open>safe_name\<close>, and \<open>quote\<close> copies them.
\<close>

section \<open>Values from the wire\<close>

datatype json =
    JNull | JBool bool | JInt int | JFloat pyfloat | JStr string | JArr "json list" | JObj "(string \<times> json) list"

datatype exn =
    Mismatch string | Interrupted string | HttpError int | Transport | ChunkFailed string bool
  | ArchiveError string | Refused string | Unreachable string bool | ValueError | TypeError | OverflowError
  | OsError | RecursionError

definition int_space :: "char \<Rightarrow> bool" where
  "int_space c \<longleftrightarrow> (of_char c :: nat) \<in> {9, 10, 11, 12, 13, 28, 29, 30, 31, 32}"

definition trim :: "string \<Rightarrow> string" where
  "trim s = rev (dropWhile int_space (rev (dropWhile int_space s)))"

text \<open>\<open>int(s)\<close> of an ASCII text: white space around, a sign, digits with single underscores between,
  at most 4300 of them (the interpreter's limit).\<close>

definition int_digits :: "string \<Rightarrow> int option" where
  "int_digits s =
     (if list_all (\<lambda>p. p \<noteq> [] \<and> list_all ascii_digit p) (split_on (CHR ''_'') s)
         \<and> length (concat (split_on (CHR ''_'') s)) \<le> 4300
      then Some (dec_value (concat (split_on (CHR ''_'') s))) else None)"

definition int_text :: "string \<Rightarrow> int option" where
  "int_text s =
     (case trim s of
        [] \<Rightarrow> None
      | c # cs \<Rightarrow>
          (if c = CHR ''-'' then map_option uminus (int_digits cs)
           else if c = CHR ''+'' then int_digits cs
           else int_digits (c # cs)))"

definition truncate :: "rat \<Rightarrow> int" where
  "truncate q = (if q < 0 then - \<lfloor>- q\<rfloor> else \<lfloor>q\<rfloor>)"

text \<open>\<open>int(value)\<close> of a decoded JSON value.\<close>

fun json_int :: "json \<Rightarrow> exn + int" where
  "json_int (JInt n) = Inr n"
| "json_int (JBool b) = Inr (of_bool b)"
| "json_int (JFloat (Fin q)) = Inr (truncate q)"
| "json_int (JFloat NaN) = Inl ValueError"
| "json_int (JFloat PosInf) = Inl OverflowError"
| "json_int (JFloat NegInf) = Inl OverflowError"
| "json_int (JStr s) = (case int_text s of None \<Rightarrow> Inl ValueError | Some n \<Rightarrow> Inr n)"
| "json_int JNull = Inl TypeError"
| "json_int (JArr xs) = Inl TypeError"
| "json_int (JObj kvs) = Inl TypeError"

definition jget :: "(string \<times> json) list \<Rightarrow> string \<Rightarrow> json" where
  "jget kvs k = (case map_of kvs k of None \<Rightarrow> JNull | Some v \<Rightarrow> v)"

fun truthy :: "json \<Rightarrow> bool" where
  "truthy JNull = False"
| "truthy (JBool b) = b"
| "truthy (JInt n) = (n \<noteq> 0)"
| "truthy (JFloat x) = (x \<noteq> Fin 0)"
| "truthy (JStr s) = (s \<noteq> [])"
| "truthy (JArr xs) = (xs \<noteq> [])"
| "truthy (JObj kvs) = (kvs \<noteq> [])"

text \<open>\<open>value == n\<close> for an integer \<open>n\<close>.\<close>

fun json_is_int :: "json \<Rightarrow> int \<Rightarrow> bool" where
  "json_is_int (JInt m) n = (m = n)"
| "json_is_int (JBool b) n = (of_bool b = n)"
| "json_is_int (JFloat x) n = (x = Fin (of_int n))"
| "json_is_int _ n = False"

definition int_or :: "json \<Rightarrow> int \<Rightarrow> exn + int" where
  "int_or v fallback =
     (if v = JNull then Inr fallback
      else case json_int v of
             Inr n \<Rightarrow> Inr n
           | Inl OverflowError \<Rightarrow> Inl OverflowError
           | Inl _ \<Rightarrow> Inr fallback)"

definition opt_int :: "json \<Rightarrow> exn + int option" where
  "opt_int v =
     (if v = JNull then Inr None
      else case json_int v of
             Inr n \<Rightarrow> Inr (Some n)
           | Inl OverflowError \<Rightarrow> Inl OverflowError
           | Inl _ \<Rightarrow> Inr None)"

section \<open>Index entries\<close>

record chunk_entry =
  c_name :: string
  c_seq :: int
  c_size :: int
  c_first :: "int option"
  c_last :: "int option"

definition alnum :: "char \<Rightarrow> bool" where
  "alnum c \<longleftrightarrow> (let n = of_char c :: nat in 48 \<le> n \<and> n \<le> 57 \<or> 65 \<le> n \<and> n \<le> 90 \<or> 97 \<le> n \<and> n \<le> 122)"

definition is_safe_name :: "string \<Rightarrow> bool" where
  "is_safe_name s \<longleftrightarrow> s \<noteq> [] \<and> length s \<le> 64 \<and> alnum (hd s) \<and>
     list_all (\<lambda>c. alnum c \<or> c \<in> {CHR ''.'', CHR ''_'', CHR ''-''}) (tl s)"

text \<open>\<open>Path(name).stem\<close> of a safe name, which has no slash: without the part after the last dot,
  unless that dot begins or ends the name.\<close>

definition stem :: "string \<Rightarrow> string" where
  "stem s =
     (case partition_on (CHR ''.'') (rev s) of
        (ext, found, front) \<Rightarrow> if found \<and> front \<noteq> [] \<and> ext \<noteq> [] then rev front else s)"

definition seq_of :: "string \<Rightarrow> int" where
  "seq_of name = (let ds = filter ascii_digit (stem name) in if ds = [] then 0 else dec_value ds)"

definition chunk_of :: "json \<Rightarrow> exn + chunk_entry" where
  "chunk_of entry =
     (case entry of
        JObj kvs \<Rightarrow>
          (case jget kvs ''name'' of
             JStr name \<Rightarrow>
               if \<not> is_safe_name name then Inl ValueError
               else
                 bindE (int_or (jget kvs ''seq'') (seq_of name)) (\<lambda>s.
                 bindE (int_or (jget kvs ''bytes'') 0) (\<lambda>n.
                 bindE (opt_int (jget kvs ''first_t_us'')) (\<lambda>a.
                 bindE (opt_int (jget kvs ''last_t_us'')) (\<lambda>b.
                 Inr \<lparr>c_name = name, c_seq = s, c_size = n, c_first = a, c_last = b\<rparr>))))
           | _ \<Rightarrow> Inl ValueError)
      | _ \<Rightarrow> Inl ValueError)"

definition entry_label :: "json \<Rightarrow> string" where
  "entry_label entry =
     (case entry of
        JObj kvs \<Rightarrow> (case jget kvs ''name'' of JStr s \<Rightarrow> if trim s \<noteq> [] then take 40 s else ''<index entry>'' | _ \<Rightarrow> ''<index entry>'')
      | _ \<Rightarrow> ''<index entry>'')"

text \<open>The loop over the entries: the chunks in wire order and the entries that could not be read.\<close>

fun scan_entries :: "json list \<Rightarrow> string set \<Rightarrow> exn + chunk_entry list \<times> (string \<times> string) list" where
  "scan_entries [] seen = Inr ([], [])"
| "scan_entries (e # es) seen =
     (case chunk_of e of
        Inl ValueError \<Rightarrow> bindE (scan_entries es seen) (\<lambda>(cs, ps). Inr (cs, (entry_label e, ''unusable entry'') # ps))
      | Inl err \<Rightarrow> Inl err
      | Inr c \<Rightarrow>
          (if c_name c \<in> seen then scan_entries es seen
           else bindE (scan_entries es (insert (c_name c) seen)) (\<lambda>(cs, ps). Inr (c # cs, ps))))"

section \<open>The world of a pass\<close>

type_synonym path = "string \<times> string"

type_synonym archive = "path \<Rightarrow> bytes option"

datatype request = GetIndex | GetFile string "(nat \<times> nat option) option" | PostDone string

datatype length_header = NoLength | Length int | BadLength

text \<open>A response: the blocks successive \<open>read\<close> calls give, and whether the socket then breaks.\<close>

record response =
  status :: int
  promise :: length_header
  blocks :: "bytes list"
  breaks :: bool

datatype reply = Answer response | Silence

record outcome =
  o_device :: string
  fetched :: "string list"
  o_resumed :: "string list"
  o_restarted :: "string list"
  confirmed :: "string list"
  skipped :: "string list"
  failed :: "(string \<times> string) list"
  o_torn :: "(string \<times> string) list"
  transient :: "string list"
  archive_error :: "string option"
  refused :: "string option"
  bytes_fetched :: nat
  bytes_wire :: nat

definition new_outcome :: outcome where
  "new_outcome = \<lparr>o_device = [], fetched = [], o_resumed = [], o_restarted = [], confirmed = [], skipped = [], failed = [],
     o_torn = [], transient = [], archive_error = None, refused = None, bytes_fetched = 0, bytes_wire = 0\<rparr>"

definition defects :: "outcome \<Rightarrow> int" where
  "defects out = int (length (failed out)) - int (length (transient out))"

record transfer =
  stored :: nat
  wire :: nat
  resumed :: bool
  restarted :: bool
  t_torn :: "string option"

definition new_transfer :: transfer where
  "new_transfer = \<lparr>stored = 0, wire = 0, resumed = False, restarted = False, t_torn = None\<rparr>"

record world =
  script :: "reply list"
  disk :: "bool list"
  files :: archive
  sent :: "(request \<times> archive) list"
  naps :: "nat list"
  device :: string
  unreachable :: bool
  offline :: bool
  index_problems :: "(string \<times> string) list"
  transfer :: transfer
  out :: outcome

type_synonym 'a step = "(world, exn, 'a) act"

text \<open>What one collector is built with, and the library functions it calls.\<close>

record env =
  hostname :: "string option"
  pinned :: bool
  expect :: "string option"
  retries :: int
  loads :: "bytes \<Rightarrow> json option"
  too_deep :: "bytes \<Rightarrow> bool"
  dumps :: "json \<Rightarrow> bytes"
  str_of :: "json \<Rightarrow> string"
  sha256 :: "bytes \<Rightarrow> string"
  now :: string


section \<open>Primitive steps\<close>

text \<open>\<open>_open\<close>: one request, with \<open>_AUTH_STATUS\<close> as \<open>_Refused\<close> and every other status outside
  2xx as \<open>HTTPError\<close>.\<close>

definition open_reply :: "reply \<Rightarrow> exn + response" where
  "open_reply r =
     (case r of
        Silence \<Rightarrow> Inl Transport
      | Answer a \<Rightarrow>
          (if status a \<in> {401, 403} then Inl (Refused ''HTTP'')
           else if 200 \<le> status a \<and> status a < 300 then Inr a
           else Inl (HttpError (status a))))"

definition send :: "request \<Rightarrow> response step" where
  "send req w =
     (let w = w\<lparr>sent := sent w @ [(req, files w)]\<rparr> in
      case script w of
        [] \<Rightarrow> (Inl Transport, w)
      | r # rs \<Rightarrow> (open_reply r, w\<lparr>script := rs\<rparr>))"

text \<open>An operation on the archive: whether it succeeds comes from the disk's script.\<close>

definition disk_ok :: "bool step" where
  "disk_ok w = (case disk w of [] \<Rightarrow> (Inr True, w) | b # bs \<Rightarrow> (Inr b, w\<lparr>disk := bs\<rparr>))"

text \<open>A read of the archive that can raise: it draws from the same script, and \<open>OsError\<close> is the
  exception of one that fails.\<close>

definition read_ok :: "unit step" where
  "read_ok = bindA disk_ok (\<lambda>ok. if ok then ret () else raise OsError)"

definition put_file :: "path \<Rightarrow> bytes option \<Rightarrow> unit step" where
  "put_file p b = modify (\<lambda>w. w\<lparr>files := (files w)(p := b)\<rparr>)"

definition or_archive_error :: "string \<Rightarrow> unit step \<Rightarrow> unit step" where
  "or_archive_error why m = bindA disk_ok (\<lambda>ok. if ok then m else raise (ArchiveError why))"

text \<open>\<open>_unlink\<close>, which ignores a failure.\<close>

definition unlink :: "path \<Rightarrow> unit step" where
  "unlink p = bindA disk_ok (\<lambda>ok. whenA ok (put_file p None))"

definition nap :: "nat \<Rightarrow> unit step" where
  "nap k = modify (\<lambda>w. w\<lparr>naps := naps w @ [k - 1]\<rparr>)"

definition note_transfer :: "(transfer \<Rightarrow> transfer) \<Rightarrow> unit step" where
  "note_transfer f = modify (\<lambda>w. w\<lparr>transfer := f (transfer w)\<rparr>)"

definition note_out :: "(outcome \<Rightarrow> outcome) \<Rightarrow> unit step" where
  "note_out f = modify (\<lambda>w. w\<lparr>out := f (out w)\<rparr>)"

definition contents :: "archive \<Rightarrow> path \<Rightarrow> bytes" where
  "contents fs p = (case fs p of None \<Rightarrow> [] | Some b \<Rightarrow> b)"

definition size_of :: "archive \<Rightarrow> path \<Rightarrow> nat" where
  "size_of fs p = length (contents fs p)"

text \<open>\<open>_attempts\<close>: attempt \<open>k\<close> is preceded by a sleep of \<open>backoff * 2 ^ (k - 1)\<close>; the exponent is kept.\<close>

definition attempts :: "env \<Rightarrow> 'a verdict step \<Rightarrow> (string + 'a) step" where
  "attempts cf body = tries nap (nat (max 1 (retries cf))) 0 body ''no attempt was made''"

definition retryable :: "int \<Rightarrow> bool" where
  "retryable st \<longleftrightarrow> st \<ge> 500 \<or> st \<in> {408, 429}"

definition is_race :: "int \<Rightarrow> bool" where
  "is_race st \<longleftrightarrow> st \<in> {404, 409}"

section \<open>Bodies\<close>

definition reads :: "response \<Rightarrow> bytes list" where
  "reads r = takeWhile (\<lambda>b. b \<noteq> []) (blocks r)"

definition breaks_off :: "response \<Rightarrow> bool" where
  "breaks_off r \<longleftrightarrow> breaks r \<and> [] \<notin> set (blocks r)"

definition promised :: "response \<Rightarrow> int option step" where
  "promised r = (case promise r of NoLength \<Rightarrow> ret None | Length n \<Rightarrow> ret (Some n) | BadLength \<Rightarrow> raise ValueError)"

text \<open>\<open>response.read()\<close>: a body shorter than promised raises \<open>IncompleteRead\<close>.\<close>

definition read_all :: "response \<Rightarrow> bytes step" where
  "read_all r =
     (let body = concat (reads r) in
      if breaks_off r then raise Transport
      else case promise r of
             Length n \<Rightarrow> if int (length body) < n then raise Transport else ret body
           | _ \<Rightarrow> ret body)"

section \<open>The index\<close>

definition name_of :: "env \<Rightarrow> world \<Rightarrow> string" where
  "name_of cf w =
     (if device w \<noteq> [] then device w
      else case hostname cf of Some h \<Rightarrow> (if h \<noteq> [] then h else ''device'') | None \<Rightarrow> ''device'')"

definition fetch_index :: "env \<Rightarrow> (string \<times> json) list verdict step" where
  "fetch_index cf =
     catchA
       (bindA (send GetIndex) (\<lambda>r. bindA (read_all r) (\<lambda>body.
          if too_deep cf body then raise RecursionError
          else
            (case loads cf body of
               None \<Rightarrow> raise (Unreachable ''the reply is not JSON'' False)
             | Some (JObj kvs) \<Rightarrow> ret (Done kvs)
             | Some _ \<Rightarrow> raise (Unreachable ''the index is not a JSON object'' False)))))
       (\<lambda>e. case e of
          HttpError st \<Rightarrow> (if retryable st then ret (Again ''HTTP'') else raise (Unreachable ''HTTP'' False))
        | Transport \<Rightarrow> ret (Again ''transport'')
        | _ \<Rightarrow> raise e)"

definition index :: "env \<Rightarrow> chunk_entry list step" where
  "index cf =
     thenA (modify (\<lambda>w. w\<lparr>index_problems := []\<rparr>))
     (bindA (attempts cf (fetch_index cf)) (\<lambda>got.
        case got of
          Inl reason \<Rightarrow> raise (Unreachable reason True)
        | Inr kvs \<Rightarrow>
            (let named = jget kvs ''device'' in
             if expect cf \<noteq> None \<and> named \<noteq> JStr (the (expect cf)) then raise (Unreachable ''another device'' False)
             else
               thenA (whenA (truthy named \<and> \<not> pinned cf) (modify (\<lambda>w. w\<lparr>device := str_of cf named\<rparr>)))
               (case scan_entries (case jget kvs ''chunks'' of JArr es \<Rightarrow> es | _ \<Rightarrow> []) {} of
                  Inl e \<Rightarrow> raise e
                | Inr (cs, problems) \<Rightarrow>
                    thenA (modify (\<lambda>w. w\<lparr>index_problems := problems\<rparr>))
                      (ret (sort_key (\<lambda>c. (c_seq c, c_name c)) cs))))))"

section \<open>The archive\<close>

definition PART_SUFFIX :: string where "PART_SUFFIX = ''.part''"
definition CANDIDATE_SUFFIX :: string where "CANDIDATE_SUFFIX = ''.torn-candidate''"
definition TORN_SUFFIX :: string where "TORN_SUFFIX = ''.torn''"

definition archive_path :: "env \<Rightarrow> world \<Rightarrow> string \<Rightarrow> path" where
  "archive_path cf w name = (name_of cf w, name)"

definition partial_path :: "env \<Rightarrow> world \<Rightarrow> string \<Rightarrow> path" where
  "partial_path cf w name = (name_of cf w, name @ PART_SUFFIX)"

definition candidate_path :: "env \<Rightarrow> world \<Rightarrow> string \<Rightarrow> path" where
  "candidate_path cf w name = (name_of cf w, name @ CANDIDATE_SUFFIX)"

definition meta_path :: "env \<Rightarrow> world \<Rightarrow> string \<Rightarrow> path" where
  "meta_path cf w name = (name_of cf w, name @ CANDIDATE_SUFFIX @ ''.json'')"

definition torn_path :: "env \<Rightarrow> world \<Rightarrow> string \<Rightarrow> path" where
  "torn_path cf w name = (name_of cf w, name @ TORN_SUFFIX)"

definition text_of_bytes :: "bytes \<Rightarrow> string" where
  "text_of_bytes bs = map (\<lambda>b. char_of (unat b)) bs"

text \<open>\<open>_read_report\<close>: the report, and the problem if there is one.\<close>

definition problem_of :: "report \<Rightarrow> string option" where
  "problem_of r =
     (if bad_lines r \<noteq> [] then Some ''malformed line''
      else if legacy r then Some ''not an sd_logger chunk''
      else if unsupported_version r then Some ''write format this collector cannot verify''
      else if format_version r = None then Some ''no #sdlog header''
      else if close_reason r = None then Some ''short transfer: no #close line''
      else None)"

definition read_report :: "archive \<Rightarrow> path \<Rightarrow> report option \<times> string option" where
  "read_report fs p =
     (case fs p of
        None \<Rightarrow> (None, Some ''cannot read'')
      | Some b \<Rightarrow> (let r = parse_file (snd p) (text_of_bytes b) in (Some r, problem_of r)))"

definition verify_chunk :: "archive \<Rightarrow> path \<Rightarrow> string option" where
  "verify_chunk fs p = snd (read_report fs p)"

definition is_torn :: "report option \<Rightarrow> bool" where
  "is_torn r =
     (case r of
        None \<Rightarrow> False
      | Some r \<Rightarrow> bad_lines r = [] \<and> \<not> legacy r \<and> \<not> unsupported_version r \<and> format_version r \<noteq> None \<and> close_reason r = None)"

definition read_json :: "env \<Rightarrow> archive \<Rightarrow> path \<Rightarrow> (string \<times> json) list option" where
  "read_json cf fs p =
     (case fs p of
        None \<Rightarrow> None
      | Some b \<Rightarrow> (case loads cf b of Some (JObj kvs) \<Rightarrow> Some kvs | _ \<Rightarrow> None))"

text \<open>\<open>json.loads\<close> of a file nested too deeply raises \<open>RecursionError\<close>, which \<open>_read_json\<close> does not catch.\<close>

definition parses :: "env \<Rightarrow> path \<Rightarrow> unit step" where
  "parses cf p =
     bindA (gets (\<lambda>w. case files w p of None \<Rightarrow> False | Some b \<Rightarrow> too_deep cf b)) (\<lambda>deep.
       if deep then raise RecursionError else ret ())"

definition HEAD_WINDOW :: nat where "HEAD_WINDOW = 256"
definition SEAM_WINDOW :: nat where "SEAM_WINDOW = 256"
definition TORN_MAX_SIGHTINGS :: int where "TORN_MAX_SIGHTINGS = 3"

section \<open>Identity\<close>

definition probe_head :: "chunk_entry \<Rightarrow> nat \<Rightarrow> bytes step" where
  "probe_head c n =
     bindA (send (GetFile (c_name c) (Some (0, Some (n - 1))))) (\<lambda>r.
     bindA (promised r) (\<lambda>p.
     let body = concat (reads r); data = take n body in
     if length body < n \<and> breaks_off r then raise Transport
     else
       thenA (note_transfer (\<lambda>t. t\<lparr>wire := wire t + length data\<rparr>))
       (if int (length data) < (case p of None \<Rightarrow> int n | Some m \<Rightarrow> min m (int n))
        then raise (Interrupted ''identity window ended'') else ret data)))"

definition prove_local :: "chunk_entry \<Rightarrow> path \<Rightarrow> unit step" where
  "prove_local c p =
     bindA (gets (\<lambda>w. contents (files w) p)) (\<lambda>own.
       if own = [] then raise (Mismatch ''the local copy is empty'')
       else if c_size c \<noteq> 0 \<and> int (length own) > c_size c then raise (Mismatch ''local copy is longer'')
       else
         (let want = min (length own) HEAD_WINDOW in
          bindA (probe_head c want) (\<lambda>head.
            if length head < want then raise (Mismatch ''the device holds less'')
            else
              thenA read_ok
              (if head \<noteq> take (length head) own then raise (Mismatch ''first bytes differ'') else ret ()))))"

definition defect :: "string \<Rightarrow> 'a step" where
  "defect why = raise (ChunkFailed why False)"

text \<open>What the archived copy says of itself: nothing, or why it cannot stand for this chunk.\<close>

definition copy_problem :: "env \<Rightarrow> world \<Rightarrow> chunk_entry \<Rightarrow> string option" where
  "copy_problem cf w c =
     (let p = archive_path cf w (c_name c); b = contents (files w) p in
      if c_size c \<noteq> 0 \<and> int (length b) \<noteq> c_size c then Some ''archived copy has another length''
      else
        (case read_report (files w) p of
           (r, problem) \<Rightarrow>
             (let vouched = (is_torn r \<and>
                    (case read_json cf (files w) (torn_path cf w (c_name c)) of
                       None \<Rightarrow> False | Some kvs \<Rightarrow> jget kvs ''sha256'' = JStr (sha256 cf b))) in
              if problem \<noteq> None \<and> \<not> vouched then Some ''archived copy does not verify''
              else
                (case r of
                   None \<Rightarrow> None
                 | Some r \<Rightarrow>
                     (if c_seq c \<noteq> 0 \<and> r_seq r \<noteq> None \<and> r_seq r \<noteq> Some (c_seq c)
                      then Some ''archived copy carries another seq'' else None)))))"

text \<open>A copy of the right length that is only torn is asked for its sidecar and its digest.\<close>

definition needs_sidecar :: "env \<Rightarrow> world \<Rightarrow> chunk_entry \<Rightarrow> bool" where
  "needs_sidecar cf w c \<longleftrightarrow>
     (let p = archive_path cf w (c_name c) in
      (c_size c = 0 \<or> int (size_of (files w) p) = c_size c) \<and> is_torn (fst (read_report (files w) p)))"

definition already_have :: "env \<Rightarrow> chunk_entry \<Rightarrow> unit step" where
  "already_have cf c =
     thenA (bindA (gets (\<lambda>w. (needs_sidecar cf w c, torn_path cf w (c_name c)))) (\<lambda>(torn, q).
              whenA torn (thenA (parses cf q) read_ok)))
     (bindA (gets (\<lambda>w. (copy_problem cf w c, archive_path cf w (c_name c)))) (\<lambda>(problem, p).
       case problem of
         Some why \<Rightarrow> defect why
       | None \<Rightarrow>
           bindA (attempts cf
             (catchA (thenA (prove_local c p) (ret (Done ())))
               (\<lambda>e. case e of
                  Mismatch why \<Rightarrow> defect why
                | Interrupted why \<Rightarrow> ret (Again why)
                | HttpError st \<Rightarrow> (if retryable st then ret (Again ''HTTP'')
                     else raise (ChunkFailed ''could not re-check'' (is_race st)))
                | Transport \<Rightarrow> ret (Again ''transport'')
                | OsError \<Rightarrow> ret (Again ''OSError'')
                | _ \<Rightarrow> raise e)))
             (\<lambda>got. case got of Inl _ \<Rightarrow> raise (ChunkFailed ''could not re-check'' True) | Inr u \<Rightarrow> ret u)))"

section \<open>One download\<close>

text \<open>The loop over the blocks: how it ended, the bytes received, the bytes seen under the seam, and
  whether the file was opened.\<close>

datatype pull_end = Whole | Differs | NoSpace

fun pull :: "path \<Rightarrow> bool \<Rightarrow> nat \<Rightarrow> bytes \<Rightarrow> bytes list \<Rightarrow> nat \<Rightarrow> bytes \<Rightarrow> bool
    \<Rightarrow> (pull_end \<times> nat \<times> bytes \<times> bool) step" where
  "pull p app overlap expected [] got seen opened = ret (Whole, got, seen, opened)"
| "pull p app overlap expected (b # bs) got seen opened =
     thenA (note_transfer (\<lambda>t. t\<lparr>wire := wire t + length b\<rparr>))
     (let want = overlap - length seen;
          seen' = seen @ take want b;
          rest = drop want b;
          got = got + length b in
      if 0 < want \<and> length seen' = overlap \<and> seen' \<noteq> expected
      then ret (Differs, got, seen', opened)
      else if rest = [] then pull p app overlap expected bs got seen' opened
      else
        bindA (if opened then ret True
               else bindA disk_ok (\<lambda>ok.
                 thenA (whenA ok (bindA (gets (\<lambda>w. if app then contents (files w) p else [])) (\<lambda>old. put_file p (Some old))))
                   (ret ok))) (\<lambda>ok.
        if \<not> ok then ret (NoSpace, got, seen', False)
        else bindA disk_ok (\<lambda>ok.
          if \<not> ok then ret (NoSpace, got, seen', True)
          else
            thenA (bindA (gets (\<lambda>w. contents (files w) p)) (\<lambda>old. put_file p (Some (old @ rest))))
            (thenA (note_transfer (\<lambda>t. t\<lparr>stored := stored t + length rest\<rparr>))
              (pull p app overlap expected bs got seen' True)))))"

definition download :: "chunk_entry \<Rightarrow> path \<Rightarrow> nat \<Rightarrow> unit step" where
  "download c p offset =
     (let overlap = min offset SEAM_WINDOW; start = offset - overlap in
      bindA (send (GetFile (c_name c) (if offset \<noteq> 0 then Some (start, None) else None))) (\<lambda>r.
      bindA (promised r) (\<lambda>pr.
      let again = (offset \<noteq> 0 \<and> status r \<noteq> 206);
          overlap = (if again then 0 else overlap); start = (if again then 0 else start) in
      thenA (whenA (offset \<noteq> 0 \<and> \<not> again) (note_transfer (\<lambda>t. t\<lparr>resumed := True\<rparr>)))
      (thenA (whenA (overlap \<noteq> 0) read_ok)
      (bindA (gets (\<lambda>w. take overlap (drop start (contents (files w) p)))) (\<lambda>expected.
       bindA (pull p (\<not> again) overlap expected (reads r) 0 [] False) (\<lambda>(how, got, seen, opened).
       bindA (if opened then disk_ok else ret True) (\<lambda>ok.
         if \<not> ok then raise (ArchiveError ''cannot write'')
         else
           (case how of
              Differs \<Rightarrow> raise (Mismatch ''the bytes under the resume point differ'')
            | NoSpace \<Rightarrow> raise (ArchiveError ''cannot write'')
            | Whole \<Rightarrow>
                (if breaks_off r then raise Transport
                 else if overlap \<noteq> 0 \<and> length seen < overlap then raise (Interrupted ''inside the resume window'')
                 else if pr \<noteq> None \<and> int got < the pr then raise (Interrupted ''body ended'')
                 else ret ()))))))))))"


section \<open>Fetching a chunk\<close>

definition fetch_attempt :: "env \<Rightarrow> chunk_entry \<Rightarrow> path \<Rightarrow> unit verdict step" where
  "fetch_attempt cf c p =
     bindA (gets (\<lambda>w. size_of (files w) p)) (\<lambda>offset.
       catchA
         (if offset \<noteq> 0
          then thenA (prove_local c p)
                 (if c_size c \<noteq> 0 \<and> int offset = c_size c then ret (Done ())
                  else thenA (download c p offset) (ret (Done ())))
          else thenA (download c p offset) (ret (Done ())))
         (\<lambda>e. case e of
            Mismatch why \<Rightarrow>
              thenA (unlink p) (thenA (note_transfer (\<lambda>t. t\<lparr>restarted := True\<rparr>)) (ret (Again why)))
          | HttpError st \<Rightarrow>
              (if st = 416
               then thenA (unlink p) (thenA (note_transfer (\<lambda>t. t\<lparr>restarted := True\<rparr>)) (ret (Again ''discarded the partial'')))
               else if 400 \<le> st \<and> st < 500 then raise (ChunkFailed ''HTTP'' (is_race st))
               else ret (Again ''HTTP''))
          | Interrupted why \<Rightarrow> ret (Again why)
          | Transport \<Rightarrow> ret (Again ''transport'')
          | OsError \<Rightarrow> ret (Again ''OSError'')
          | _ \<Rightarrow> raise e))"

definition drop_candidate :: "env \<Rightarrow> string \<Rightarrow> unit step" where
  "drop_candidate cf name =
     bindA (gets (\<lambda>w. (candidate_path cf w name, meta_path cf w name))) (\<lambda>(a, b). thenA (unlink a) (unlink b))"

text \<open>The device a torn chunk says it is from.\<close>

definition torn_origin :: "report \<Rightarrow> string option" where
  "torn_origin r =
     (case r_origin r of
        Some s \<Rightarrow> (if s \<noteq> [] then Some s
            else case [d. i \<leftarrow> idents r, Some d \<leftarrow> [ident_get i ''id''], d \<noteq> []] of [] \<Rightarrow> None | d # _ \<Rightarrow> Some d)
      | None \<Rightarrow> (case [d. i \<leftarrow> idents r, Some d \<leftarrow> [ident_get i ''id''], d \<noteq> []] of [] \<Rightarrow> None | d # _ \<Rightarrow> Some d))"

definition torn_mismatch :: "env \<Rightarrow> chunk_entry \<Rightarrow> report \<Rightarrow> bool" where
  "torn_mismatch cf c r \<longleftrightarrow>
     c_seq c \<noteq> 0 \<and> r_seq r \<noteq> None \<and> r_seq r \<noteq> Some (c_seq c) \<or>
     expect cf \<noteq> None \<and> torn_origin r \<noteq> None \<and> torn_origin r \<noteq> expect cf"

text \<open>\<open>_torn_sighting\<close>: the reason when this sighting equals the one before.\<close>

definition torn_sighting :: "env \<Rightarrow> chunk_entry \<Rightarrow> path \<Rightarrow> report \<Rightarrow> string step" where
  "torn_sighting cf c p r =
     (if torn_mismatch cf c r
      then thenA (unlink p) (thenA (drop_candidate cf (c_name c)) (defect ''torn chunk of another seq or device''))
      else
        bindA (gets (\<lambda>w. (contents (files w) p, candidate_path cf w (c_name c), meta_path cf w (c_name c), files w)))
          (\<lambda>(b, cand, meta, fs).
        thenA read_ok
        (thenA (parses cf meta)
        (let before = (case read_json cf fs meta of Some kvs \<Rightarrow> (if kvs = [] then None else Some kvs) | None \<Rightarrow> None);
             same = (case before of None \<Rightarrow> False
               | Some kvs \<Rightarrow> json_is_int (jget kvs ''bytes'') (int (length b)) \<and> jget kvs ''sha256'' = JStr (sha256 cf b)) in
        thenA (whenA same read_ok)
        (if same \<and> fs cand \<noteq> None
        then ret ''torn on the card''
        else
          bindA (case before of
                   None \<Rightarrow> ret 1
                 | Some kvs \<Rightarrow>
                     (case (case map_of kvs ''seen'' of None \<Rightarrow> Inr 0 | Some v \<Rightarrow> json_int v) of
                        Inl e \<Rightarrow> raise e | Inr n \<Rightarrow> ret (n + 1))) (\<lambda>seen.
          if seen \<ge> TORN_MAX_SIGHTINGS
          then thenA (unlink p) (thenA (drop_candidate cf (c_name c)) (defect ''no #close and not stable''))
          else
            thenA (or_archive_error ''cannot keep the candidate'' (thenA (put_file cand (Some b)) (put_file p None)))
            (thenA (or_archive_error ''cannot keep the candidate''
                (put_file meta (Some (dumps cf (JObj [(''bytes'', JInt (int (length b))), (''sha256'', JStr (sha256 cf b)),
                    (''seen'', JInt seen)]) @ [10]))))
              (raise (ChunkFailed ''no #close: torn candidate'' True)))))))))"

definition write_torn_sidecar :: "env \<Rightarrow> chunk_entry \<Rightarrow> path \<Rightarrow> string \<Rightarrow> unit step" where
  "write_torn_sidecar cf c p why =
     bindA (gets (\<lambda>w. (name_of cf w, contents (files w) p, torn_path cf w (c_name c)))) (\<lambda>(dev, b, q).
       or_archive_error ''cannot store''
         (put_file q (Some (dumps cf (JObj [(''device'', JStr dev), (''name'', JStr (c_name c)),
            (''bytes'', JInt (int (length b))), (''sha256'', JStr (sha256 cf b)), (''reason'', JStr why),
            (''accepted_at'', JStr (now cf))]) @ [10]))))"

text \<open>A complete partial, judged: the reason it is accepted as torn, if it is.\<close>

definition judge :: "env \<Rightarrow> chunk_entry \<Rightarrow> path \<Rightarrow> unit step" where
  "judge cf c p =
     bindA (gets (\<lambda>w. (read_report (files w) p, size_of (files w) p))) (\<lambda>((r, problem), n).
       if problem = None then ret ()
       else if is_torn r then
         (if c_size c = 0 \<or> int n \<noteq> c_size c then raise (ChunkFailed ''short transfer'' True)
          else bindA (torn_sighting cf c p (the r)) (\<lambda>why. note_transfer (\<lambda>t. t\<lparr>t_torn := Some why\<rparr>)))
       else thenA (unlink p) (defect ''does not verify''))"

text \<open>The final name, which no file may have yet.\<close>

definition store_final :: "env \<Rightarrow> chunk_entry \<Rightarrow> path \<Rightarrow> path \<Rightarrow> unit step" where
  "store_final cf c p final =
     thenA read_ok
     (bindA (gets (\<lambda>w. (files w final, t_torn (transfer w)))) (\<lambda>(there, torn).
       if there \<noteq> None then defect ''appeared in the archive meanwhile''
       else
         thenA (case torn of None \<Rightarrow> ret () | Some why \<Rightarrow> write_torn_sidecar cf c p why)
         (thenA (or_archive_error ''cannot store''
            (bindA (gets (\<lambda>w. contents (files w) p)) (\<lambda>b. thenA (put_file final (Some b)) (put_file p None))))
           (whenA (torn \<noteq> None) (drop_candidate cf (c_name c))))))"

text \<open>\<open>_fetch\<close>.  \<open>mkdir\<close> raises \<open>ValueError\<close> for a name with a NUL in it.\<close>

definition fetch :: "env \<Rightarrow> chunk_entry \<Rightarrow> unit step" where
  "fetch cf c =
     bindA (gets (\<lambda>w. (partial_path cf w (c_name c), archive_path cf w (c_name c)))) (\<lambda>(p, final).
       thenA (if CHR 0x00 \<in> set (fst final) then raise ValueError
              else or_archive_error ''cannot open the archive directory'' (ret ()))
       (bindA (attempts cf (fetch_attempt cf c p)) (\<lambda>got.
          case got of
            Inl reason \<Rightarrow> raise (ChunkFailed reason True)
          | Inr u \<Rightarrow> thenA (judge cf c p) (store_final cf c p final))))"

section \<open>Confirming\<close>

text \<open>\<open>_confirm\<close>: nothing, or the reason and whether it is transient.\<close>

definition confirm_chunk :: "env \<Rightarrow> string \<Rightarrow> (string \<times> bool) option step" where
  "confirm_chunk cf name =
     bindA (attempts cf
       (catchA
         (bindA (send (PostDone name)) (\<lambda>r.
            if status r = 200 then ret (Done None)
            else if retryable (status r) then ret (Again ''HTTP'')
            else ret (Done (Some (''confirm: HTTP'', False)))))
         (\<lambda>e. case e of
            HttpError st \<Rightarrow> (if retryable st then ret (Again ''HTTP'') else ret (Done (Some (''confirm: HTTP'', False))))
          | Transport \<Rightarrow> ret (Again ''transport'')
          | _ \<Rightarrow> raise e)))
       (\<lambda>got. case got of Inl reason \<Rightarrow> ret (Some (reason, True)) | Inr v \<Rightarrow> ret v)"

section \<open>The pass\<close>

definition record_failure :: "string \<Rightarrow> string \<Rightarrow> bool \<Rightarrow> unit step" where
  "record_failure name why tr =
     note_out (\<lambda>q. q\<lparr>failed := failed q @ [(name, why)], transient := transient q @ (if tr then [name] else [])\<rparr>)"

definition note_fetched :: "string \<Rightarrow> unit step" where
  "note_fetched name =
     bindA (gets transfer) (\<lambda>t. note_out (\<lambda>q. q\<lparr>fetched := fetched q @ [name],
        o_torn := o_torn q @ (case t_torn t of None \<Rightarrow> [] | Some why \<Rightarrow> [(name, why)]),
        o_resumed := o_resumed q @ (if resumed t then [name] else []),
        o_restarted := o_restarted q @ (if restarted t then [name] else [])\<rparr>))"

text \<open>How the body of the loop leaves a chunk: archived and to be confirmed, given up, or the pass ends.\<close>

datatype next_move = Confirm | Skip | Stop

definition secure :: "env \<Rightarrow> chunk_entry \<Rightarrow> next_move step" where
  "secure cf c =
     finallyA
       (catchA
         (thenA read_ok (bindA (gets (\<lambda>w. files w (archive_path cf w (c_name c)) \<noteq> None)) (\<lambda>have_it.
            if have_it
            then thenA (already_have cf c)
                   (thenA (note_out (\<lambda>q. q\<lparr>skipped := skipped q @ [c_name c]\<rparr>)) (ret Confirm))
            else thenA (fetch cf c) (thenA (note_fetched (c_name c)) (ret Confirm)))))
         (\<lambda>e. case e of
            ChunkFailed why tr \<Rightarrow> thenA (record_failure (c_name c) why tr) (ret Skip)
          | ArchiveError why \<Rightarrow>
              thenA (note_out (\<lambda>q. q\<lparr>archive_error := Some why, failed := failed q @ [(c_name c, why)]\<rparr>)) (ret Stop)
          | _ \<Rightarrow> raise e))
       (\<lambda>w. w\<lparr>out := (out w)\<lparr>bytes_fetched := bytes_fetched (out w) + stored (transfer w),
                             bytes_wire := bytes_wire (out w) + wire (transfer w)\<rparr>\<rparr>)"

definition confirm_step :: "env \<Rightarrow> string \<Rightarrow> unit step" where
  "confirm_step cf name =
     bindA (confirm_chunk cf name) (\<lambda>problem.
       case problem of
         None \<Rightarrow> note_out (\<lambda>q. q\<lparr>confirmed := confirmed q @ [name]\<rparr>)
       | Some (why, tr) \<Rightarrow> record_failure name why tr)"

fun collect_chunks :: "env \<Rightarrow> chunk_entry list \<Rightarrow> unit step" where
  "collect_chunks cf [] = ret ()"
| "collect_chunks cf (c # cs) =
     thenA (note_transfer (\<lambda>_. new_transfer))
     (bindA (secure cf c) (\<lambda>m.
        case m of
          Confirm \<Rightarrow> thenA (confirm_step cf (c_name c)) (collect_chunks cf cs)
        | Skip \<Rightarrow> collect_chunks cf cs
        | Stop \<Rightarrow> ret ()))"

definition collect_inner :: "env \<Rightarrow> unit step" where
  "collect_inner cf =
     bindA (catchA (bindA (index cf) (\<lambda>cs. ret (Some cs)))
       (\<lambda>e. case e of
          Unreachable why off \<Rightarrow>
            thenA (modify (\<lambda>w. w\<lparr>unreachable := True, offline := off,
                out := (out w)\<lparr>o_device := name_of cf w, failed := failed (out w) @ [(''<index>'', why)]\<rparr>\<rparr>))
              (ret None)
        | _ \<Rightarrow> raise e))
     (\<lambda>cs. case cs of
        None \<Rightarrow> ret ()
      | Some cs \<Rightarrow>
          thenA (modify (\<lambda>w. w\<lparr>out := (out w)\<lparr>o_device := name_of cf w, failed := failed (out w) @ index_problems w\<rparr>\<rparr>))
            (collect_chunks cf cs))"

definition collect :: "env \<Rightarrow> unit step" where
  "collect cf =
     thenA (modify (\<lambda>w. w\<lparr>out := new_outcome, unreachable := False, offline := False\<rparr>))
     (catchA (collect_inner cf)
       (\<lambda>e. case e of
          Refused why \<Rightarrow>
            modify (\<lambda>w. w\<lparr>out := (out w)\<lparr>o_device := (if o_device (out w) \<noteq> [] then o_device (out w) else name_of cf w),
              refused := Some why, failed := failed (out w) @ [(''<refused>'', why)]\<rparr>\<rparr>)
        | _ \<Rightarrow> raise e))"

section \<open>Reporting\<close>

definition EX_DEFECT :: int where "EX_DEFECT = 1"
definition EX_WRONG_TARGET :: int where "EX_WRONG_TARGET = 3"
definition EX_IOERR :: int where "EX_IOERR = 74"
definition EX_TEMPFAIL :: int where "EX_TEMPFAIL = 75"
definition EX_NOPERM :: int where "EX_NOPERM = 77"

definition exit_status :: "world \<Rightarrow> int" where
  "exit_status w =
     (let q = out w in
      if refused q \<noteq> None then EX_NOPERM
      else if archive_error q \<noteq> None then EX_IOERR
      else if unreachable w then (if offline w then EX_TEMPFAIL else EX_WRONG_TARGET)
      else if defects q \<noteq> 0 then EX_DEFECT
      else if failed q \<noteq> [] then EX_TEMPFAIL
      else 0)"

text \<open>\<open>cmd_pull\<close> and \<open>cmd_index\<close>: the exit status; an exception that is not handled is a traceback.\<close>

definition cmd_pull :: "env \<Rightarrow> world \<Rightarrow> exn + int" where
  "cmd_pull cf w =
     (case collect cf w of
        (Inl e, _) \<Rightarrow> Inl e
      | (Inr _, w) \<Rightarrow> Inr (if refused (out w) \<noteq> None then EX_NOPERM else exit_status w))"

definition cmd_index :: "env \<Rightarrow> world \<Rightarrow> exn + int" where
  "cmd_index cf w =
     (case index cf w of
        (Inl (Refused why), _) \<Rightarrow> Inr EX_NOPERM
      | (Inl (Unreachable why off), _) \<Rightarrow> Inr (if off then EX_TEMPFAIL else EX_WRONG_TARGET)
      | (Inl e, _) \<Rightarrow> Inl e
      | (Inr cs, w) \<Rightarrow> Inr (if index_problems w \<noteq> [] then 1 else 0))"

text \<open>\<open>_human\<close>: \<open>.1f\<close> of an exact quotient is the nearest tenth, ties to even.\<close>

definition tenths :: "rat \<Rightarrow> string" where
  "tenths q = (let n = nat (round_even (q * 10)) in show_nat (n div 10) @ ''.'' @ show_nat (n mod 10))"

definition human :: "nat \<Rightarrow> string" where
  "human n =
     (if n < 1024 then show_nat n @ '' B''
      else if n < 1024 * 1024 then tenths (of_nat n / 1024) @ '' KB''
      else tenths (of_nat n / (1024 * 1024)) @ '' MB'')"

definition outcome_parts :: "outcome \<Rightarrow> string list" where
  "outcome_parts q =
     [show_nat (length (fetched q)) @ '' fetched ('' @ human (bytes_fetched q) @ '')'']
     @ (if o_resumed q \<noteq> [] then [show_nat (length (o_resumed q)) @ '' resumed''] else [])
     @ (if o_restarted q \<noteq> [] then [show_nat (length (o_restarted q)) @ '' restarted''] else [])
     @ (if skipped q \<noteq> [] then [show_nat (length (skipped q)) @ '' already had''] else [])
     @ [show_nat (length (confirmed q)) @ '' confirmed'']
     @ (if bytes_wire q \<noteq> bytes_fetched q then [human (bytes_wire q) @ '' off the wire''] else [])
     @ (if o_torn q \<noteq> [] then [show_nat (length (o_torn q)) @ '' torn accepted ('' @ join_with '', '' (map fst (o_torn q)) @ '')''] else [])"

text \<open>\<open>print_outcome\<close>: the lines of standard output and of standard error.\<close>

definition print_outcome :: "outcome \<Rightarrow> string list \<times> string list" where
  "print_outcome q =
     (map (\<lambda>(name, why). ''TORN '' @ name @ '': '' @ why) (o_torn q)
        @ [o_device q @ '': '' @ join_with '', '' (outcome_parts q)],
      map (\<lambda>(name, why). ''  LEFT   '' @ name @ '': '' @ why) (failed q))"

text \<open>\<open>read_token\<close>: mode bits and lines of the token file.\<close>

definition read_token :: "(int \<times> string list) option \<Rightarrow> exn + string" where
  "read_token st =
     (case st of
        None \<Rightarrow> Inl ValueError
      | Some (mode, lines) \<Rightarrow>
          (if mode mod 64 \<noteq> 0 then Inl ValueError
           else let token = (case lines of [] \<Rightarrow> [] | l # _ \<Rightarrow> trim l) in
                if token = [] then Inl ValueError else Inr token))"

end
