(* ===== verification/CollectorSteps.thy ===== *)
theory CollectorSteps
  imports Collector
begin

text \<open>
  What the steps of a pass keep.  Locales collect the laws a relation on worlds has to meet for the
  steps of a chunk, of a pass and of the index; each invariant of the collector is one interpretation
  of them: the archive a probe leaves alone, the device's name, growth of the archive, the end at a
  refusal.
\<close>

section \<open>What every step of a chunk keeps\<close>

definition reserved :: "string \<Rightarrow> bool" where
  "reserved n \<longleftrightarrow> (\<exists>e\<in>{PART_SUFFIX, CANDIDATE_SUFFIX, CANDIDATE_SUFFIX @ ''.json'', TORN_SUFFIX}. suffix e n)"

lemma reserved_paths [simp]:
  "reserved (snd (partial_path cf w n))" "reserved (snd (candidate_path cf w n))"
  "reserved (snd (meta_path cf w n))" "reserved (snd (torn_path cf w n))"
  by (simp_all add: reserved_def partial_path_def candidate_path_def meta_path_def torn_path_def suffix_def)

text \<open>The steps that do not confirm.  \<open>R\<close> is kept by everything that leaves archive, requests and
  report alone, by a request, by any change of a file with a reserved suffix and by creating a file.\<close>

locale chunk_steps = effect_relation R T stop
  for R T :: "world \<Rightarrow> world \<Rightarrow> bool" and stop :: "exn \<Rightarrow> bool" +
  assumes frame: "files v = files w \<Longrightarrow> sent v = sent w \<Longrightarrow> script v = script w \<Longrightarrow> out v = out w \<Longrightarrow>
      device v = device w \<Longrightarrow> R w v"
    and stop_Refused: "stop e \<Longrightarrow> \<exists>s. e = Refused s"
    and ask: "(\<And>n. req \<noteq> PostDone n) \<Longrightarrow> moves R T stop (send req)"
    and put: "reserved (snd p) \<Longrightarrow> R w (w\<lparr>files := (files w)(p := b)\<rparr>)"
    and new: "files w p = None \<Longrightarrow> R w (w\<lparr>files := (files w)(p := Some bs)\<rparr>)"
begin

lemma not_stop [moves_intros]:
  "\<not> stop (Mismatch s)" "\<not> stop (Interrupted s)" "\<not> stop (HttpError n)" "\<not> stop Transport" "\<not> stop (ChunkFailed s b)"
  "\<not> stop (ArchiveError s)" "\<not> stop (Unreachable s b)" "\<not> stop ValueError" "\<not> stop TypeError" "\<not> stop OverflowError"
  "\<not> stop OsError" "\<not> stop RecursionError"
  using stop_Refused by blast+

lemma does_disk_ok: "does disk_ok"
  by (rule movesI) (auto simp: moves_at_def disk_ok_def R_refl intro: frame split: list.split)

lemma does_read_ok: "does read_ok" and does_parses: "does (parses cf p)"
  unfolding read_ok_def parses_def by (intro moves_intros does_disk_ok)+

lemma does_nap: "does (nap k)"
  unfolding nap_def by (intro does_modify frame) simp_all

lemma does_note_transfer: "does (note_transfer f)"
  unfolding note_transfer_def by (intro does_modify frame) simp_all

lemma does_put: "reserved (snd p) \<Longrightarrow> does (put_file p b)"
  unfolding put_file_def by (intro does_modify put)

lemmas does_prims = does_disk_ok does_read_ok does_parses does_nap does_note_transfer does_put

lemma does_or_archive_error: "does m \<Longrightarrow> does (or_archive_error why m)"
  unfolding or_archive_error_def by (intro moves_intros does_prims) simp_all

lemma does_unlink: "reserved (snd p) \<Longrightarrow> does (unlink p)"
  unfolding unlink_def by (intro moves_intros does_prims)

lemma does_attempts: "does body \<Longrightarrow> does (attempts cf body)"
  unfolding attempts_def by (intro moves_intros does_prims)

lemma does_promised: "does (promised r)"
  unfolding promised_def by (cases "promise r") (auto intro!: moves_intros)

lemma does_defect: "does (defect why)"
  unfolding defect_def by (intro moves_intros)

lemma does_file: "does (send (GetFile n r))"
  by (rule ask) simp

lemmas does_ops = does_or_archive_error does_unlink does_attempts does_promised does_defect does_file does_prims

lemma does_probe_head: "does (probe_head c n)"
  unfolding probe_head_def Let_def by (intro moves_intros does_ops)

lemma does_prove_local: "does (prove_local c p)"
  unfolding prove_local_def Let_def by (intro moves_intros does_ops does_probe_head)

lemma does_already_have: "does (already_have cf c)"
proof -
  let ?h = "\<lambda>e. case e of
                  Mismatch why \<Rightarrow> defect why
                | Interrupted why \<Rightarrow> ret (Again why)
                | HttpError st \<Rightarrow> (if retryable st then ret (Again ''HTTP'')
                     else raise (ChunkFailed ''could not re-check'' (is_race st)))
                | Transport \<Rightarrow> ret (Again ''transport'')
                | OsError \<Rightarrow> ret (Again ''OSError'')
                | _ \<Rightarrow> raise e"
  have h: "does (?h e :: unit verdict step)" if "\<not> stop e" for e
    using that by (cases e) (auto intro!: moves_intros does_ops)
  have s: "?h e = raise e" if "stop e" for e
    using stop_Refused [OF that] by auto
  have a: "does (attempts cf (catchA (thenA (prove_local c p) (ret (Done ()))) ?h))" for p
    by (intro does_attempts does_catchA does_thenA does_ret does_prove_local s h)
  show ?thesis unfolding already_have_def
    by (intro does_thenA does_bindA does_gets) (auto intro!: moves_intros does_ops a split: option.split sum.split)
qed

lemma does_pull: "reserved (snd p) \<Longrightarrow> does (pull p app overlap expected bs got seen opened)"
proof (induction p app overlap expected bs got seen opened rule: pull.induct)
  case (1 p app overlap expected got seen opened)
  then show ?case by (simp add: does_ret)
next
  case (2 p app overlap expected b bs got seen opened)
  have "does (bindA (gets (\<lambda>w. contents (files w) p)) (\<lambda>old. put_file p (Some (old @ x))))" for x
    by (intro moves_intros does_put 2)
  moreover have "does (if opened then ret True
               else bindA disk_ok (\<lambda>ok.
                 thenA (whenA ok (bindA (gets (\<lambda>w. if app then contents (files w) p else [])) (\<lambda>old. put_file p (Some old))))
                   (ret ok)))"
    by (intro moves_intros does_prims 2)
  ultimately show ?case
    unfolding pull.simps Let_def
    by (intro does_thenA does_if does_bindA does_ret does_note_transfer does_disk_ok does_gets does_whenA does_put [OF 2(3)]
        2(1) [OF refl refl refl refl] 2(2) [OF refl refl refl refl] 2(3)) simp_all
qed

lemma does_case_end: "does a \<Longrightarrow> does b \<Longrightarrow> does c \<Longrightarrow> does (case x of Whole \<Rightarrow> a | Differs \<Rightarrow> b | NoSpace \<Rightarrow> c)"
  by (cases x) simp_all

lemma does_case_option: "does a \<Longrightarrow> (\<And>y. does (f y)) \<Longrightarrow> does (case x of None \<Rightarrow> a | Some y \<Rightarrow> f y)"
  by (cases x) simp_all

lemma does_case_sum: "(\<And>y. does (f y)) \<Longrightarrow> (\<And>y. does (g y)) \<Longrightarrow> does (case x of Inl y \<Rightarrow> f y | Inr y \<Rightarrow> g y)"
  by (cases x) simp_all

lemmas does_cases = does_case_end does_case_option does_case_sum

lemma does_download: "reserved (snd p) \<Longrightarrow> does (download c p offset)"
  unfolding download_def Let_def
  by (intro moves_intros does_ops does_pull) (auto intro!: moves_intros does_ops does_pull does_cases)

lemma does_fetch_attempt:
  assumes "reserved (snd p)"
  shows "does (fetch_attempt cf c p)"
proof -
  let ?h = "\<lambda>e. case e of
            Mismatch why \<Rightarrow>
              thenA (unlink p) (thenA (note_transfer (\<lambda>t. t\<lparr>restarted := True\<rparr>)) (ret (Again why)))
          | HttpError st \<Rightarrow>
              (if st = 416
               then thenA (unlink p) (thenA (note_transfer (\<lambda>t. t\<lparr>restarted := True\<rparr>)) (ret (Again ''discarded the partial'')))
               else if 400 \<le> st \<and> st < 500 then raise (ChunkFailed ''HTTP'' (is_race st))
               else ret (Again ''HTTP''))
          | Interrupted why \<Rightarrow> ret (Again why)
          | Transport \<Rightarrow> ret (Again ''transport'')
          | OsError \<Rightarrow> ret (Again ''OSError'')
          | _ \<Rightarrow> raise e"
  have h: "does (?h e :: unit verdict step)" if "\<not> stop e" for e
    using that assms by (cases e) (auto intro!: moves_intros does_ops)
  have s: "?h e = raise e" if "stop e" for e
    using stop_Refused [OF that] by auto
  show ?thesis
    unfolding fetch_attempt_def
    by (intro does_bindA does_gets does_catchA does_if does_thenA does_ret does_prove_local does_download s h assms)
qed

lemma does_drop_candidate: "does (drop_candidate cf n)"
  unfolding drop_candidate_def
  by (rule movesI, rule does_at_bindA [OF does_at_pure(2)])
     (auto simp: gets_def intro!: movesD moves_intros does_ops)

lemma does_torn_sighting:
  assumes "reserved (snd p)"
  shows "does (torn_sighting cf c p r)"
proof -
  have "does_at w (bindA (gets (\<lambda>w. (contents (files w) p, candidate_path cf w (c_name c), meta_path cf w (c_name c), files w))) f)"
    if "\<And>b cand meta fs. reserved (snd cand) \<Longrightarrow> reserved (snd meta) \<Longrightarrow> does (f (b, cand, meta, fs))" for w and f :: "_ \<Rightarrow> string step"
    by (rule does_at_bindA [OF does_at_pure(2)])
       (use movesD [OF that [of "candidate_path cf w (c_name c)" "meta_path cf w (c_name c)"]] in \<open>auto simp: gets_def\<close>)
  then have g: "does (bindA (gets (\<lambda>w. (contents (files w) p, candidate_path cf w (c_name c), meta_path cf w (c_name c), files w))) f)"
    if "\<And>b cand meta fs. reserved (snd cand) \<Longrightarrow> reserved (snd meta) \<Longrightarrow> does (f (b, cand, meta, fs))" for f :: "_ \<Rightarrow> string step"
    using that by (simp add: moves_def)
  have seen: "does (case json_int v of Inl e \<Rightarrow> raise e | Inr n \<Rightarrow> ret (n + (1::int)))" for v
  proof -
    have "\<not> stop e" if "json_int v = Inl e" for e
      using that by (cases v rule: json_int.cases) (auto simp: not_stop split: option.splits)
    then show ?thesis by (auto intro!: moves_intros split: sum.split)
  qed
  show ?thesis
    unfolding torn_sighting_def Let_def
    by (intro does_if does_thenA does_unlink does_drop_candidate does_defect assms g)
       (auto intro!: moves_intros does_ops does_drop_candidate seen assms split: prod.split option.split)
qed

lemma does_judge: "reserved (snd p) \<Longrightarrow> does (judge cf c p)"
  unfolding judge_def
  by (intro moves_intros) (auto intro!: moves_intros does_ops does_torn_sighting split: prod.split)

lemma does_write_torn_sidecar: "does (write_torn_sidecar cf c p why)"
  unfolding write_torn_sidecar_def
  by (rule movesI, rule does_at_bindA [OF does_at_pure(2)])
     (auto simp: gets_def intro!: movesD moves_intros does_ops)

text \<open>The final name is new when the file is put there: between the test and the rename only the
  sidecar is written.\<close>

lemma sidecar_frame: "write_torn_sidecar cf c p why w = (r, v) \<Longrightarrow> q \<noteq> torn_path cf w (c_name c) \<Longrightarrow> files v q = files w q"
  by (auto simp: write_torn_sidecar_def or_archive_error_def act_simps put_file_def disk_ok_def split: list.splits if_splits)

lemma does_store_final:
  assumes p: "reserved (snd p)" and f: "\<And>w. torn_path cf w (c_name c) \<noteq> final"
  shows "does (store_final cf c p final)"
proof (rule movesI)
  fix w
  have fin: "does_at v (or_archive_error ''cannot store''
            (bindA (gets (\<lambda>w. contents (files w) p)) (\<lambda>b. thenA (put_file final (Some b)) (put_file p None))))"
    if "files v final = None" for v
  proof -
    have ok: "does_at u (put_file final (Some b))" if "files u final = None" for u b
      using new [OF that] by (simp add: moves_at_def put_file_def modify_def)
    show ?thesis
      unfolding or_archive_error_def
    proof (rule does_at_bindA [OF movesD [OF does_disk_ok]])
      fix k u
      assume d: "disk_ok v = (Inr k, u)"
      then have n: "files u final = None" using that by (auto simp: disk_ok_def split: list.splits)
      show "does_at u (if k then bindA (gets (\<lambda>w. contents (files w) p)) (\<lambda>b. thenA (put_file final (Some b)) (put_file p None))
          else raise (ArchiveError ''cannot store''))"
      proof (cases k)
        case True
        then show ?thesis
          using n by (auto simp: gets_def intro!: does_at_bindA does_at_thenA does_at_pure ok movesD [OF does_put [OF p]])
      next
        case False
        then show ?thesis by (simp add: does_at_pure not_stop)
      qed
    qed
  qed
  show "does_at w (store_final cf c p final)"
    unfolding store_final_def
  proof (rule does_at_thenA [OF movesD [OF does_read_ok]], rule does_at_bindA [OF does_at_pure(2)],
      clarsimp simp: gets_def, intro conjI impI)
    fix w
    show "does_at w (defect ''appeared in the archive meanwhile'')" by (rule movesD [OF does_defect])
    assume n: "files w final = None"
    let ?m = "case t_torn (transfer w) of None \<Rightarrow> ret () | Some why \<Rightarrow> write_torn_sidecar cf c p why"
    have m: "does_at w ?m" by (intro movesD does_case_option does_ret does_write_torn_sidecar)
    show "does_at w (thenA ?m
         (thenA (or_archive_error ''cannot store''
            (bindA (gets (\<lambda>w. contents (files w) p)) (\<lambda>b. thenA (put_file final (Some b)) (put_file p None))))
           (whenA (\<exists>y. t_torn (transfer w) = Some y) (drop_candidate cf (c_name c)))))"
    proof (rule does_at_thenA [OF m], rule does_at_thenA)
      fix a v
      assume "?m w = (Inr a, v)"
      then have "files v final = None"
        using n sidecar_frame [OF _ f [symmetric]] by (cases "t_torn (transfer w)") (simp_all add: ret_def)
      then show "does_at v (or_archive_error ''cannot store''
            (bindA (gets (\<lambda>w. contents (files w) p)) (\<lambda>b. thenA (put_file final (Some b)) (put_file p None))))"
        by (rule fin)
    qed (intro movesD does_whenA does_drop_candidate)
  qed
qed

lemma does_fetch: "does (fetch cf c)"
  unfolding fetch_def
proof (rule movesI, rule does_at_bindA [OF does_at_pure(2)])
  fix w v and a :: "path \<times> path"
  assume "gets (\<lambda>w. (partial_path cf w (c_name c), archive_path cf w (c_name c))) w = (Inr a, v)"
  then have a: "a = (partial_path cf w (c_name c), archive_path cf w (c_name c))" by (auto simp: gets_def)
  have ne: "torn_path cf u (c_name c) \<noteq> archive_path cf w (c_name c)" for u
    by (simp add: torn_path_def archive_path_def TORN_SUFFIX_def)
  have "does (case a of (p, final) \<Rightarrow> thenA (if CHR 0x00 \<in> set (fst final) then raise ValueError
              else or_archive_error ''cannot open the archive directory'' (ret ()))
       (bindA (attempts cf (fetch_attempt cf c p)) (\<lambda>got.
          case got of
            Inl reason \<Rightarrow> raise (ChunkFailed reason True)
          | Inr u \<Rightarrow> thenA (judge cf c p) (store_final cf c p final))))"
    by (auto simp: a intro!: moves_intros does_ops does_cases does_fetch_attempt does_judge does_store_final ne)
  then show "does_at v (case a of (p, final) \<Rightarrow> thenA (if CHR 0x00 \<in> set (fst final) then raise ValueError
              else or_archive_error ''cannot open the archive directory'' (ret ()))
       (bindA (attempts cf (fetch_attempt cf c p)) (\<lambda>got.
          case got of
            Inl reason \<Rightarrow> raise (ChunkFailed reason True)
          | Inr u \<Rightarrow> thenA (judge cf c p) (store_final cf c p final))))"
    by (rule movesD)
qed

end


section \<open>What a confirmed chunk rests on\<close>

text \<open>The archive vouches for a chunk: its bytes pass \<open>verify_chunk\<close>, or they are torn only and the
  sidecar names their digest.\<close>

definition archived_in :: "env \<Rightarrow> archive \<Rightarrow> string \<Rightarrow> string \<Rightarrow> bool" where
  "archived_in cf fs dir n \<longleftrightarrow>
     (\<exists>b. fs (dir, n) = Some b \<and>
        ((\<exists>label. problem_of (parse_file label (text_of_bytes b)) = None) \<or>
         (\<exists>label. is_torn (Some (parse_file label (text_of_bytes b)))) \<and>
           (\<exists>kvs. read_json cf fs (dir, n @ TORN_SUFFIX) = Some kvs \<and> jget kvs ''sha256'' = JStr (sha256 cf b))))"

definition archived :: "env \<Rightarrow> world \<Rightarrow> string \<Rightarrow> bool" where
  "archived cf w n \<longleftrightarrow> archived_in cf (files w) (name_of cf w) n"

text \<open>JSON text written by this tool and read back keeps its \<open>sha256\<close> member.\<close>

definition json_ok :: "env \<Rightarrow> bool" where
  "json_ok cf \<longleftrightarrow> (\<forall>kvs s. jget kvs ''sha256'' = JStr s \<longrightarrow>
     (\<exists>kvs'. loads cf (dumps cf (JObj kvs) @ [10]) = Some (JObj kvs') \<and> jget kvs' ''sha256'' = JStr s))"

definition same_archive :: "world \<Rightarrow> world \<Rightarrow> bool" where
  "same_archive w v \<longleftrightarrow> files v = files w \<and> device v = device w"

lemma archived_same: "same_archive w v \<Longrightarrow> archived cf v n = archived cf w n"
  by (simp add: same_archive_def archived_def name_of_def)

lemma read_ok_frame: "read_ok w = (r, v) \<Longrightarrow> \<exists>bs. v = w\<lparr>disk := bs\<rparr>"
  by (auto simp: read_ok_def disk_ok_def act_simps split: list.splits if_splits)
    (metis world.surjective world.update_convs(2))

lemma parses_frame: "parses cf p w = (r, v) \<Longrightarrow> v = w"
  by (auto simp: parses_def act_simps split: if_splits)

lemma read_ok_same: "same_archive w (snd (read_ok w))"
  by (auto simp: read_ok_def disk_ok_def act_simps same_archive_def split: list.splits)

lemma probe_same: "same_archive w (snd (probe_head c n w))"
  by (auto simp: probe_head_def act_simps send_def promised_def note_transfer_def same_archive_def Let_def
      split: list.splits sum.splits prod.splits length_header.splits)

lemma prove_same: "same_archive w (snd (prove_local c p w))"
proof -
  obtain r v where pr: "probe_head c (min (length (contents (files w) p)) HEAD_WINDOW) w = (r, v)"
    by (cases "probe_head c (min (length (contents (files w) p)) HEAD_WINDOW) w")
  then have "same_archive w v" using probe_same [of w c "min (length (contents (files w) p)) HEAD_WINDOW"] by simp
  then show ?thesis
    using read_ok_same [of v]
    by (auto simp: prove_local_def act_simps pr same_archive_def Let_def split: sum.splits prod.splits)
qed

interpretation archive_same: effect_relation same_archive same_archive "\<lambda>_ :: exn. False"
  by unfold_locales (simp_all add: same_archive_def)

lemma recheck_archives:
  assumes "bindA (gets (\<lambda>w. (copy_problem cf w c, archive_path cf w (c_name c)))) (\<lambda>(problem, p).
       case problem of
         Some why \<Rightarrow> defect why
       | None \<Rightarrow>
           bindA (attempts cf
             (catchA (thenA (prove_local c p) (ret (Done ())))
               (\<lambda>e. case e of
                  Mismatch why \<Rightarrow> defect why
                | Interrupted why \<Rightarrow> ret (Again why)
                | HttpError st \<Rightarrow> (if retryable st then ret (Again ''HTTP'')
                     else raise (ChunkFailed ''could not re-check'' (is_race st)))
                | Transport \<Rightarrow> ret (Again ''transport'')
                | OsError \<Rightarrow> ret (Again ''OSError'')
                | _ \<Rightarrow> raise e)))
             (\<lambda>got. case got of Inl _ \<Rightarrow> raise (ChunkFailed ''could not re-check'' True) | Inr u \<Rightarrow> ret u)) w = (Inr (), v)"
    and "files w (archive_path cf w (c_name c)) \<noteq> None"
  shows "archived cf v (c_name c) \<and> same_archive w v"
proof -
  let ?p = "archive_path cf w (c_name c)"
  obtain b where b: "files w ?p = Some b" using assms(2) by auto
  have np: "copy_problem cf w c = None"
    using assms(1) by (auto simp: act_simps defect_def split: option.splits)
  let ?h = "\<lambda>e. case e of
                  Mismatch why \<Rightarrow> defect why
                | Interrupted why \<Rightarrow> ret (Again why)
                | HttpError st \<Rightarrow> (if retryable st then ret (Again ''HTTP'')
                     else raise (ChunkFailed ''could not re-check'' (is_race st)))
                | Transport \<Rightarrow> ret (Again ''transport'')
                | OsError \<Rightarrow> ret (Again ''OSError'')
                | _ \<Rightarrow> raise e"
  let ?a = "attempts cf (catchA (thenA (prove_local c ?p) (ret (Done ()))) ?h)"
  have pl: "moves same_archive same_archive (\<lambda>_. False) (prove_local c ?p)"
    using prove_same by (simp add: moves_state)
  have h: "moves same_archive same_archive (\<lambda>_. False) (?h e :: unit verdict step)" for e
    by (cases e) (auto simp: defect_def intro!: moves_intros)
  have nap: "moves same_archive same_archive (\<lambda>_. False) (nap k)" for k
    unfolding nap_def by (rule archive_same.does_modify) (simp add: same_archive_def)
  have a: "moves same_archive same_archive (\<lambda>_. False) ?a"
    unfolding attempts_def by (intro moves_intros pl h nap) simp
  define A where "A = ?a"
  obtain r u where r: "A w = (r, u)" by (cases "A w")
  have "bindA A (\<lambda>got. case got of Inl _ \<Rightarrow> raise (ChunkFailed ''could not re-check'' True) | Inr u \<Rightarrow> ret u) w = (Inr (), v)"
    using assms(1) unfolding bindA_def [of "gets _"] gets_def np A_def by simp
  then have "u = v" using r by (cases r) (auto simp: bindA_def raise_def ret_def split: sum.splits)
  moreover have "same_archive w u"
    using a r unfolding A_def [symmetric] by (metis moves_state snd_conv)
  ultimately have same: "same_archive w v" by simp
  have "archived cf w (c_name c)"
    using np b unfolding archived_def archived_in_def copy_problem_def read_report_def
    by (auto simp: Let_def archive_path_def contents_def torn_path_def split: if_splits option.splits)
  with same show ?thesis by (simp add: archived_same)
qed

lemma already_have_archives:
  assumes "already_have cf c w = (Inr (), v)" and "files w (archive_path cf w (c_name c)) \<noteq> None"
  shows "archived cf v (c_name c) \<and> same_archive w v"
proof -
  let ?check = "bindA (gets (\<lambda>w. (needs_sidecar cf w c, torn_path cf w (c_name c)))) (\<lambda>(torn, q).
              whenA torn (thenA (parses cf q) read_ok))"
  have "same_archive w (snd (?check w))"
    by (auto simp: act_simps parses_def read_ok_def disk_ok_def same_archive_def split: list.splits prod.splits)
  moreover from assms(1) [unfolded already_have_def thenA_Inr [of ?check]] obtain w1 where
    w1: "?check w = (Inr (), w1)" and rest: "files w1 (archive_path cf w1 (c_name c)) \<noteq> None \<Longrightarrow> archived cf v (c_name c) \<and> same_archive w1 v"
    by (elim exE conjE, intro that) (simp, rule recheck_archives)
  ultimately have 1: "same_archive w w1" by simp
  then have "archive_path cf w1 (c_name c) = archive_path cf w (c_name c)"
    by (simp add: same_archive_def archive_path_def name_of_def)
  with 1 assms(2) have "files w1 (archive_path cf w1 (c_name c)) \<noteq> None" by (simp add: same_archive_def)
  with rest 1 show ?thesis by (auto simp: same_archive_def)
qed


text \<open>A fetch that returns has put a vouched copy in the archive.\<close>

lemma checks_frame: "thenA (whenA same read_ok) m w = (Inr x, v) \<Longrightarrow> \<exists>bs. m (w\<lparr>disk := bs\<rparr>) = (Inr x, v)"
proof (cases same)
  case True
  assume "thenA (whenA same read_ok) m w = (Inr x, v)"
  with True obtain u where "read_ok w = (Inr (), u)" "m u = (Inr x, v)" by (auto simp: thenA_Inr whenA_def)
  with read_ok_frame show ?thesis by blast
next
  case False
  assume "thenA (whenA same read_ok) m w = (Inr x, v)"
  with False have "m (w\<lparr>disk := disk w\<rparr>) = (Inr x, v)" by (simp add: thenA_Inr whenA_def ret_def)
  then show ?thesis by blast
qed

lemma sighting_frame:
  assumes "torn_sighting cf c p r w = (Inr x, v)"
  shows "\<exists>bs. v = w\<lparr>disk := bs\<rparr>"
proof -
  from assms have "\<not> torn_mismatch cf c r" by (auto simp: torn_sighting_def thenA_Inr defect_def pure_Inr)
  with assms show ?thesis
    unfolding torn_sighting_def
    by (auto simp: bindA_Inr thenA_Inr pure_Inr defect_def Let_def whenA_def [of True] dest!: read_ok_frame parses_frame checks_frame
        split: if_splits)
qed

lemma judge_verdict:
  assumes "judge cf c p w = (Inr (), v)" and "reserved (snd p)"
  shows "\<exists>b. (problem_of (parse_file (snd p) (text_of_bytes b)) = None \<or>
        is_torn (Some (parse_file (snd p) (text_of_bytes b))) \<and> t_torn (transfer v) \<noteq> None) \<and>
      files v p = Some b \<and> device v = device w"
proof (cases "files w p")
  case None
  with assms(1) show ?thesis
    by (auto simp: judge_def act_simps read_report_def is_torn_def unlink_def disk_ok_def put_file_def defect_def
        split: list.splits if_splits)
next
  case (Some b)
  define r where "r = parse_file (snd p) (text_of_bytes b)"
  have rr: "read_report (files w) p = (Some r, problem_of r)" by (simp add: read_report_def Some r_def Let_def)
  show ?thesis
  proof (cases "problem_of r")
    case None
    with assms(1) rr have "v = w" by (simp add: judge_def act_simps)
    with Some None show ?thesis by (simp add: r_def)
  next
    case (Some why)
    show ?thesis
    proof (cases "is_torn (Some r)")
      case False
      with assms(1) rr Some show ?thesis
        by (auto simp: judge_def act_simps unlink_def disk_ok_def put_file_def defect_def split: list.splits if_splits)
    next
      case True
      have ts: "torn_sighting cf c p r w = (Inr x, u) \<Longrightarrow> \<exists>bs. u = w\<lparr>disk := bs\<rparr>" for x u
        by (rule sighting_frame)
      obtain q u where q: "torn_sighting cf c p r w = (q, u)" by (cases "torn_sighting cf c p r w")
      with assms(1) rr Some True obtain x where "q = Inr x" "v = u\<lparr>transfer := (transfer u)\<lparr>t_torn := Some x\<rparr>\<rparr>"
        by (cases q) (auto simp: judge_def act_simps note_transfer_def split: if_splits)
      moreover obtain bs where "u = w\<lparr>disk := bs\<rparr>" using ts q \<open>q = Inr x\<close> by blast
      ultimately show ?thesis using \<open>files w p = Some b\<close> True by (auto simp: r_def)
    qed
  qed
qed

lemma drop_candidate_keeps:
  assumes "drop_candidate cf n w = (x, v)" and "q \<noteq> candidate_path cf w n" "q \<noteq> meta_path cf w n"
  shows "files v q = files w q \<and> device v = device w"
  using assms by (auto simp: drop_candidate_def act_simps unlink_def disk_ok_def put_file_def split: list.splits if_splits)

lemma put_final_archives:
  assumes j: "json_ok cf" and s: "bindA (gets (\<lambda>u. (files u (archive_path cf w (c_name c)), t_torn (transfer u)))) (\<lambda>(there, torn).
       if there \<noteq> None then defect ''appeared in the archive meanwhile''
       else
         thenA (case torn of None \<Rightarrow> ret () | Some why \<Rightarrow> write_torn_sidecar cf c (partial_path cf w (c_name c)) why)
         (thenA (or_archive_error ''cannot store''
            (bindA (gets (\<lambda>u. contents (files u) (partial_path cf w (c_name c)))) (\<lambda>b. thenA (put_file (archive_path cf w (c_name c)) (Some b)) (put_file (partial_path cf w (c_name c)) None))))
           (whenA (torn \<noteq> None) (drop_candidate cf (c_name c))))) w = (Inr (), v)"
    and b: "files w (partial_path cf w (c_name c)) = Some b"
    and ok: "problem_of (parse_file l (text_of_bytes b)) = None \<or>
        is_torn (Some (parse_file l (text_of_bytes b))) \<and> t_torn (transfer w) \<noteq> None"
  shows "archived cf v (c_name c)"
proof -
  let ?p = "partial_path cf w (c_name c)" and ?f = "archive_path cf w (c_name c)" and ?t = "torn_path cf w (c_name c)"
  have ne: "?f \<noteq> ?p" "?f \<noteq> ?t" "?p \<noteq> ?t" "?f \<noteq> candidate_path cf w (c_name c)" "?f \<noteq> meta_path cf w (c_name c)"
      "?t \<noteq> candidate_path cf w (c_name c)" "?t \<noteq> meta_path cf w (c_name c)"
    by (simp_all add: partial_path_def archive_path_def torn_path_def candidate_path_def meta_path_def
        PART_SUFFIX_def TORN_SUFFIX_def CANDIDATE_SUFFIX_def)
  let ?m = "case t_torn (transfer w) of None \<Rightarrow> ret () | Some why \<Rightarrow> write_torn_sidecar cf c ?p why"
  obtain rm w1 where m: "?m w = (rm, w1)" by (cases "?m w")
  let ?s = "or_archive_error ''cannot store''
            (bindA (gets (\<lambda>w. contents (files w) ?p)) (\<lambda>b. thenA (put_file ?f (Some b)) (put_file ?p None)))"
  obtain rs w2 where st: "?s w1 = (rs, w2)" by (cases "?s w1")
  have g: "files w ?f = None" using s by (auto simp: act_simps defect_def split: if_splits)
  have rm: "rm = Inr ()" using s g m by (cases rm) (auto simp: act_simps)
  have rs: "rs = Inr ()" using s g m rm st by (cases rs) (auto simp: act_simps)
  have last: "whenA (t_torn (transfer w) \<noteq> None) (drop_candidate cf (c_name c)) w2 = (Inr (), v)"
    using s g m rm st rs by (simp add: bindA_eqs act_eqs del: not_None_eq)
  have 1: "files w1 ?p = Some b \<and> device w1 = device w \<and>
      (t_torn (transfer w) \<noteq> None \<longrightarrow> (\<exists>kvs. read_json cf (files w1) ?t = Some kvs \<and> jget kvs ''sha256'' = JStr (sha256 cf b)))"
  proof (cases "t_torn (transfer w)")
    case None
    with m b show ?thesis by (simp add: act_simps)
  next
    case (Some why)
    with m rm have sc: "write_torn_sidecar cf c ?p why w = (Inr (), w1)" by simp
    let ?kvs = "[(''device'', JStr (name_of cf w)), (''name'', JStr (c_name c)),
            (''bytes'', JInt (int (length b))), (''sha256'', JStr (sha256 cf b)), (''reason'', JStr why),
            (''accepted_at'', JStr (now cf))]"
    have "jget ?kvs ''sha256'' = JStr (sha256 cf b)" by (simp add: jget_def)
    then obtain kvs where "loads cf (dumps cf (JObj ?kvs) @ [10]) = Some (JObj kvs)" "jget kvs ''sha256'' = JStr (sha256 cf b)"
      using j unfolding json_ok_def by blast
    moreover have "files w1 = (files w)(?t := Some (dumps cf (JObj ?kvs) @ [10])) \<and> device w1 = device w"
      using sc b
      by (auto simp: write_torn_sidecar_def or_archive_error_def act_simps put_file_def disk_ok_def contents_def
          split: list.splits if_splits)
    ultimately show ?thesis using b ne by (auto simp: read_json_def)
  qed
  have 2: "files w2 = (files w1)(?f := Some b, ?p := None) \<and> device w2 = device w1"
    using st rs 1 by (auto simp: or_archive_error_def act_simps put_file_def disk_ok_def contents_def split: list.splits if_splits)
  have names: "name_of cf w1 = name_of cf w" "name_of cf w2 = name_of cf w" using 1 2 by (simp_all add: name_of_def)
  have cp: "candidate_path cf w2 n = candidate_path cf w n" "meta_path cf w2 n = meta_path cf w n" for n
    by (simp_all add: candidate_path_def meta_path_def names)
  have 3: "files v q = files w2 q \<and> device v = device w2" if "q = ?f \<or> q = ?t" for q
  proof (cases "t_torn (transfer w) = None")
    case True
    with last show ?thesis by (simp add: act_simps)
  next
    case False
    with last have "drop_candidate cf (c_name c) w2 = (Inr (), v)" by (simp add: act_simps)
    from drop_candidate_keeps [OF this, of q] that ne show ?thesis by (auto simp: cp)
  qed
  have "files v ?f = Some b" using 3 [of ?f] 2 ne by simp
  moreover have "name_of cf v = name_of cf w" using 3 [of ?f] 2 1 by (simp add: name_of_def)
  moreover have "t_torn (transfer w) \<noteq> None \<Longrightarrow> \<exists>kvs. read_json cf (files v) ?t = Some kvs \<and> jget kvs ''sha256'' = JStr (sha256 cf b)"
    using 1 2 3 [of ?t] ne by (auto simp: read_json_def)
  ultimately show ?thesis
    using ok unfolding archived_def archived_in_def archive_path_def torn_path_def by auto
qed

lemma store_archives:
  assumes "json_ok cf" and "store_final cf c (partial_path cf w (c_name c)) (archive_path cf w (c_name c)) w = (Inr (), v)"
    and "files w (partial_path cf w (c_name c)) = Some b"
    and "problem_of (parse_file l (text_of_bytes b)) = None \<or>
        is_torn (Some (parse_file l (text_of_bytes b))) \<and> t_torn (transfer w) \<noteq> None"
  shows "archived cf v (c_name c)"
proof -
  from assms(2) [unfolded store_final_def thenA_Inr] obtain u where u: "read_ok w = (Inr (), u)" by auto
  then obtain bs where bs: "u = w\<lparr>disk := bs\<rparr>" using read_ok_frame by blast
  then have n: "archive_path cf (w\<lparr>disk := bs\<rparr>) m = archive_path cf w m"
    "partial_path cf (w\<lparr>disk := bs\<rparr>) m = partial_path cf w m" for m
    by (simp_all add: archive_path_def partial_path_def name_of_def)
  show ?thesis
    by (rule put_final_archives [OF assms(1), where w = "w\<lparr>disk := bs\<rparr>" and b = b and l = l, unfolded n])
      (use assms(2-4) u [unfolded bs] in \<open>simp_all add: store_final_def thenA_Inr\<close>)
qed


text \<open>The device's name is fixed while chunks are handled.\<close>

definition same_device :: "world \<Rightarrow> world \<Rightarrow> bool" where
  "same_device w v \<longleftrightarrow> device v = device w"

interpretation devices: chunk_steps same_device same_device "\<lambda>_. False"
  by unfold_locales (auto simp: same_device_def moves_state send_def Let_def split: list.split)

lemma same_paths:
  "device v = device w \<Longrightarrow> archive_path cf v n = archive_path cf w n"
  "device v = device w \<Longrightarrow> partial_path cf v n = partial_path cf w n"
  by (simp_all add: archive_path_def partial_path_def name_of_def)

lemma fetch_archives:
  assumes j: "json_ok cf" and f: "fetch cf c w = (Inr (), v)"
  shows "archived cf v (c_name c)"
proof -
  let ?p = "partial_path cf w (c_name c)" and ?f = "archive_path cf w (c_name c)"
  define A where "A = attempts cf (fetch_attempt cf c ?p)"
  have e: "fetch cf c w = thenA (if CHR 0x00 \<in> set (fst ?f) then raise ValueError
              else or_archive_error ''cannot open the archive directory'' (ret ()))
      (bindA A (\<lambda>got. case got of Inl reason \<Rightarrow> raise (ChunkFailed reason True) | Inr u \<Rightarrow> thenA (judge cf c ?p) (store_final cf c ?p ?f))) w"
    unfolding fetch_def bindA_def [of "gets _"] gets_def A_def by simp
  from f [unfolded e thenA_Inr] obtain a w1 where
    m: "(if CHR 0x00 \<in> set (fst ?f) then raise ValueError
              else or_archive_error ''cannot open the archive directory'' (ret ())) w = (Inr a, w1)"
    and B: "bindA A (\<lambda>got. case got of Inl reason \<Rightarrow> raise (ChunkFailed reason True) | Inr u \<Rightarrow> thenA (judge cf c ?p) (store_final cf c ?p ?f)) w1 = (Inr (), v)"
    by blast
  from B obtain got w2 where A: "A w1 = (Inr got, w2)"
    and C: "(case got of Inl reason \<Rightarrow> raise (ChunkFailed reason True) | Inr u \<Rightarrow> thenA (judge cf c ?p) (store_final cf c ?p ?f)) w2 = (Inr (), v)"
    unfolding bindA_Inr by blast
  from C have "thenA (judge cf c ?p) (store_final cf c ?p ?f) w2 = (Inr (), v)" by (cases got) (simp_all add: raise_def)
  then obtain w3 where jd: "judge cf c ?p w2 = (Inr (), w3)" and st: "store_final cf c ?p ?f w3 = (Inr (), v)"
    unfolding thenA_Inr by fastforce
  have "same_device w w1" using m by (auto simp: same_device_def or_archive_error_def act_simps disk_ok_def split: list.splits if_splits)
  moreover have "same_device w1 w2"
    using devices.does_attempts [OF devices.does_fetch_attempt [OF reserved_paths(1)]] A
    by (metis A_def moves_state snd_conv)
  moreover from judge_verdict [OF jd] obtain b where
    b: "files w3 ?p = Some b" "device w3 = device w2"
      "problem_of (parse_file (snd ?p) (text_of_bytes b)) = None \<or>
        is_torn (Some (parse_file (snd ?p) (text_of_bytes b))) \<and> t_torn (transfer w3) \<noteq> None"
    by auto
  ultimately have d: "device w3 = device w" by (simp add: same_device_def)
  note same = same_paths [OF d]
  show ?thesis using store_archives [OF j st [folded same] b(1) [folded same] b(3)] .
qed

section \<open>What every step of a pass keeps\<close>

text \<open>The steps of a pass: \<open>R\<close> may look at the report only in so far as it does not, and a confirm is
  only sent for an archived chunk.\<close>

locale pass_steps = chunk_steps R T stop
  for R T :: "world \<Rightarrow> world \<Rightarrow> bool" and stop :: "exn \<Rightarrow> bool" +
  fixes cf :: env
  assumes frame_out: "files v = files w \<Longrightarrow> sent v = sent w \<Longrightarrow> script v = script w \<Longrightarrow> device v = device w \<Longrightarrow> R w v"
    and frame_T: "T u w \<Longrightarrow> files v = files w \<Longrightarrow> sent v = sent w \<Longrightarrow> script v = script w \<Longrightarrow> device v = device w \<Longrightarrow> T u v"
    and post: "(json_ok cf \<Longrightarrow> archived cf w n) \<Longrightarrow> moves_at R T stop w (send (PostDone n))"
begin

lemma does_note_out: "does (note_out f)"
  unfolding note_out_def by (intro does_modify frame_out) simp_all

lemma does_record_failure: "does (record_failure n why tr)"
  unfolding record_failure_def by (rule does_note_out)

lemma does_note_fetched: "does (note_fetched n)"
  unfolding note_fetched_def by (intro moves_intros does_note_out)

lemma does_secure: "does (secure cf c)"
proof -
  let ?h = "\<lambda>e. case e of
            ChunkFailed why tr \<Rightarrow> thenA (record_failure (c_name c) why tr) (ret Skip)
          | ArchiveError why \<Rightarrow>
              thenA (note_out (\<lambda>q. q\<lparr>archive_error := Some why, failed := failed q @ [(c_name c, why)]\<rparr>)) (ret Stop)
          | _ \<Rightarrow> raise e"
  have h: "does (?h e)" if "\<not> stop e" for e
    using that by (cases e) (auto intro!: moves_intros does_record_failure does_note_out)
  have s: "?h e = raise e" if "stop e" for e
    using stop_Refused [OF that] by auto
  show ?thesis
    unfolding secure_def
  proof (rule does_finallyA)
    show "does (catchA (thenA read_ok (bindA (gets (\<lambda>w. files w (archive_path cf w (c_name c)) \<noteq> None)) (\<lambda>have_it.
            if have_it
            then thenA (already_have cf c)
                   (thenA (note_out (\<lambda>q. q\<lparr>skipped := skipped q @ [c_name c]\<rparr>)) (ret Confirm))
            else thenA (fetch cf c) (thenA (note_fetched (c_name c)) (ret Confirm))))) ?h)"
      by (intro does_catchA does_thenA [OF does_read_ok] does_bindA does_gets does_if does_thenA does_already_have does_note_out does_ret
          does_fetch does_note_fetched s h)
  next
    fix u v
    show "R u (v\<lparr>out := (out v)\<lparr>bytes_fetched := bytes_fetched (out v) + stored (transfer v),
                             bytes_wire := bytes_wire (out v) + wire (transfer v)\<rparr>\<rparr>)" if "R u v"
      by (rule R_trans [OF that]) (rule frame_out; simp)
    show "T u (v\<lparr>out := (out v)\<lparr>bytes_fetched := bytes_fetched (out v) + stored (transfer v),
                             bytes_wire := bytes_wire (out v) + wire (transfer v)\<rparr>\<rparr>)" if "T u v"
      by (rule frame_T [OF that]) simp_all
  qed
qed

lemma does_at_confirm:
  assumes "json_ok cf \<Longrightarrow> archived cf w n"
  shows "does_at w (confirm_chunk cf n)"
proof -
  let ?h = "\<lambda>e. case e of
            HttpError st \<Rightarrow> (if retryable st then ret (Again ''HTTP'') else ret (Done (Some (''confirm: HTTP'', False))))
          | Transport \<Rightarrow> ret (Again ''transport'')
          | _ \<Rightarrow> raise e"
  let ?P = "\<lambda>w. json_ok cf \<longrightarrow> archived cf w n"
  let ?b = "catchA
         (bindA (send (PostDone n)) (\<lambda>r.
            if status r = 200 then ret (Done None)
            else if retryable (status r) then ret (Again ''HTTP'')
            else ret (Done (Some (''confirm: HTTP'', False))))) ?h"
  have h: "does (?h e)" if "\<not> stop e" for e
    using that by (cases e) (auto intro!: moves_intros)
  have s: "?h e = raise e" if "stop e" for e
    using stop_Refused [OF that] by auto
  have nap: "does_at w (nap k) \<and> ?P (snd (nap k w))" if "?P w" for w k
  proof -
    have "same_archive w (snd (nap k w))" by (simp add: nap_def modify_def same_archive_def)
    with that archived_same show ?thesis by (simp add: movesD [OF does_nap])
  qed
  have send: "moves same_archive same_archive (\<lambda>_. False) (send (PostDone n))"
    by (auto simp: moves_state send_def Let_def same_archive_def split: list.split)
  have hs: "moves same_archive same_archive (\<lambda>_. False) (?h e)" for e
    by (cases e) (auto intro!: archive_same.does_raise archive_same.does_ret archive_same.does_if)
  have "moves same_archive same_archive (\<lambda>_. False) ?b"
    by (intro archive_same.does_catchA archive_same.does_bindA archive_same.does_if archive_same.does_ret send hs) simp
  then have same: "same_archive w (snd (?b w))" for w by (simp add: moves_state)
  have b: "does_at w ?b \<and> ?P (snd (?b w))" if "?P w" for w
  proof
    show "does_at w ?b"
      by (intro does_at_catchA does_at_bindA post movesD [OF h] movesD [OF does_if] does_if does_ret s) (use that in auto)
    show "?P (snd (?b w))" using that archived_same [OF same] by simp
  qed
  have "does_at w (attempts cf ?b)"
    unfolding attempts_def by (rule does_at_tries [where P = ?P, OF nap b]) (use assms in auto)
  then show ?thesis
    unfolding confirm_chunk_def
    by (rule does_at_bindA) (auto intro!: movesD does_cases does_ret)
qed

lemma secure_confirm:
  assumes "secure cf c w = (Inr Confirm, v)" and "json_ok cf"
  shows "archived cf v (c_name c)"
proof -
  let ?here = "\<lambda>w. files w (archive_path cf w (c_name c)) \<noteq> None"
  let ?body = "\<lambda>w. if ?here w
        then thenA (already_have cf c) (thenA (note_out (\<lambda>q. q\<lparr>skipped := skipped q @ [c_name c]\<rparr>)) (ret Confirm))
        else thenA (fetch cf c) (thenA (note_fetched (c_name c)) (ret Confirm))"
  let ?h = "\<lambda>e. case e of
            ChunkFailed why tr \<Rightarrow> thenA (record_failure (c_name c) why tr) (ret Skip)
          | ArchiveError why \<Rightarrow>
              thenA (note_out (\<lambda>q. q\<lparr>archive_error := Some why, failed := failed q @ [(c_name c, why)]\<rparr>)) (ret Stop)
          | _ \<Rightarrow> raise e"
  have h: "?h e u' \<noteq> (Inr Confirm, u)" for e u' u
    by (cases e) (simp_all add: thenA_Inr pure_Inr)
  have "secure cf c w = finallyA (catchA (thenA read_ok (bindA (gets (\<lambda>w. files w (archive_path cf w (c_name c)) \<noteq> None)) (\<lambda>have_it.
            if have_it
            then thenA (already_have cf c)
                   (thenA (note_out (\<lambda>q. q\<lparr>skipped := skipped q @ [c_name c]\<rparr>)) (ret Confirm))
            else thenA (fetch cf c) (thenA (note_fetched (c_name c)) (ret Confirm))))) ?h)
       (\<lambda>w. w\<lparr>out := (out w)\<lparr>bytes_fetched := bytes_fetched (out w) + stored (transfer w),
                             bytes_wire := bytes_wire (out w) + wire (transfer w)\<rparr>\<rparr>) w"
    by (simp only: secure_def)
  from assms(1) [unfolded this finallyA_Inr catchA_Inr] h obtain w' u where body: "?body w' w' = (Inr Confirm, u)" and v: "same_archive u v"
    by (auto simp: bindA_Inr thenA_Inr [of read_ok] pure_Inr same_archive_def simp del: not_None_eq)
  show ?thesis
  proof (cases "?here w'")
    case True
    with body obtain u' where a: "already_have cf c w' = (Inr (), u')" and "same_archive u' u"
      by (auto simp: returns_iff same_archive_def note_out_def)
    with v have "same_archive u' v" by (simp add: same_archive_def)
    with already_have_archives [OF a True] archived_same show ?thesis by blast
  next
    case False
    with body obtain u' where a: "fetch cf c w' = (Inr (), u')" and "same_archive u' u"
      by (auto simp: returns_iff same_archive_def note_out_def note_fetched_def)
    with v have "same_archive u' v" by (simp add: same_archive_def)
    with fetch_archives [OF assms(2) a] archived_same show ?thesis by blast
  qed
qed

lemma does_collect_chunks: "does (collect_chunks cf cs)"
proof (induction cs)
  case Nil
  show ?case by (simp add: does_ret)
next
  case (Cons c cs)
  show ?case
    unfolding collect_chunks.simps
  proof (rule does_thenA [OF does_note_transfer], rule movesI, rule does_at_bindA [OF movesD [OF does_secure]])
    fix w v m
    assume s: "secure cf c w = (Inr m, v)"
    show "does_at v (case m of Confirm \<Rightarrow> thenA (confirm_step cf (c_name c)) (collect_chunks cf cs)
        | Skip \<Rightarrow> collect_chunks cf cs | Stop \<Rightarrow> ret ())"
    proof (cases m)
      case Confirm
      have "does_at v (confirm_step cf (c_name c))"
        unfolding confirm_step_def
        by (rule does_at_bindA [OF does_at_confirm])
           (use secure_confirm [of c w v] s Confirm in \<open>auto intro!: movesD does_cases does_note_out does_record_failure split: prod.split\<close>)
      then show ?thesis unfolding Confirm next_move.case by (rule does_at_thenA) (rule movesD [OF Cons.IH])
    qed (simp_all add: movesD [OF Cons.IH] does_at_pure)
  qed
qed

end


section \<open>The whole pass\<close>

lemma int_or_error: "int_or v n = Inl e \<Longrightarrow> e = OverflowError" and opt_int_error: "opt_int v = Inl e \<Longrightarrow> e = OverflowError"
  by (auto simp: int_or_def opt_int_def split: if_splits sum.splits exn.splits)

lemma chunk_of_error: "chunk_of x = Inl e \<Longrightarrow> e = ValueError \<or> e = OverflowError"
proof (cases x)
  case (JObj kvs)
  assume "chunk_of x = Inl e"
  with JObj show ?thesis
    by (cases "jget kvs ''name''") (auto simp: chunk_of_def bindE_eq_Inl dest: int_or_error opt_int_error split: if_splits)
qed (simp_all add: chunk_of_def)

lemma scan_error: "scan_entries es seen = Inl e \<Longrightarrow> e = OverflowError"
proof (induction es seen arbitrary: e rule: scan_entries.induct)
  case (2 x es seen)
  show ?case
  proof (cases "chunk_of x")
    case (Inl err)
    with chunk_of_error [OF Inl] 2 show ?thesis by (auto simp: bindE_eq_Inl split: prod.splits)
  next
    case (Inr c)
    with 2 show ?thesis by (auto simp: bindE_eq_Inl split: if_splits prod.splits)
  qed
qed simp

text \<open>Reading the index may also change the device's name.\<close>

locale index_steps = effect_relation R T stop
  for R T :: "world \<Rightarrow> world \<Rightarrow> bool" and stop :: "exn \<Rightarrow> bool" +
  assumes frame_device: "files v = files w \<Longrightarrow> sent v = sent w \<Longrightarrow> script v = script w \<Longrightarrow> out v = out w \<Longrightarrow> R w v"
    and ask_index: "moves R T stop (send GetIndex)"
    and only_Refused: "stop e \<Longrightarrow> \<exists>s. e = Refused s"
begin

lemma does_fetch_index: "does (fetch_index cf)"
proof -
  let ?h = "\<lambda>e. case e of
          HttpError st \<Rightarrow> (if retryable st then ret (Again ''HTTP'') else raise (Unreachable ''HTTP'' False))
        | Transport \<Rightarrow> ret (Again ''transport'')
        | _ \<Rightarrow> raise e"
  have r: "does (raise e)" if "\<And>s. e \<noteq> Refused s" for e
    using that only_Refused by (intro does_raise) blast
  have not_unreachable: "\<not> stop (Unreachable why off)" for why off
    using only_Refused by blast
  have h: "does (?h e :: (string \<times> json) list verdict step)" if "\<not> stop e" for e
    using that by (cases e) (auto intro!: does_ret does_raise not_unreachable)
  have s: "?h e = raise e" if "stop e" for e
    using only_Refused [OF that] by auto
  have "does (read_all a)" for a
    by (auto simp: read_all_def Let_def intro!: does_ret r split: length_header.split)
  then show ?thesis
    unfolding fetch_index_def
    by (intro does_catchA does_bindA ask_index s h)
       (auto intro!: does_ret r split: option.split json.split)
qed

lemma does_index: "does (index cf)"
proof -
  have m: "does (modify (\<lambda>w. w\<lparr>index_problems := p\<rparr>))" "does (modify (\<lambda>w. w\<lparr>device := d\<rparr>))" "does (nap k)" for p d k
    unfolding nap_def by (intro does_modify frame_device; simp)+
  have r: "does (raise (Unreachable why off))" for why off
    using only_Refused by (intro does_raise) blast
  have e: "does (raise e :: chunk_entry list step)" if "scan_entries es seen = Inl e" for es seen e
  proof -
    have "e = OverflowError" using that by (rule scan_error)
    with only_Refused show ?thesis by (intro does_raise) blast
  qed
  show ?thesis
    unfolding index_def attempts_def Let_def
    by (intro does_thenA does_bindA does_tries m does_fetch_index)
       (auto intro!: does_ret does_thenA does_whenA m r e split: sum.split)
qed

end

locale whole_pass = pass_steps R T stop cf + index_steps R T stop
  for R T :: "world \<Rightarrow> world \<Rightarrow> bool" and stop :: "exn \<Rightarrow> bool" and cf :: env +
  assumes frame_any: "files v = files w \<Longrightarrow> sent v = sent w \<Longrightarrow> script v = script w \<Longrightarrow> R w v"
begin

lemma does_collect_inner: "does (collect_inner cf)"
proof -
  let ?h = "\<lambda>e. case e of
          Unreachable why off \<Rightarrow>
            thenA (modify (\<lambda>w. w\<lparr>unreachable := True, offline := off,
                out := (out w)\<lparr>o_device := name_of cf w, failed := failed (out w) @ [(''<index>'', why)]\<rparr>\<rparr>))
              (ret None)
        | _ \<Rightarrow> raise e"
  have h: "does (?h e :: chunk_entry list option step)" if "\<not> stop e" for e
    using that by (cases e) (auto intro!: does_thenA does_ret does_raise does_modify frame_any)
  have s: "?h e = raise e" if "stop e" for e
    using stop_Refused [OF that] by auto
  show ?thesis
    unfolding collect_inner_def
    by (intro does_bindA does_catchA does_index does_ret s h does_cases does_thenA does_modify does_collect_chunks frame_any) simp_all
qed

lemma collect_moves: "R w (snd (collect cf w)) \<or> T w (snd (collect cf w))"
proof -
  define w0 where "w0 = w\<lparr>out := new_outcome, unreachable := False, offline := False\<rparr>"
  have 0: "R w w0" by (rule frame_any) (simp_all add: w0_def)
  obtain r u where u: "collect_inner cf w0 = (r, u)" by (cases "collect_inner cf w0")
  have a: "does_at w0 (collect_inner cf)" by (rule movesD [OF does_collect_inner])
  have fr: "R u (u\<lparr>out := q\<rparr>)" for q by (rule frame_any) simp_all
  have step: "snd (collect cf w) = (case r of Inl (Refused why) \<Rightarrow>
        u\<lparr>out := (out u)\<lparr>o_device := (if o_device (out u) \<noteq> [] then o_device (out u) else name_of cf u),
              refused := Some why, failed := failed (out u) @ [(''<refused>'', why)]\<rparr>\<rparr> | _ \<Rightarrow> u)"
    by (simp add: collect_def thenA_def bindA_def modify_def catchA_def w0_def [symmetric] u raise_def split: sum.split exn.split)
  have f: "files (snd (collect cf w)) = files u" "sent (snd (collect cf w)) = sent u" "script (snd (collect cf w)) = script u"
      "device (snd (collect cf w)) = device u"
    unfolding step by (simp_all split: sum.split exn.split)
  have "R w0 u \<or> T w0 u" using moves_atD [OF a] u by (cases r) auto
  then show ?thesis
  proof
    assume "R w0 u"
    then have "R w0 (snd (collect cf w))" by (rule R_trans) (rule frame_any; simp add: f)
    then show ?thesis using R_trans [OF 0] by blast
  next
    assume "T w0 u"
    then have "T w0 (snd (collect cf w))" by (rule frame_T) (simp_all add: f)
    then show ?thesis using R_T [OF 0] by blast
  qed
qed

end

section \<open>The archive only grows\<close>

definition grows :: "world \<Rightarrow> world \<Rightarrow> bool" where
  "grows w v \<longleftrightarrow> (\<forall>p b. \<not> reserved (snd p) \<and> files w p = Some b \<longrightarrow> files v p = Some b)"

interpretation growing: whole_pass grows grows "\<lambda>_. False" cf
proof unfold_locales
  fix req :: request and w n
  show "(\<And>n. req \<noteq> PostDone n) \<Longrightarrow> moves grows grows (\<lambda>_. False) (send req)"
    by (auto simp: moves_state send_def Let_def grows_def split: list.split)
  show "moves grows grows (\<lambda>_. False) (send GetIndex)"
    by (auto simp: moves_state send_def Let_def grows_def split: list.split)
  show "moves_at grows grows (\<lambda>_. False) w (send (PostDone n))"
    by (rule movesD) (auto simp: moves_state send_def Let_def grows_def split: list.split)
qed (auto simp: grows_def)

section \<open>The requests of a pass\<close>

definition refusing :: "reply \<Rightarrow> bool" where
  "refusing r = (case r of Silence \<Rightarrow> False | Answer a \<Rightarrow> status a \<in> {401, 403})"

definition uses_script :: "nat \<Rightarrow> world \<Rightarrow> world \<Rightarrow> bool" where
  "uses_script n w v \<longleftrightarrow> length (sent v) = length (sent w) + n \<and> script v = drop n (script w)"

definition unrefused :: "world \<Rightarrow> world \<Rightarrow> bool" where
  "unrefused w v \<longleftrightarrow> (\<exists>n. uses_script n w v \<and> (\<forall>x\<in>set (take n (script w)). \<not> refusing x))"

definition ends_refused :: "world \<Rightarrow> world \<Rightarrow> bool" where
  "ends_refused w v \<longleftrightarrow> (\<exists>n. uses_script (Suc n) w v \<and> n < length (script w) \<and> refusing (script w ! n) \<and>
     (\<forall>x\<in>set (take n (script w)). \<not> refusing x))"

fun is_refused :: "exn \<Rightarrow> bool" where
  "is_refused (Refused s) = True"
| "is_refused _ = False"

lemma send_halts: "moves_at unrefused ends_refused is_refused w (send req)"
proof (cases "script w")
  case Nil
  then show ?thesis
    by (auto simp: moves_at_def send_def Let_def unrefused_def uses_script_def intro!: exI [of _ "1"])
next
  case (Cons r rs)
  show ?thesis
  proof (cases "refusing r")
    case True
    then obtain a where "r = Answer a" "status a \<in> {401, 403}" by (auto simp: refusing_def split: reply.splits)
    with Cons show ?thesis
      by (auto simp: moves_at_def send_def Let_def open_reply_def ends_refused_def uses_script_def refusing_def intro!: exI [of _ "0"])
  next
    case False
    then have "case open_reply r of Inl e \<Rightarrow> \<not> is_refused e | Inr _ \<Rightarrow> True"
      by (auto simp: open_reply_def refusing_def split: reply.splits)
    with Cons False show ?thesis
      by (auto simp: moves_at_def send_def Let_def unrefused_def uses_script_def intro!: exI [of _ "1"] split: sum.splits)
  qed
qed

lemma take_drop_set: "x \<in> set (take (m + n) xs) \<longleftrightarrow> x \<in> set (take m xs) \<or> x \<in> set (take n (drop m xs))"
  by (simp add: take_add)

interpretation halting: whole_pass unrefused ends_refused is_refused cf
proof unfold_locales
  fix w n and req :: request
  show "unrefused w w" by (auto simp: unrefused_def uses_script_def intro!: exI [of _ 0])
  show "moves unrefused ends_refused is_refused (send GetIndex)" by (simp add: moves_def send_halts)
  show "moves unrefused ends_refused is_refused (send req)" by (simp add: moves_def send_halts)
  show "moves_at unrefused ends_refused is_refused w (send (PostDone n))" by (rule send_halts)
next
  fix u v w
  assume "unrefused u v"
  then obtain m where m: "uses_script m u v" "\<forall>x\<in>set (take m (script u)). \<not> refusing x" by (auto simp: unrefused_def)
  {
    assume "unrefused v w"
    then obtain n where "uses_script n v w" "\<forall>x\<in>set (take n (script v)). \<not> refusing x" by (auto simp: unrefused_def)
    with m show "unrefused u w"
      unfolding unrefused_def uses_script_def by (intro exI [of _ "m + n"]) (auto simp: take_drop_set add.commute)
  next
    assume "ends_refused v w"
    then obtain n where "uses_script (Suc n) v w" "n < length (script v)" "refusing (script v ! n)"
        "\<forall>x\<in>set (take n (script v)). \<not> refusing x" by (auto simp: ends_refused_def)
    with m show "ends_refused u w"
      unfolding ends_refused_def uses_script_def by (intro exI [of _ "m + n"]) (auto simp: take_drop_set add.commute)
  }
next
  fix e
  show "is_refused e \<Longrightarrow> \<exists>s. e = Refused s" by (cases e) auto
qed (auto simp: unrefused_def ends_refused_def uses_script_def intro!: exI [of _ 0])

end
