(* ===== verification/CollectorFacts.thy ===== *)
theory CollectorFacts
  imports CollectorSteps
begin

text \<open>
  The safety of a pass: confirmations are sent for archived chunks only, the archive is append-only, a
  refusal is the last thing asked, and the index is a clean work list.
\<close>

section \<open>Confirmed means archived\<close>

definition vouched :: "env \<Rightarrow> string \<Rightarrow> request \<times> archive \<Rightarrow> bool" where
  "vouched cf dir x \<longleftrightarrow> (case x of (PostDone n, fs) \<Rightarrow> archived_in cf fs dir n | _ \<Rightarrow> True)"

definition vouches :: "env \<Rightarrow> world \<Rightarrow> world \<Rightarrow> bool" where
  "vouches cf w v \<longleftrightarrow> device v = device w \<and>
     (\<exists>xs. sent v = sent w @ xs \<and> (json_ok cf \<longrightarrow> (\<forall>x\<in>set xs. vouched cf (name_of cf w) x)))"

lemma vouches_trans:
  assumes "vouches cf u v" and "vouches cf v w"
  shows "vouches cf u w"
proof -
  from assms(1) obtain xs where 1: "device v = device u" "sent v = sent u @ xs"
      "json_ok cf \<longrightarrow> (\<forall>x\<in>set xs. vouched cf (name_of cf u) x)" by (auto simp: vouches_def)
  from assms(2) obtain ys where 2: "device w = device v" "sent w = sent v @ ys"
      "json_ok cf \<longrightarrow> (\<forall>x\<in>set ys. vouched cf (name_of cf v) x)" by (auto simp: vouches_def)
  have "name_of cf v = name_of cf u" using 1 by (simp add: name_of_def)
  with 1 2 show ?thesis unfolding vouches_def by (intro conjI exI [of _ "xs @ ys"]) auto
qed

lemma send_sent: "sent (snd (send req w)) = sent w @ [(req, files w)] \<and> device (snd (send req w)) = device w"
  by (simp add: send_def Let_def split: list.split)

interpretation vouching: pass_steps "vouches cf" "vouches cf" "\<lambda>_. False" cf
proof unfold_locales
  fix req :: request and w n
  assume "\<And>n. req \<noteq> PostDone n"
  then have "vouched cf dir (req, fs)" for dir fs by (simp add: vouched_def split: request.split)
  then show "moves (vouches cf) (vouches cf) (\<lambda>_. False) (send req)"
    by (simp add: moves_state vouches_def send_sent)
next
  fix w n
  assume "json_ok cf \<Longrightarrow> archived cf w n"
  then have "vouches cf w (snd (send (PostDone n) w))"
    by (simp add: vouches_def send_sent vouched_def archived_def)
  then show "moves_at (vouches cf) (vouches cf) (\<lambda>_. False) w (send (PostDone n))"
    by (simp add: moves_at_def split: prod.split sum.split) (metis snd_conv)
next
  fix u v w
  show "vouches cf u v \<Longrightarrow> vouches cf v w \<Longrightarrow> vouches cf u w" by (rule vouches_trans)
qed (auto simp: vouches_def)

definition asks_index :: "world \<Rightarrow> world \<Rightarrow> bool" where
  "asks_index w v \<longleftrightarrow> (\<exists>xs. sent v = sent w @ xs \<and> (\<forall>x\<in>set xs. fst x = GetIndex))"

interpretation asking: index_steps asks_index asks_index "\<lambda>_. False"
proof unfold_locales
  show "moves asks_index asks_index (\<lambda>_. False) (send GetIndex)"
    by (auto simp: moves_state asks_index_def send_sent)
next
  fix u v w
  show "asks_index u w" if "asks_index u v" "asks_index v w"
  proof -
    from that obtain xs ys where "sent v = sent u @ xs" "\<forall>x\<in>set xs. fst x = GetIndex"
        "sent w = sent v @ ys" "\<forall>x\<in>set ys. fst x = GetIndex" by (auto simp: asks_index_def)
    then show ?thesis unfolding asks_index_def by (intro exI [of _ "xs @ ys"]) auto
  qed
qed (simp_all add: asks_index_def)

lemma index_sent: "index cf w = (r, v) \<Longrightarrow> asks_index w v"
  using asking.does_index [of cf] by (metis moves_state snd_conv)

lemma collect_inner_sent:
  assumes "collect_inner cf w = (r, v)" and j: "json_ok cf"
  shows "\<exists>xs. sent v = sent w @ xs \<and> (\<forall>x\<in>set xs. vouched cf (name_of cf v) x)"
proof -
  obtain q u where i: "index cf w = (q, u)" by (cases "index cf w")
  then obtain xs where xs: "sent u = sent w @ xs" "\<forall>x\<in>set xs. fst x = GetIndex"
    using index_sent unfolding asks_index_def by blast
  then have ix: "\<forall>x\<in>set xs. vouched cf d x" for d by (auto simp: vouched_def)
  show ?thesis
  proof (cases q)
    case (Inl e)
    with assms i have "sent v = sent u"
      by (cases e) (auto simp: collect_inner_def bindA_def catchA_def thenA_def modify_def ret_def raise_def)
    with xs ix show ?thesis by auto
  next
    case (Inr cs)
    define u1 where "u1 = u\<lparr>out := (out u)\<lparr>o_device := name_of cf u, failed := failed (out u) @ index_problems u\<rparr>\<rparr>"
    have "collect_chunks cf cs u1 = (r, v)"
      using assms i Inr by (simp add: collect_inner_def bindA_def catchA_def thenA_def modify_def ret_def u1_def)
    then have "vouches cf u1 v" using vouching.does_collect_chunks [of cf cs] by (metis moves_state snd_conv)
    then have dv: "device v = device u1" and
      "\<exists>ys. sent v = sent u1 @ ys \<and> (\<forall>y\<in>set ys. vouched cf (name_of cf u1) y)"
      using j by (auto simp: vouches_def)
    moreover have "name_of cf u1 = name_of cf v" using dv by (simp add: name_of_def)
    ultimately obtain ys where "sent v = sent u @ ys" "\<forall>y\<in>set ys. vouched cf (name_of cf v) y"
      by (auto simp: u1_def)
    with xs ix show ?thesis by (intro exI [of _ "xs @ ys"]) auto
  qed
qed

lemma collect_result:
  "snd (collect cf w) = (case collect_inner cf (w\<lparr>out := new_outcome, unreachable := False, offline := False\<rparr>) of
      (Inl (Refused why), u) \<Rightarrow> u\<lparr>out := (out u)\<lparr>o_device := (if o_device (out u) \<noteq> [] then o_device (out u) else name_of cf u),
              refused := Some why, failed := failed (out u) @ [(''<refused>'', why)]\<rparr>\<rparr>
    | (_, u) \<Rightarrow> u)"
  by (cases "collect_inner cf (w\<lparr>out := new_outcome, unreachable := False, offline := False\<rparr>)")
     (simp add: collect_def thenA_def bindA_def modify_def catchA_def raise_def split: sum.split exn.split)

text \<open>
  C1: a confirm is only sent for a chunk the archive holds.  Whatever the device answers, the cards
  it swaps and the writes that fail, at the moment a chunk is confirmed a file of its name lies in the
  archive whose bytes \<open>sdlog.py\<close> accepts, or that is torn and nothing but torn with a sidecar naming
  the digest of exactly these bytes.
\<close>

theorem confirm_only_archived:
  assumes "json_ok cf" and "sent w = []" and "(PostDone n, fs) \<in> set (sent (snd (collect cf w)))"
  shows "archived_in cf fs (name_of cf (snd (collect cf w))) n"
proof -
  define w0 where "w0 = w\<lparr>out := new_outcome, unreachable := False, offline := False\<rparr>"
  obtain r u where u: "collect_inner cf w0 = (r, u)" by (cases "collect_inner cf w0")
  have s: "sent (snd (collect cf w)) = sent u" and d: "name_of cf (snd (collect cf w)) = name_of cf u"
    unfolding collect_result w0_def [symmetric] u by (simp_all add: name_of_def split: sum.split exn.split)
  from collect_inner_sent [OF u assms(1)] assms(2) have "\<forall>x\<in>set (sent u). vouched cf (name_of cf u) x"
    by (auto simp: w0_def)
  with assms(3) show ?thesis unfolding s d by (auto simp: vouched_def)
qed


text \<open>
  C10: after a refusal not one more request.  If the reply to request \<open>i\<close> of a pass is 401 or 403,
  that request is the last one of the pass.
\<close>

theorem refused_is_last:
  assumes "length (sent (snd (collect cf w))) = length (sent w) + k" and "i < k" and "i < length (script w)"
    and "refusing (script w ! i)"
  shows "Suc i = k"
proof -
  from halting.collect_moves [of w cf] show ?thesis
  proof
    assume "unrefused w (snd (collect cf w))"
    with assms(1) have "\<forall>x\<in>set (take k (script w)). \<not> refusing x" by (auto simp: unrefused_def uses_script_def)
    moreover have "script w ! i \<in> set (take k (script w))" using assms(2,3) by (auto simp: in_set_conv_nth intro!: exI [of _ i])
    ultimately show ?thesis using assms(4) by blast
  next
    assume "ends_refused w (snd (collect cf w))"
    then obtain n where n: "uses_script (Suc n) w (snd (collect cf w))" "\<forall>x\<in>set (take n (script w)). \<not> refusing x"
      by (auto simp: ends_refused_def)
    then have k: "k = Suc n" using assms(1) by (simp add: uses_script_def)
    have "i = n"
    proof (rule ccontr)
      assume "i \<noteq> n"
      then have "script w ! i \<in> set (take n (script w))" using assms(2,3) k by (auto simp: in_set_conv_nth intro!: exI [of _ i])
      with n(2) assms(4) show False by blast
    qed
    with k show ?thesis by simp
  qed
qed

section \<open>The index\<close>

lemma scan_entries_names:
  "scan_entries es seen = Inr (cs, ps) \<Longrightarrow>
   distinct (map c_name cs) \<and> set (map c_name cs) \<inter> seen = {} \<and> (\<forall>c\<in>set cs. is_safe_name (c_name c))"
proof (induction es seen arbitrary: cs ps rule: scan_entries.induct)
  case (1 seen)
  then show ?case by simp
next
  case (2 e es seen)
  show ?case
  proof (cases "chunk_of e")
    case (Inl err)
    with 2(4) chunk_of_error [OF Inl] have err: "err = ValueError" by auto
    with 2(4) Inl obtain ps' where "scan_entries es seen = Inr (cs, ps')" by (auto simp: bindE_eq_Inr)
    from 2(1) [OF _ err this] Inl show ?thesis by (simp add: err)
  next
    case (Inr c)
    have "is_safe_name (c_name c)"
      using Inr by (auto simp: chunk_of_def bindE_eq_Inr split: json.splits if_splits)
    with 2 Inr show ?thesis by (auto simp: bindE_eq_Inr split: if_splits) blast+
  qed
qed

lemma index_returns:
  assumes "index cf w = (Inr cs, v)"
  shows "\<exists>es cs' ps. scan_entries es {} = Inr (cs', ps) \<and> cs = sort_key (\<lambda>c. (c_seq c, c_name c)) cs' \<and> index_problems v = ps"
proof -
  let ?rest = "\<lambda>es. case scan_entries es {} of
                  Inl e \<Rightarrow> raise e
                | Inr (cs, problems) \<Rightarrow>
                    thenA (modify (\<lambda>w. w\<lparr>index_problems := problems\<rparr>))
                      (ret (sort_key (\<lambda>c. (c_seq c, c_name c)) cs))"
  let ?tail = "\<lambda>kvs. ?rest (case jget kvs ''chunks'' of JArr es \<Rightarrow> es | _ \<Rightarrow> [])"
  have t: "\<exists>es cs' ps. scan_entries es {} = Inr (cs', ps) \<and> cs = sort_key (\<lambda>c. (c_seq c, c_name c)) cs' \<and> index_problems v = ps"
    if "?rest es u = (Inr cs, v)" for es u
  proof (cases "scan_entries es {}")
    case (Inr x)
    with that show ?thesis by (cases x) (auto simp: returns_iff intro!: exI [of _ es])
  qed (use that in \<open>simp add: raise_def\<close>)
  from assms obtain got u where "(case got of
          Inl reason \<Rightarrow> raise (Unreachable reason True)
        | Inr kvs \<Rightarrow>
            (let named = jget kvs ''device'' in
             if expect cf \<noteq> None \<and> named \<noteq> JStr (the (expect cf)) then raise (Unreachable ''another device'' False)
             else
               thenA (whenA (truthy named \<and> \<not> pinned cf) (modify (\<lambda>w. w\<lparr>device := str_of cf named\<rparr>))) (?tail kvs))) u = (Inr cs, v)"
    unfolding index_def thenA_Inr [of "modify _"] bindA_Inr by blast
  then obtain kvs u' where "?tail kvs u' = (Inr cs, v)"
    by (cases got) (auto simp: raise_def Let_def thenA_Inr split: if_splits)
  then show ?thesis by (rule t)
qed

text \<open>
  C35: the index is a work list that can be trusted.  What \<open>index\<close> returns is in order of sequence
  number and then name, no name occurs twice, and every name is one plain path component.
\<close>

theorem index_is_worklist:
  assumes "index cf w = (Inr cs, v)"
  shows "sorted (map (\<lambda>c. (c_seq c, c_name c)) cs) \<and> distinct (map c_name cs) \<and>
     (\<forall>c\<in>set cs. is_safe_name (c_name c) \<and> CHR ''/'' \<notin> set (c_name c) \<and> hd (c_name c) \<noteq> CHR ''.'')"
proof -
  obtain es cs' ps where s: "scan_entries es {} = Inr (cs', ps)" and cs: "cs = sort_key (\<lambda>c. (c_seq c, c_name c)) cs'"
    using index_returns [OF assms] by blast
  have safe: "CHR ''/'' \<notin> set n \<and> hd n \<noteq> CHR ''.''" if "is_safe_name n" for n
    using that by (cases n) (auto simp: is_safe_name_def alnum_def Let_def list_all_iff)
  have "distinct (map c_name cs)" using scan_entries_names [OF s] by (simp add: cs distinct_map)
  moreover have "sorted (map (\<lambda>c. (c_seq c, c_name c)) cs)" by (simp add: cs)
  moreover have "\<forall>c\<in>set cs. is_safe_name (c_name c)" using scan_entries_names [OF s] by (simp add: cs)
  ultimately show ?thesis using safe by blast
qed

end
