(* ===== verification/CollectorReport.thy ===== *)
theory CollectorReport
  imports CollectorFacts
begin

text \<open>
  The report of a pass and its length: an exit status of zero means that every listed chunk was
  confirmed, and the number of requests is bounded by the retries and the number of chunks.
\<close>


section \<open>Nothing is lost from the report\<close>

definition same_out :: "world \<Rightarrow> world \<Rightarrow> bool" where
  "same_out w v \<longleftrightarrow> out v = out w"

lemma send_out: "out (snd (send req w)) = out w"
  by (simp add: send_def Let_def split: list.split)

interpretation outs: chunk_steps same_out same_out "\<lambda>_. False"
  by unfold_locales (auto simp: same_out_def moves_state send_out)

lemma confirm_out: "moves same_out same_out (\<lambda>_. False) (confirm_chunk cf n)"
proof -
  let ?h = "\<lambda>e. case e of
            HttpError st \<Rightarrow> (if retryable st then ret (Again ''HTTP'') else ret (Done (Some (''confirm: HTTP'', False))))
          | Transport \<Rightarrow> ret (Again ''transport'')
          | _ \<Rightarrow> raise e"
  have h: "moves same_out same_out (\<lambda>_. False) (?h e)" for e
    by (cases e) (auto intro!: outs.does_raise outs.does_ret outs.does_if)
  have s: "moves same_out same_out (\<lambda>_. False) (send req)" for req
    by (simp add: moves_state same_out_def send_out)
  show ?thesis
    unfolding confirm_chunk_def
    by (intro outs.does_bindA outs.does_attempts outs.does_catchA outs.does_if outs.does_ret outs.does_cases s h) simp
qed

lemma confirm_step_out:
  assumes "confirm_step cf n w = (Inr (), v)"
  shows "(confirmed (out v) = confirmed (out w) @ [n] \<and> failed (out v) = failed (out w)) \<or>
     (\<exists>x. failed (out v) = failed (out w) @ [x])"
proof -
  from assms obtain p u where "confirm_chunk cf n w = (Inr p, u)"
    and c: "(case p of None \<Rightarrow> note_out (\<lambda>q. q\<lparr>confirmed := confirmed q @ [n]\<rparr>) | Some (why, tr) \<Rightarrow> record_failure n why tr) u = (Inr (), v)"
    unfolding confirm_step_def bindA_Inr by blast
  then have "out u = out w" using confirm_out [of cf n] by (metis moves_state same_out_def snd_conv)
  with c show ?thesis by (cases p) (auto simp: note_out_def record_failure_def modify_def split: prod.splits)
qed

lemma secure_out:
  assumes "secure cf c w = (Inr m, v)"
  shows "(if m = Confirm then failed (out v) = failed (out w) \<and> confirmed (out v) = confirmed (out w)
      else \<exists>x. failed (out v) = failed (out w) @ [x])"
proof -
  let ?go = "bindA (gets (\<lambda>w. files w (archive_path cf w (c_name c)) \<noteq> None)) (\<lambda>have_it.
            if have_it
            then thenA (already_have cf c)
                   (thenA (note_out (\<lambda>q. q\<lparr>skipped := skipped q @ [c_name c]\<rparr>)) (ret Confirm))
            else thenA (fetch cf c) (thenA (note_fetched (c_name c)) (ret Confirm)))"
  let ?h = "\<lambda>e. case e of
            ChunkFailed why tr \<Rightarrow> thenA (record_failure (c_name c) why tr) (ret Skip)
          | ArchiveError why \<Rightarrow>
              thenA (note_out (\<lambda>q. q\<lparr>archive_error := Some why, failed := failed q @ [(c_name c, why)]\<rparr>)) (ret Stop)
          | _ \<Rightarrow> raise e"
  have k: "out u' = out u" if "read_ok u = (r, u')" for u u' r
    using read_ok_frame [OF that] by auto
  have a: "already_have cf c u = (r, u') \<Longrightarrow> out u' = out u" "fetch cf c u = (r, u') \<Longrightarrow> out u' = out u" for u u' r
    using outs.does_already_have [of cf c] outs.does_fetch [of cf c] by (metis moves_state same_out_def snd_conv)+
  from assms obtain u where u: "catchA (thenA read_ok ?go) ?h w = (Inr m, u)" "failed (out v) = failed (out u)" "confirmed (out v) = confirmed (out u)"
    unfolding secure_def finallyA_Inr by auto
  from u(1) consider (normal) x w0 where "read_ok w = (Inr x, w0)" "?go w0 = (Inr m, u)"
    | (error) e u' where "thenA read_ok ?go w = (Inl e, u')" "?h e u' = (Inr m, u)"
    unfolding catchA_Inr thenA_Inr [of read_ok] by blast
  then show ?thesis
  proof cases
    case normal
    note w0 = k [OF normal(1)]
    let ?skip = "thenA (note_out (\<lambda>q. q\<lparr>skipped := skipped q @ [c_name c]\<rparr>)) (ret Confirm)"
      and ?got = "thenA (note_fetched (c_name c)) (ret Confirm)"
    have tails: "(?skip x = (Inr m, u) \<longrightarrow> m = Confirm \<and> failed (out u) = failed (out x) \<and> confirmed (out u) = confirmed (out x)) \<and>
        (?got x = (Inr m, u) \<longrightarrow> m = Confirm \<and> failed (out u) = failed (out x) \<and> confirmed (out u) = confirmed (out x))" for x
      by (auto simp: bindA_Inr thenA_Inr pure_Inr note_out_def note_fetched_def)
    from normal(2) consider (have_it) "thenA (already_have cf c) ?skip w0 = (Inr m, u)" | (new) "thenA (fetch cf c) ?got w0 = (Inr m, u)"
      unfolding bindA_Inr pure_Inr by (auto split: if_splits)
    then have "m = Confirm \<and> failed (out u) = failed (out w) \<and> confirmed (out u) = confirmed (out w)"
    proof cases
      case have_it
      then obtain r x where "already_have cf c w0 = (Inr r, x)" "?skip x = (Inr m, u)" unfolding thenA_Inr [of "already_have cf c"] by blast
      with tails [of x] a(1) [of w0 _ x] w0 show ?thesis by simp
    next
      case new
      then obtain r x where "fetch cf c w0 = (Inr r, x)" "?got x = (Inr m, u)" unfolding thenA_Inr [of "fetch cf c"] by blast
      with tails [of x] a(2) [of w0 _ x] w0 show ?thesis by simp
    qed
    with u show ?thesis by simp
  next
    case error
    have "failed (out u') = failed (out w)"
      using error(1)
      by (auto simp: bindA_def thenA_def gets_def note_out_def note_fetched_def modify_def ret_def
          split: if_splits prod.splits sum.splits dest!: a k)
    with error(2) have "m \<noteq> Confirm \<and> (\<exists>x. failed (out u) = failed (out w) @ [x])"
      by (cases e) (auto simp: thenA_Inr pure_Inr record_failure_def note_out_def)
    with u show ?thesis by auto
  qed
qed

lemma collect_chunks_out:
  "collect_chunks cf cs w = (Inr (), v) \<Longrightarrow>
   \<exists>fs. failed (out v) = failed (out w) @ fs \<and> (fs = [] \<longrightarrow> confirmed (out v) = confirmed (out w) @ map c_name cs)"
proof (induction cs arbitrary: w)
  case Nil
  then show ?case by (simp add: ret_def)
next
  case (Cons c cs)
  from Cons.prems obtain m u w1 where w1: "w1 = w\<lparr>transfer := new_transfer\<rparr>" and s: "secure cf c w1 = (Inr m, u)"
    and k: "(case m of Confirm \<Rightarrow> thenA (confirm_step cf (c_name c)) (collect_chunks cf cs)
        | Skip \<Rightarrow> collect_chunks cf cs | Stop \<Rightarrow> ret ()) u = (Inr (), v)"
    unfolding collect_chunks.simps thenA_Inr [of "modify _"] bindA_Inr note_transfer_def pure_Inr by auto
  note so = secure_out [OF s]
  show ?case
  proof (cases m)
    case Confirm
    with k obtain u' where c: "confirm_step cf (c_name c) u = (Inr (), u')" and r: "collect_chunks cf cs u' = (Inr (), v)"
      by (auto simp: thenA_Inr)
    from Cons.IH [OF r] obtain fs where fs: "failed (out v) = failed (out u') @ fs"
        "fs = [] \<longrightarrow> confirmed (out v) = confirmed (out u') @ map c_name cs" by blast
    from confirm_step_out [OF c] so Confirm fs w1 show ?thesis by auto
  next
    case Skip
    with k have r: "collect_chunks cf cs u = (Inr (), v)" by simp
    from Cons.IH [OF r] so Skip w1 show ?thesis by auto
  next
    case Stop
    with k so w1 show ?thesis by (auto simp: ret_def)
  qed
qed

interpretation index_outs: index_steps same_out same_out "\<lambda>_. False"
  by unfold_locales (auto simp: same_out_def moves_state send_out)

lemma index_keeps_out: "index cf w = (r, v) \<Longrightarrow> out v = out w"
  using index_outs.does_index [of cf] by (metis moves_state same_out_def snd_conv)

lemma zero_confirms_all:
  assumes "collect cf w = (Inr (), v)" and "exit_status v = 0"
  shows "\<exists>cs u. index cf (w\<lparr>out := new_outcome, unreachable := False, offline := False\<rparr>) = (Inr cs, u) \<and>
     index_problems u = [] \<and> confirmed (out v) = map c_name cs"
proof -
  define w0 where "w0 = w\<lparr>out := new_outcome, unreachable := False, offline := False\<rparr>"
  from assms(2) have z: "refused (out v) = None" "\<not> unreachable v" "failed (out v) = []"
    by (auto simp: exit_status_def Let_def EX_NOPERM_def EX_IOERR_def EX_TEMPFAIL_def EX_WRONG_TARGET_def EX_DEFECT_def
        split: if_splits)
  let ?top = "\<lambda>e. case e of
          Refused why \<Rightarrow>
            modify (\<lambda>w. w\<lparr>out := (out w)\<lparr>o_device := (if o_device (out w) \<noteq> [] then o_device (out w) else name_of cf w),
              refused := Some why, failed := failed (out w) @ [(''<refused>'', why)]\<rparr>\<rparr>)
        | _ \<Rightarrow> raise e"
  from assms(1) have "catchA (collect_inner cf) ?top w0 = (Inr (), v)"
    by (auto simp: collect_def thenA_Inr pure_Inr w0_def)
  moreover have "?top e u \<noteq> (Inr (), v)" for e u
    using z by (cases e) (auto simp: pure_Inr)
  ultimately have inner: "collect_inner cf w0 = (Inr (), v)" unfolding catchA_Inr by blast
  let ?h = "\<lambda>e. case e of
          Unreachable why off \<Rightarrow>
            thenA (modify (\<lambda>w. w\<lparr>unreachable := True, offline := off,
                out := (out w)\<lparr>o_device := name_of cf w, failed := failed (out w) @ [(''<index>'', why)]\<rparr>\<rparr>))
              (ret None)
        | _ \<Rightarrow> raise e"
  from inner obtain q u where q: "catchA (bindA (index cf) (\<lambda>cs. ret (Some cs))) ?h w0 = (Inr q, u)"
    and rest: "(case q of
        None \<Rightarrow> ret ()
      | Some cs \<Rightarrow>
          thenA (modify (\<lambda>w. w\<lparr>out := (out w)\<lparr>o_device := name_of cf w, failed := failed (out w) @ index_problems w\<rparr>\<rparr>))
            (collect_chunks cf cs)) u = (Inr (), v)"
    unfolding collect_inner_def bindA_Inr [of "catchA _ _"] by blast
  have "?h e u' = (Inr q, u) \<Longrightarrow> q = None \<and> unreachable u" for e u'
    by (cases e) (auto simp: thenA_Inr pure_Inr)
  with q rest z obtain cs where q: "q = Some cs" and ix: "index cf w0 = (Inr cs, u)"
    by (cases q) (auto simp: catchA_Inr bindA_Inr pure_Inr)
  define u1 where "u1 = u\<lparr>out := (out u)\<lparr>o_device := name_of cf u, failed := failed (out u) @ index_problems u\<rparr>\<rparr>"
  have c: "collect_chunks cf cs u1 = (Inr (), v)" using rest by (simp add: q thenA_Inr pure_Inr u1_def)
  have "out u = out w0"
    using index_keeps_out ix by blast
  with collect_chunks_out [OF c] z ix show ?thesis by (auto simp: u1_def w0_def new_outcome_def)
qed

text \<open>
  C11: exit status 0 means everything was collected.  When a pass ends with status 0, the device was
  reached, its index had no broken entry, and every chunk it listed was confirmed, in the order of
  the work list, each one once.
\<close>

theorem exit_zero_all_confirmed:
  assumes "collect cf w = (Inr (), v)" and "exit_status v = 0"
  shows "\<exists>cs u. index cf (w\<lparr>out := new_outcome, unreachable := False, offline := False\<rparr>) = (Inr cs, u) \<and>
     index_problems u = [] \<and> confirmed (out v) = map c_name cs"
  using assms by (rule zero_confirms_all)

section \<open>How many requests a pass makes\<close>

abbreviation requests :: "world \<Rightarrow> nat" where
  "requests w \<equiv> length (sent w)"

definition attempt_limit :: "env \<Rightarrow> nat" where
  "attempt_limit cf = nat (max 1 (retries cf))"

lemma spends_send: "spends requests 1 (send req)"
  by (rule spendsI) (simp add: send_sent)

lemma spends_prims:
  "spends requests 0 disk_ok" "spends requests 0 (put_file p b)" "spends requests 0 (nap k)"
  "spends requests 0 (note_transfer f)" "spends requests 0 (note_out g)"
  by (auto simp: spends_def disk_ok_def put_file_def nap_def note_transfer_def note_out_def modify_def split: list.split)

text \<open>Sequences in which one part alone sends.\<close>

lemma spends_first:
  "spends c n m \<Longrightarrow> (\<And>a. spends c 0 (f a)) \<Longrightarrow> spends c n (bindA m f)"
  "spends c n m \<Longrightarrow> spends c 0 m' \<Longrightarrow> spends c n (thenA m m')"
  "spends c n m \<Longrightarrow> (\<And>e. spends c 0 (h e)) \<Longrightarrow> spends c n (catchA m h)"
  by (erule spends_bindA spends_thenA spends_catchA; assumption?; simp)+

lemma spends_last:
  "spends c 0 m \<Longrightarrow> (\<And>a. spends c n (f a)) \<Longrightarrow> spends c n (bindA m f)"
  "spends c 0 m \<Longrightarrow> spends c n m' \<Longrightarrow> spends c n (thenA m m')"
  by (erule spends_bindA spends_thenA; assumption?; simp)+

lemmas spends_seq0 = spends_bindA [where i = 0 and j = 0] spends_thenA [where i = 0 and j = 0]

lemma spends_or_archive_error: "spends requests 0 m \<Longrightarrow> spends requests 0 (or_archive_error why m)"
  unfolding or_archive_error_def by (intro spends_seq0 spends_if spends_prims spends_free) simp_all

lemma spends_reads: "spends requests 0 read_ok" "spends requests 0 (parses cf p)"
  unfolding read_ok_def parses_def by (intro spends_seq0 spends_if spends_prims spends_free; simp)+

lemma spends_unlink: "spends requests 0 (unlink p)"
  unfolding unlink_def by (intro spends_seq0 spends_whenA spends_prims) simp_all

lemma spends_promised: "spends requests 0 (promised r)"
  by (cases "promise r") (simp_all add: promised_def spends_free)

lemma spends_defect: "spends requests 0 (defect why)"
  by (simp add: defect_def spends_free)

lemmas spends_ops = spends_or_archive_error spends_unlink spends_promised spends_defect spends_prims spends_free spends_reads

lemma spends_case_option: "spends c n a \<Longrightarrow> (\<And>y. spends c n (f y)) \<Longrightarrow> spends c n (case x of None \<Rightarrow> a | Some y \<Rightarrow> f y)"
  by (cases x) simp_all

lemma spends_case_sum: "(\<And>y. spends c n (f y)) \<Longrightarrow> (\<And>y. spends c n (g y)) \<Longrightarrow> spends c n (case x of Inl y \<Rightarrow> f y | Inr y \<Rightarrow> g y)"
  by (cases x) simp_all

lemma spends_case_end: "spends c n a \<Longrightarrow> spends c n b \<Longrightarrow> spends c n d \<Longrightarrow> spends c n (case x of Whole \<Rightarrow> a | Differs \<Rightarrow> b | NoSpace \<Rightarrow> d)"
  by (cases x) simp_all

lemmas spends_cases = spends_case_option spends_case_sum spends_case_end

lemma spends_probe_head: "spends requests 1 (probe_head c n)"
  unfolding probe_head_def Let_def
  by (intro spends_first(1) [OF spends_send] spends_seq0 spends_if spends_ops) simp_all

lemma spends_prove_local: "spends requests 1 (prove_local c p)"
  unfolding prove_local_def Let_def
  by (intro spends_last(1) spends_first(1) [OF spends_probe_head] spends_seq0 spends_if spends_ops order_refl) simp_all

lemma spends_attempts: "spends requests b body \<Longrightarrow> spends requests (attempt_limit cf * b) (attempts cf body)"
  unfolding attempts_def attempt_limit_def by (intro spends_tries spends_prims)

lemma spends_already_have: "spends requests (attempt_limit cf) (already_have cf c)"
proof -
  let ?h = "\<lambda>e. case e of
                  Mismatch why \<Rightarrow> defect why
                | Interrupted why \<Rightarrow> ret (Again why)
                | HttpError st \<Rightarrow> (if retryable st then ret (Again ''HTTP'')
                     else raise (ChunkFailed ''could not re-check'' (is_race st)))
                | Transport \<Rightarrow> ret (Again ''transport'')
                | OsError \<Rightarrow> ret (Again ''OSError'')
                | _ \<Rightarrow> raise e"
  have h: "spends requests 0 (?h e :: unit verdict step)" for e
    by (cases e) (simp_all add: spends_ops)
  have "spends requests 1 (catchA (thenA (prove_local c p) (ret (Done ()))) ?h)" for p
    by (intro spends_first(3) spends_first(2) spends_prove_local spends_free h)
  from spends_attempts [OF this] have a: "spends requests (attempt_limit cf) (attempts cf (catchA (thenA (prove_local c p) (ret (Done ()))) ?h))" for p
    by simp
  have check: "spends requests 0 (bindA (gets (\<lambda>w. (needs_sidecar cf w c, torn_path cf w (c_name c)))) (\<lambda>(torn, q).
              whenA torn (thenA (parses cf q) read_ok)))"
    by (auto intro!: spends_seq0 spends_whenA spends_ops split: prod.split)
  show ?thesis
    unfolding already_have_def
    by (intro spends_last(2) [OF check] spends_last(1) spends_free)
       (auto intro!: spends_case_option spends_le [OF spends_defect] spends_first(1) a spends_case_sum spends_free split: prod.split)
qed

lemma spends_pull: "spends requests 0 (pull p app overlap expected bs got seen opened)"
proof (induction p app overlap expected bs got seen opened rule: pull.induct)
  case (1 p app overlap expected got seen opened)
  then show ?case by (simp add: spends_free)
next
  case (2 p app overlap expected b bs got seen opened)
  have "spends requests 0 (bindA (gets (\<lambda>w. contents (files w) p)) (\<lambda>old. put_file p (Some (old @ x))))" for x
    by (intro spends_seq0 spends_free spends_prims) simp
  moreover have "spends requests 0 (if opened then ret True
               else bindA disk_ok (\<lambda>ok.
                 thenA (whenA ok (bindA (gets (\<lambda>w. if app then contents (files w) p else [])) (\<lambda>old. put_file p (Some old))))
                   (ret ok)))"
    by (intro spends_if spends_seq0 spends_whenA spends_ops) simp_all
  ultimately show ?case
    unfolding pull.simps Let_def
    by (intro spends_seq0 spends_if spends_whenA spends_ops 2(1) [OF refl refl refl refl] 2(2) [OF refl refl refl refl]) simp_all
qed

lemma spends_download: "spends requests 1 (download c p offset)"
  unfolding download_def Let_def
  by (intro spends_first(1) [OF spends_send])
     (auto intro!: spends_seq0 spends_if spends_whenA spends_ops spends_pull spends_case_end)

lemma spends_fetch_attempt: "spends requests 2 (fetch_attempt cf c p)"
proof -
  let ?h = "\<lambda>e. case e of
            Mismatch why \<Rightarrow>
              thenA (unlink p) (thenA (note_transfer (\<lambda>t. t\<lparr>restarted := True\<rparr>)) (ret (Again why)))
          | HttpError st \<Rightarrow>
              (if st = 416
               then thenA (unlink p) (thenA (note_transfer (\<lambda>t. t\<lparr>restarted := True\<rparr>)) (ret (Again ''discarded the partial'')))
               else if 400 \<le> st \<and> st < 500 then raise (ChunkFailed ''HTTP'' (is_race st))
               else ret (Again ''HTTP''))
          | Interrupted why \<Rightarrow> ret (Again why)
          | Transport \<Rightarrow> ret (Again ''transport'')
          | OsError \<Rightarrow> ret (Again ''OSError'')
          | _ \<Rightarrow> raise e"
  have h: "spends requests 0 (?h e :: unit verdict step)" for e
    by (cases e) (auto intro!: spends_seq0 spends_ops)
  have d: "spends requests 1 (thenA (download c p n) (ret (Done ())))" for n
    by (intro spends_first(2) spends_download spends_free)
  have "spends requests 2 (if n \<noteq> 0
          then thenA (prove_local c p)
                 (if c_size c \<noteq> 0 \<and> int n = c_size c then ret (Done ())
                  else thenA (download c p n) (ret (Done ())))
          else thenA (download c p n) (ret (Done ())))" for n
    by (intro spends_if spends_thenA [OF spends_prove_local, where j = 1] d spends_free spends_le [OF d]) simp_all
  then show ?thesis
    unfolding fetch_attempt_def
    by (intro spends_last(1) spends_free spends_first(3) h)
qed

lemma spends_torn_sighting: "spends requests 0 (torn_sighting cf c p r)"
proof -
  have d: "spends requests 0 (drop_candidate cf n)" for n
    unfolding drop_candidate_def by (auto intro!: spends_seq0 spends_ops split: prod.split)
  show ?thesis
    unfolding torn_sighting_def Let_def
    by (auto intro!: spends_seq0 spends_if spends_whenA spends_ops spends_cases d split: prod.split)
qed

lemma spends_judge: "spends requests 0 (judge cf c p)"
  unfolding judge_def
  by (auto intro!: spends_seq0 spends_if spends_ops spends_torn_sighting split: prod.split)

lemma spends_store_final: "spends requests 0 (store_final cf c p q)"
proof -
  have d: "spends requests 0 (drop_candidate cf n)" for n
    unfolding drop_candidate_def by (auto intro!: spends_seq0 spends_ops split: prod.split)
  have s: "spends requests 0 (write_torn_sidecar cf c p why)" for why
    unfolding write_torn_sidecar_def by (auto intro!: spends_seq0 spends_ops split: prod.split)
  show ?thesis
    unfolding store_final_def
    by (auto intro!: spends_seq0 spends_if spends_whenA spends_ops spends_cases d s split: prod.split)
qed

lemma spends_fetch: "spends requests (2 * attempt_limit cf) (fetch cf c)"
proof -
  have a: "spends requests (2 * attempt_limit cf) (attempts cf (fetch_attempt cf c p))" for p
    using spends_attempts [OF spends_fetch_attempt, of cf] by (simp add: mult.commute)
  have k: "spends requests 0 (case got of Inl reason \<Rightarrow> raise (ChunkFailed reason True)
      | Inr u \<Rightarrow> thenA (judge cf c p) (store_final cf c p q))" for got :: "string + unit" and p q
    by (intro spends_case_sum spends_free spends_seq0 spends_judge spends_store_final) simp
  have "spends requests (2 * attempt_limit cf) (bindA (attempts cf (fetch_attempt cf c p)) (\<lambda>got. case got of Inl reason \<Rightarrow> raise (ChunkFailed reason True)
      | Inr u \<Rightarrow> thenA (judge cf c p) (store_final cf c p q)))" for p q
    by (intro spends_first(1) a k)
  then show ?thesis
    unfolding fetch_def
    by (intro spends_last(1) spends_free) (auto intro!: spends_last(2) spends_or_archive_error spends_free spends_if split: prod.split)
qed

lemma spends_secure: "spends requests (2 * attempt_limit cf) (secure cf c)"
proof -
  let ?h = "\<lambda>e. case e of
            ChunkFailed why tr \<Rightarrow> thenA (record_failure (c_name c) why tr) (ret Skip)
          | ArchiveError why \<Rightarrow>
              thenA (note_out (\<lambda>q. q\<lparr>archive_error := Some why, failed := failed q @ [(c_name c, why)]\<rparr>)) (ret Stop)
          | _ \<Rightarrow> raise e"
  have nf: "spends requests 0 (note_fetched n)" for n
    unfolding note_fetched_def by (intro spends_seq0 spends_ops) simp
  have h: "spends requests 0 (?h e)" for e
    by (cases e) (auto simp: record_failure_def intro!: spends_seq0 spends_ops)
  have t: "spends requests 0 (thenA (note_out f) (ret Confirm))" "spends requests 0 (thenA (note_fetched n) (ret Confirm))" for f n
    by (intro spends_seq0 spends_ops nf; simp)+
  have "spends requests (2 * attempt_limit cf) (if b
            then thenA (already_have cf c)
                   (thenA (note_out (\<lambda>q. q\<lparr>skipped := skipped q @ [c_name c]\<rparr>)) (ret Confirm))
            else thenA (fetch cf c) (thenA (note_fetched (c_name c)) (ret Confirm)))" for b
    by (intro spends_if spends_thenA [OF spends_already_have t(1)] spends_thenA [OF spends_fetch t(2)]) simp_all
  then show ?thesis
    unfolding secure_def
    by (intro spends_finallyA spends_first(3) spends_last(2) [OF spends_reads(1)] spends_last(1) spends_free h) simp_all
qed

lemma spends_confirm_step: "spends requests (attempt_limit cf) (confirm_step cf n)"
proof -
  let ?h = "\<lambda>e. case e of
            HttpError st \<Rightarrow> (if retryable st then ret (Again ''HTTP'') else ret (Done (Some (''confirm: HTTP'', False))))
          | Transport \<Rightarrow> ret (Again ''transport'')
          | _ \<Rightarrow> raise e"
  have h: "spends requests 0 (?h e)" for e
    by (cases e) (simp_all add: spends_free)
  have "spends requests 1 (catchA
         (bindA (send (PostDone n)) (\<lambda>r.
            if status r = 200 then ret (Done None)
            else if retryable (status r) then ret (Again ''HTTP'')
            else ret (Done (Some (''confirm: HTTP'', False))))) ?h)"
    by (intro spends_first(3) spends_first(1) spends_send spends_if spends_free h)
  from spends_attempts [OF this, of cf] have "spends requests (attempt_limit cf) (confirm_chunk cf n)"
    unfolding confirm_chunk_def by (intro spends_first(1)) (auto intro!: spends_case_sum spends_free)
  then show ?thesis
    unfolding confirm_step_def record_failure_def
    by (rule spends_first(1)) (auto intro!: spends_case_option spends_prims split: prod.split)
qed

lemma spends_collect_chunks: "spends requests (3 * attempt_limit cf * length cs) (collect_chunks cf cs)"
proof (induction cs)
  case Nil
  then show ?case by (simp add: spends_free)
next
  case (Cons c cs)
  let ?n = "attempt_limit cf" and ?k = "3 * attempt_limit cf * length cs"
  have "spends requests (?n + ?k) (case m of Confirm \<Rightarrow> thenA (confirm_step cf (c_name c)) (collect_chunks cf cs)
        | Skip \<Rightarrow> collect_chunks cf cs | Stop \<Rightarrow> ret ())" for m
    by (cases m) (simp_all add: spends_thenA [OF spends_confirm_step Cons] spends_le [OF Cons] spends_free)
  then show ?case
    unfolding collect_chunks.simps
    by (intro spends_last(2) spends_prims spends_bindA [OF spends_secure, where j = "?n + ?k"]) simp_all
qed

lemma spends_index: "spends requests (attempt_limit cf) (index cf)"
proof -
  let ?h = "\<lambda>e. case e of
          HttpError st \<Rightarrow> (if retryable st then ret (Again ''HTTP'') else raise (Unreachable ''HTTP'' False))
        | Transport \<Rightarrow> ret (Again ''transport'')
        | _ \<Rightarrow> raise e"
  have h: "spends requests 0 (?h e :: (string \<times> json) list verdict step)" for e
    by (cases e) (simp_all add: spends_free)
  have r: "spends requests 0 (read_all a)" for a
    by (simp add: read_all_def Let_def spends_free split: length_header.split)
  have "spends requests 1 (fetch_index cf)"
    unfolding fetch_index_def
    by (intro spends_first(3) spends_first(1) [OF spends_send] spends_first(1) [OF r] h)
       (auto intro!: spends_free split: option.split json.split)
  from spends_attempts [OF this, of cf] have a: "spends requests (attempt_limit cf) (attempts cf (fetch_index cf))" by simp
  have m: "spends requests 0 (modify (\<lambda>w. w\<lparr>index_problems := p\<rparr>))" "spends requests 0 (modify (\<lambda>w. w\<lparr>device := d\<rparr>))" for p d
    by (simp_all add: spends_def modify_def)
  show ?thesis
    unfolding index_def Let_def
    by (intro spends_last(2) m spends_first(1) a)
       (auto intro!: spends_case_sum spends_free spends_last(2) spends_whenA m split: prod.split)
qed

text \<open>
  C12: a pass comes to an end.  With \<open>n\<close> attempts allowed, the index costs at most \<open>n\<close> requests and
  each chunk it lists at most \<open>3 n\<close>, whatever is answered: two for each attempt to fetch it, one for
  each attempt to confirm it.
\<close>

theorem requests_bounded:
  assumes "index cf (w\<lparr>out := new_outcome, unreachable := False, offline := False\<rparr>) = (r, u)"
  shows "requests (snd (collect cf w)) \<le> requests w +
     attempt_limit cf * (1 + 3 * (case r of Inl e \<Rightarrow> 0 | Inr cs \<Rightarrow> length cs))"
proof -
  define w0 where "w0 = w\<lparr>out := new_outcome, unreachable := False, offline := False\<rparr>"
  have u: "requests u \<le> requests w + attempt_limit cf" using spendsD [OF spends_index assms] by simp
  obtain q v where v: "collect_inner cf w0 = (q, v)" by (cases "collect_inner cf w0")
  have s: "requests (snd (collect cf w)) = requests v"
    unfolding collect_result w0_def [symmetric] v by (simp split: sum.split exn.split)
  have "requests v \<le> requests u + 3 * attempt_limit cf * (case r of Inl e \<Rightarrow> 0 | Inr cs \<Rightarrow> length cs)"
  proof (cases r)
    case (Inl e)
    with v assms have "sent v = sent u"
      by (cases e) (auto simp: collect_inner_def bindA_def catchA_def thenA_def modify_def ret_def raise_def w0_def)
    then show ?thesis by (simp add: Inl)
  next
    case (Inr cs)
    define u1 where "u1 = u\<lparr>out := (out u)\<lparr>o_device := name_of cf u, failed := failed (out u) @ index_problems u\<rparr>\<rparr>"
    have "collect_chunks cf cs u1 = (q, v)"
      using v assms Inr by (simp add: collect_inner_def bindA_def catchA_def thenA_def modify_def ret_def u1_def w0_def)
    from spendsD [OF spends_collect_chunks this] show ?thesis by (simp add: Inr u1_def)
  qed
  with u s show ?thesis by (simp add: algebra_simps)
qed


end
