(* ===== verification/CollectorResume.thy ===== *)
theory CollectorResume
  imports CollectorReport
begin

text \<open>
  Resumed downloads: the bytes of a partial file are continued, never spliced with those of another
  file.  A small device whose passes can be evaluated closes the theory; the collector's properties
  are applied to it.
\<close>


section \<open>Resuming\<close>

lemma disk_ok_frame: "\<exists>ok bs. disk_ok w = (Inr ok, w\<lparr>disk := bs\<rparr>)"
proof (cases "disk w")
  case Nil
  then have "disk_ok w = (Inr True, w\<lparr>disk := []\<rparr>)" by (simp add: disk_ok_def)
  then show ?thesis by blast
next
  case (Cons b bs)
  then have "disk_ok w = (Inr b, w\<lparr>disk := bs\<rparr>)" by (simp add: disk_ok_def)
  then show ?thesis by blast
qed

lemma noted_first: "thenA (note_transfer f) m w = m (w\<lparr>transfer := f (transfer w)\<rparr>)"
  by (simp add: thenA_def bindA_def note_transfer_def modify_def)

lemma contents_Some: "fs p \<noteq> None \<Longrightarrow> fs p = Some (contents fs p)"
  by (auto simp: contents_def)

text \<open>Opening the partial: nothing happens to it when it is open, or when the disk refuses.\<close>

lemma open_partial:
  assumes "(if opened then ret True
               else bindA disk_ok (\<lambda>ok.
                 thenA (whenA ok (bindA (gets (\<lambda>w. if app then contents (files w) p else [])) (\<lambda>old. put_file p (Some old))))
                   (ret ok))) w = (x, v)"
  shows "\<exists>ok. x = Inr ok \<and> (\<not> ok \<longrightarrow> \<not> opened \<and> files v = files w) \<and>
     (ok \<longrightarrow> contents (files v) p = (if app \<or> opened then contents (files w) p else []) \<and>
        (if opened then files v = files w else files v p \<noteq> None))"
proof (cases opened)
  case True
  with assms show ?thesis by (auto simp: ret_def)
next
  case False
  obtain ok bs where d: "disk_ok w = (Inr ok, w\<lparr>disk := bs\<rparr>)" using disk_ok_frame by blast
  have "(x, v) = (Inr ok, if ok then w\<lparr>disk := bs, files := (files w)(p := Some (if app then contents (files w) p else []))\<rparr>
      else w\<lparr>disk := bs\<rparr>)"
    using assms False
    by (cases ok; cases app) (simp_all add: d bindA_def thenA_def whenA_def gets_def put_file_def modify_def ret_def contents_def)
  then show ?thesis using False by (simp add: contents_def)
qed

text \<open>The loop, however it ends: a file that was never opened is as it was; an opened one was
  opened under a matching seam, and holds what it held (or nothing, where the reply replaces it)
  and the first \<open>k\<close> bytes that follow the seam.  A loop that reads the whole body keeps all of them.\<close>

definition pulled :: "path \<Rightarrow> bool \<Rightarrow> nat \<Rightarrow> bytes \<Rightarrow> bool \<Rightarrow> bytes \<Rightarrow> bytes \<Rightarrow> world \<Rightarrow> pull_end \<Rightarrow> bytes \<Rightarrow> bool \<Rightarrow> world \<Rightarrow> bool" where
  "pulled p app overlap expected opened seen body w how seen' opened' v \<longleftrightarrow>
     (opened \<longrightarrow> opened') \<and> (\<not> opened' \<longrightarrow> files v p = files w p) \<and>
     (\<exists>k. (opened' \<longrightarrow> take overlap (seen @ body) = expected \<and> files v p \<noteq> None \<and>
            contents (files v) p = (if app \<or> opened then contents (files w) p else []) @ take k (drop (overlap - length seen) body)) \<and>
          (how = Whole \<longrightarrow> seen' = take overlap (seen @ body) \<and> (length seen' = overlap \<longrightarrow> seen' = expected) \<and>
            (if opened' then length (drop (overlap - length seen) body) \<le> k else drop (overlap - length seen) body = [])))"

lemma pull_files:
  "pull p app overlap expected bs got seen opened w = (r, v) \<Longrightarrow> length seen \<le> overlap \<Longrightarrow>
   (length seen = overlap \<Longrightarrow> seen = expected) \<Longrightarrow> (opened \<Longrightarrow> length seen = overlap \<and> files w p \<noteq> None) \<Longrightarrow>
   \<exists>how got' seen' opened'. r = Inr (how, got', seen', opened') \<and>
     pulled p app overlap expected opened seen (concat bs) w how seen' opened' v"
proof (induction p app overlap expected bs got seen opened arbitrary: w rule: pull.induct)
  case (1 p app overlap expected got seen opened)
  then have "r = Inr (Whole, got, seen, opened)" "v = w" by (simp_all add: ret_def)
  with 1 show ?case by (auto simp: pulled_def)
next
  case (2 p app overlap expected b bs got seen opened)
  define seen2 where "seen2 = seen @ take (overlap - length seen) b"
  define data where "data = drop (overlap - length seen) b"
  define w1 where "w1 = w\<lparr>transfer := (transfer w)\<lparr>wire := wire (transfer w) + length b\<rparr>\<rparr>"
  have w1: "files w1 = files w" by (simp add: w1_def)
  have len2: "length seen2 \<le> overlap" using "2.prems"(2) by (simp add: seen2_def)
  have cat: "take overlap (seen2 @ concat bs) = take overlap (seen @ concat (b # bs))"
    using "2.prems"(2) by (cases "length b \<le> overlap - length seen") (simp_all add: seen2_def)
  have rest: "drop (overlap - length seen) (concat (b # bs)) = data @ drop (overlap - length seen2) (concat bs)"
    using "2.prems"(2) by (cases "length b \<le> overlap - length seen") (simp_all add: data_def seen2_def)
  let ?open = "if opened then ret True
               else bindA disk_ok (\<lambda>ok.
                 thenA (whenA ok (bindA (gets (\<lambda>w. if app then contents (files w) p else [])) (\<lambda>old. put_file p (Some old))))
                   (ret ok))"
  let ?put = "\<lambda>ok. if \<not> ok then ret (NoSpace, got + length b, seen2, True)
          else
            thenA (bindA (gets (\<lambda>w. contents (files w) p)) (\<lambda>old. put_file p (Some (old @ data))))
            (thenA (note_transfer (\<lambda>t. t\<lparr>stored := stored t + length data\<rparr>))
              (pull p app overlap expected bs (got + length b) seen2 True))"
  have step: "(if 0 < overlap - length seen \<and> length seen2 = overlap \<and> seen2 \<noteq> expected
      then ret (Differs, got + length b, seen2, opened)
      else if data = [] then pull p app overlap expected bs (got + length b) seen2 opened
      else bindA ?open (\<lambda>ok. if \<not> ok then ret (NoSpace, got + length b, seen2, False) else bindA disk_ok ?put)) w1 = (r, v)"
    using "2.prems"(1) unfolding pull.simps Let_def noted_first seen2_def data_def w1_def by assumption
  show ?case
  proof (cases "0 < overlap - length seen \<and> length seen2 = overlap \<and> seen2 \<noteq> expected")
    case True
    with step have "r = Inr (Differs, got + length b, seen2, opened)" "v = w1" by (simp_all add: ret_def)
    moreover have "\<not> opened" using True "2.prems"(4) by auto
    then have "pulled p app overlap expected opened seen (concat (b # bs)) w Differs seen2 opened w1"
      using w1 by (simp add: pulled_def)
    ultimately show ?thesis by blast
  next
    case same: False
    have agree: "seen2 = expected" if "length seen2 = overlap"
      using same that "2.prems"(2,3) by (cases "length seen = overlap") (auto simp: seen2_def)
    show ?thesis
    proof (cases "data = []")
      case True
      have "pull p app overlap expected bs (got + length b) seen2 opened w1 = (r, v)"
        by (rule step [unfolded if_not_P [OF same] if_P [OF True]])
      from "2.IH"(1) [OF refl refl refl refl same [unfolded seen2_def] True [unfolded data_def] this [unfolded seen2_def]
          len2 [unfolded seen2_def] agree [unfolded seen2_def], folded seen2_def]
      obtain how got' seen' opened' where "r = Inr (how, got', seen', opened')"
        "pulled p app overlap expected opened seen2 (concat bs) w1 how seen' opened' v"
        using "2.prems"(4) w1 True by (auto simp: seen2_def data_def)
      then show ?thesis unfolding pulled_def cat rest True w1 append_Nil by blast
    next
      case data: False
      then have full: "length seen2 = overlap" using "2.prems"(2) by (auto simp: seen2_def data_def)
      have seam: "take overlap (seen @ concat (b # bs)) = expected"
        using agree [OF full] cat full by simp
      obtain x w2 where o: "?open w1 = (x, w2)" by (cases "?open w1")
      from open_partial [OF o, unfolded w1] obtain ok where x: "x = Inr ok" and no: "\<not> ok \<longrightarrow> \<not> opened \<and> files w2 = files w"
        and yes: "ok \<longrightarrow> contents (files w2) p = (if app \<or> opened then contents (files w) p else []) \<and>
          (if opened then files w2 = files w else files w2 p \<noteq> None)"
        by blast
      note bind = step [unfolded if_not_P [OF same] if_not_P [OF data] bindA_def [of ?open] o x prod.case sum.case]
      show ?thesis
      proof (cases ok)
        case False
        with bind have "r = Inr (NoSpace, got + length b, seen2, False)" "v = w2" by (simp_all add: ret_def)
        moreover have "pulled p app overlap expected opened seen (concat (b # bs)) w NoSpace seen2 False w2"
          using no False by (simp add: pulled_def)
        ultimately show ?thesis by blast
      next
        case True
        have there: "files w2 p \<noteq> None" using yes True "2.prems"(4) by (cases opened) simp_all
        obtain ok2 bs2 where d: "disk_ok w2 = (Inr ok2, w2\<lparr>disk := bs2\<rparr>)" using disk_ok_frame by blast
        have put: "?put ok2 (w2\<lparr>disk := bs2\<rparr>) = (r, v)" using bind True d by (simp add: bindA_def)
        show ?thesis
        proof (cases ok2)
          case False
          with put have "r = Inr (NoSpace, got + length b, seen2, True)" "v = w2\<lparr>disk := bs2\<rparr>" by (simp_all add: ret_def)
          moreover have "pulled p app overlap expected opened seen (concat (b # bs)) w NoSpace seen2 True (w2\<lparr>disk := bs2\<rparr>)"
            unfolding pulled_def using seam there yes True by (intro conjI exI [of _ "0 :: nat"]) simp_all
          ultimately show ?thesis by blast
        next
          case ok2: True
          define w4 where "w4 = w2\<lparr>disk := bs2, files := (files w2)(p := Some (contents (files w2) p @ data)),
             transfer := (transfer w2)\<lparr>stored := stored (transfer w2) + length data\<rparr>\<rparr>"
          have r: "pull p app overlap expected bs (got + length b) seen2 True w4 = (r, v)"
            using put ok2 by (simp add: thenA_def bindA_def gets_def put_file_def note_transfer_def modify_def w4_def)
          have w4: "contents (files w4) p = contents (files w2) p @ data" "files w4 p \<noteq> None"
            by (simp_all add: w4_def contents_def)
          from "2.IH"(2) [OF refl refl refl refl same [unfolded seen2_def] data [unfolded data_def] _ _ r [unfolded seen2_def]
              len2 [unfolded seen2_def] agree [unfolded seen2_def], folded seen2_def, of True True] w4(2) full
          obtain how got' seen' opened' where ih: "r = Inr (how, got', seen', opened')"
            "pulled p app overlap expected True seen2 (concat bs) w4 how seen' opened' v" by blast
          have o': "opened'" using ih(2) by (simp add: pulled_def)
          from ih(2) [unfolded pulled_def] obtain k where k: "files v p \<noteq> None"
            "contents (files v) p = contents (files w4) p @ take k (drop (overlap - length seen2) (concat bs))"
            "how = Whole \<longrightarrow> seen' = take overlap (seen2 @ concat bs) \<and> (length seen' = overlap \<longrightarrow> seen' = expected) \<and>
              length (drop (overlap - length seen2) (concat bs)) \<le> k"
            by (simp only: o' simp_thms if_True) blast
          have base: "contents (files w2) p = (if app \<or> opened then contents (files w) p else [])" using yes True by blast
          have held: "contents (files v) p = (if app \<or> opened then contents (files w) p else []) @
              take (length data + k) (data @ drop (overlap - length seen2) (concat bs))"
            unfolding k(2) w4(1) base append_assoc by simp
          have whole: "how = Whole \<longrightarrow> seen' = take overlap (seen @ concat (b # bs)) \<and> (length seen' = overlap \<longrightarrow> seen' = expected) \<and>
              length (data @ drop (overlap - length seen2) (concat bs)) \<le> length data + k"
            using k(3) unfolding cat by (simp only: length_append nat_add_left_cancel_le)
          have "pulled p app overlap expected opened seen (concat (b # bs)) w how seen' opened' v"
            unfolding pulled_def rest using o' k(1) held whole seam by (simp only: simp_thms if_True) blast
          with ih(1) show ?thesis by blast
        qed
      qed
    qed
  qed
qed

text \<open>Reading the window that a resume is compared with: the file is as it was, whatever happens.\<close>

lemma read_window:
  assumes "thenA (whenA app (note_transfer f)) (thenA (whenA (k \<noteq> 0) read_ok) m) w = (res, v)"
  shows "(files v = files w \<and> res \<noteq> Inr a) \<or> (\<exists>u. files u = files w \<and> m u = (res, v))"
proof -
  define u where "u = (if app then w\<lparr>transfer := f (transfer w)\<rparr> else w)"
  have u: "files u = files w" "thenA (whenA (k \<noteq> 0) read_ok) m u = (res, v)"
    using assms by (simp_all add: u_def whenA_def [of app] noted_first thenA_def [of "ret _"] bindA_def [of "ret _"] ret_def split: if_splits)
  obtain ok bs where d: "disk_ok u = (Inr ok, u\<lparr>disk := bs\<rparr>)" using disk_ok_frame by metis
  show ?thesis
  proof (cases "k = 0")
    case True
    with u show ?thesis by (auto simp: whenA_def thenA_def bindA_def ret_def)
  next
    case False
    with u d show ?thesis
      by (cases ok) (auto simp: whenA_def thenA_def bindA_def read_ok_def raise_def ret_def intro!: exI [of _ "u\<lparr>disk := bs\<rparr>"])
  qed
qed

text \<open>A download of a partial reaches the loop over the blocks with the file as it was, or ends before.\<close>

lemma download_pull:
  assumes dl: "download c p (length old) w = (res, v)" and old: "files w p = Some old" "old \<noteq> []"
    and s: "script w = Answer r # rest"
  defines "k \<equiv> if status r \<noteq> 206 then 0 else min (length old) SEAM_WINDOW"
  shows "(files v = files w \<and> res \<noteq> Inr ()) \<or>
    (\<exists>u how got seen opened u'. files u = files w \<and> files v = files u' \<and> (res = Inr () \<longrightarrow> how = Whole \<and> k \<le> length seen) \<and>
      pull p (status r = 206) k (take k (drop (length old - k) old)) (reads r) 0 [] False u = (Inr (how, got, seen, opened), u'))"
proof (cases "open_reply (Answer r)")
  case (Inl e)
  with dl s show ?thesis by (auto simp: download_def Let_def bindA_def send_def)
next
  case (Inr r')
  then have r': "r' = r" by (auto simp: open_reply_def split: if_splits)
  define w1 where "w1 = w\<lparr>sent := sent w @ [(GetFile (c_name c) (Some (length old - min (length old) SEAM_WINDOW, None)), files w)],
     script := rest\<rparr>"
  define K :: "int option \<Rightarrow> pull_end \<times> nat \<times> bytes \<times> bool \<Rightarrow> unit step" where "K pr = (\<lambda>(how, got, seen, opened).
       bindA (if opened then disk_ok else ret True) (\<lambda>ok.
         if \<not> ok then raise (ArchiveError ''cannot write'')
         else
           (case how of
              Differs \<Rightarrow> raise (Mismatch ''the bytes under the resume point differ'')
            | NoSpace \<Rightarrow> raise (ArchiveError ''cannot write'')
            | Whole \<Rightarrow>
                (if breaks_off r then raise Transport
                 else if k \<noteq> 0 \<and> length seen < k then raise (Interrupted ''inside the resume window'')
                 else if pr \<noteq> None \<and> int got < the pr then raise (Interrupted ''body ended'')
                 else ret ()))))" for pr
  define M where "M pr = bindA (gets (\<lambda>w. take k (drop (length old - k) (contents (files w) p))))
       (\<lambda>expected. bindA (pull p (status r = 206) k expected (reads r) 0 [] False) (K pr))" for pr
  have run: "bindA (promised r) (\<lambda>pr. thenA (whenA (status r = 206) (note_transfer (\<lambda>t. t\<lparr>resumed := True\<rparr>)))
      (thenA (whenA (k \<noteq> 0) read_ok) (M pr))) w1 = (res, v)"
    using dl s Inr old(2) unfolding K_def M_def k_def
    by (cases "status r = 206") (simp_all add: download_def Let_def bindA_def [of "send _"] send_def r' w1_def [symmetric])
  obtain px where px: "promised r w1 = (px, w1)" by (cases "promise r") (auto simp: promised_def ret_def raise_def)
  have f1: "files w1 = files w" by (simp add: w1_def)
  have K: "files v = files u' \<and> (res = Inr () \<longrightarrow> how = Whole \<and> k \<le> length seen)"
    if "K pr (how, got, seen, opened) u' = (res, v)" for pr how got seen opened u'
  proof -
    obtain ok bs where "disk_ok u' = (Inr ok, u'\<lparr>disk := bs\<rparr>)" using disk_ok_frame by blast
    with that show ?thesis
      by (auto simp: K_def bindA_def ret_def raise_def not_less split: if_splits pull_end.splits)
  qed
  show ?thesis
  proof (cases px)
    case (Inl e)
    with run px f1 show ?thesis by (auto simp: bindA_def)
  next
    case (Inr pr)
    with run px have "thenA (whenA (status r = 206) (note_transfer (\<lambda>t. t\<lparr>resumed := True\<rparr>)))
      (thenA (whenA (k \<noteq> 0) read_ok) (M pr)) w1 = (res, v)" by (simp add: bindA_def)
    from read_window [OF this, of "()"] f1 consider "files v = files w" "res \<noteq> Inr ()" | u where "files u = files w" "M pr u = (res, v)"
      by auto
    then show ?thesis
    proof cases
      case 2
      obtain y u' where pu: "pull p (status r = 206) k (take k (drop (length old - k) old)) (reads r) 0 [] False u = (y, u')"
        by (metis surj_pair)
      have exp: "take k (drop (length old - k) old) = []" if "k = 0" using that by simp
      from pull_files [OF pu] exp obtain how got seen opened where y: "y = Inr (how, got, seen, opened)"
        by (cases "k = 0") auto
      have "K pr (how, got, seen, opened) u' = (res, v)"
        using 2(2) pu y old(1) 2(1) by (simp add: M_def bindA_def gets_def contents_def)
      with K pu y 2(1) show ?thesis by blast
    qed simp
  qed
qed



section \<open>A small device\<close>

definition try_env :: env where
  "try_env = \<lparr>hostname = Some ''car'', pinned = False, expect = None, retries = 1,
     loads = (\<lambda>b. if b = [1] then Some (JObj [(''device'', JStr ''dev''), (''chunks'', JArr [JObj [(''name'', JStr ''a'')]])])
                  else Some (JObj [(''sha256'', JStr (text_of_bytes (butlast b)))])),
     too_deep = (\<lambda>_. False),
     dumps = (\<lambda>j. case j of JObj kvs \<Rightarrow> (case jget kvs ''sha256'' of JStr s \<Rightarrow> map (\<lambda>c. word_of_nat (of_char c)) s | _ \<Rightarrow> []) | _ \<Rightarrow> []),
     str_of = (\<lambda>j. case j of JStr s \<Rightarrow> s | _ \<Rightarrow> []), sha256 = text_of_bytes, now = ''now''\<rparr>"

definition answer :: "int \<Rightarrow> bytes \<Rightarrow> reply" where
  "answer st body = Answer \<lparr>status = st, promise = Length (int (length body)), blocks = [body], breaks = False\<rparr>"

definition try_world :: "reply list \<Rightarrow> archive \<Rightarrow> world" where
  "try_world rs fs = \<lparr>script = rs, disk = [], files = fs, sent = [], naps = [], device = [], unreachable = False,
     offline = False, index_problems = [], transfer = new_transfer, out = new_outcome\<rparr>"

definition try_chunk :: bytes where
  "try_chunk = [35,115,100,108,111,103,44,50,44,49,44,64,48,44,120,10,35,99,108,111,115,101,44,64,49,44,114,10]"

lemma text_bytes [simp]: "text_of_bytes (map (\<lambda>c. word_of_nat (of_char c)) s) = s"
  by (induction s) (simp_all add: text_of_bytes_def unat_of_nat)

lemma try_json: "json_ok try_env"
  unfolding json_ok_def
proof (intro allI impI)
  fix kvs s
  assume "jget kvs ''sha256'' = JStr s"
  then have d: "dumps try_env (JObj kvs) = map (\<lambda>c. word_of_nat (of_char c)) s" by (simp add: try_env_def)
  show "\<exists>kvs'. loads try_env (dumps try_env (JObj kvs) @ [10]) = Some (JObj kvs') \<and> jget kvs' ''sha256'' = JStr s"
    unfolding d by (simp add: try_env_def jget_def append_eq_Cons_conv)
qed

lemma fst_imageE: "x \<in> fst ` S \<Longrightarrow> (\<And>y. (x, y) \<in> S \<Longrightarrow> P) \<Longrightarrow> P"
  by auto

definition try_pass :: world where
  "try_pass = try_world [answer 200 [1], answer 200 try_chunk, answer 200 []] (\<lambda>_. None)"

lemma try_pass_requests:
  "map fst (sent (snd (collect try_env try_pass))) = [GetIndex, GetFile ''a'' None, PostDone ''a'']"
  by code_simp

theorem confirm_only_archived_witness:
  "\<exists>fs. (PostDone ''a'', fs) \<in> set (sent (snd (collect try_env try_pass))) \<and>
     archived_in try_env fs (name_of try_env (snd (collect try_env try_pass))) ''a''"
proof -
  have "PostDone ''a'' \<in> fst ` set (sent (snd (collect try_env try_pass)))"
    using arg_cong [OF try_pass_requests, of set] by (simp only: set_map) simp
  then obtain fs where fs: "(PostDone ''a'', fs) \<in> set (sent (snd (collect try_env try_pass)))"
    by (rule fst_imageE)
  have "sent try_pass = []" by (simp add: try_pass_def try_world_def)
  from confirm_only_archived [OF try_json this fs] fs show ?thesis by (intro exI conjI)
qed


lemma try_refused_requests: "map fst (sent (snd (collect try_env (try_world [answer 401 []] (\<lambda>_. None))))) = [GetIndex]"
  by code_simp

theorem refused_is_last_witness:
  "Suc 0 = length (sent (snd (collect try_env (try_world [answer 401 []] (\<lambda>_. None)))))"
proof -
  define w where "w = try_world [answer 401 []] (\<lambda>_. None)"
  have w: "sent w = []" "length (script w) = 1" "refusing (script w ! 0)"
    by (simp_all add: w_def try_world_def answer_def refusing_def)
  have "length (map fst (sent (snd (collect try_env w)))) = 1"
    unfolding w_def try_refused_requests by simp
  then have n: "0 < length (sent (snd (collect try_env w)))" unfolding length_map by linarith
  have len: "length (sent (snd (collect try_env w))) = length (sent w) + length (sent (snd (collect try_env w)))"
    unfolding w(1) by simp
  have "0 < length (script w)" unfolding w(2) by simp
  from refused_is_last [OF len n this w(3)] show ?thesis unfolding w_def .
qed

lemma try_index_value: "fst (index try_env try_pass) = Inr [\<lparr>c_name = ''a'', c_seq = 0, c_size = 0, c_first = None, c_last = None\<rparr>]"
  by code_simp

theorem index_is_worklist_witness:
  "\<exists>cs. cs \<noteq> [] \<and> fst (index try_env try_pass) = Inr cs \<and> distinct (map c_name cs)"
proof -
  obtain v where "index try_env try_pass = (Inr [\<lparr>c_name = ''a'', c_seq = 0, c_size = 0, c_first = None, c_last = None\<rparr>], v)"
    using try_index_value by (metis prod.collapse)
  then show ?thesis using index_is_worklist [of try_env try_pass] by fastforce
qed

lemma try_pass_ends: "fst (collect try_env try_pass) = Inr () \<and> exit_status (snd (collect try_env try_pass)) = 0"
  by code_simp

theorem requests_bounded_witness:
  "requests (snd (collect try_env try_pass)) \<le> 4"
proof -
  have w: "try_pass\<lparr>out := new_outcome, unreachable := False, offline := False\<rparr> = try_pass"
    by (simp add: try_pass_def try_world_def)
  obtain v where i: "index try_env try_pass = (Inr [\<lparr>c_name = ''a'', c_seq = 0, c_size = 0, c_first = None, c_last = None\<rparr>], v)"
    using try_index_value by (metis prod.collapse)
  have "requests try_pass = 0" "attempt_limit try_env = 1"
    by (simp_all add: try_pass_def try_world_def attempt_limit_def try_env_def)
  then show ?thesis using requests_bounded [of try_env try_pass] unfolding w i by simp
qed

theorem exit_zero_all_confirmed_witness:
  "\<exists>cs u. index try_env try_pass = (Inr cs, u) \<and> confirmed (out (snd (collect try_env try_pass))) = map c_name cs"
proof -
  have w: "try_pass\<lparr>out := new_outcome, unreachable := False, offline := False\<rparr> = try_pass"
    by (simp add: try_pass_def try_world_def)
  obtain v where v: "collect try_env try_pass = (Inr (), v)"
    using conjunct1 [OF try_pass_ends] by (metis prod.collapse)
  have "exit_status v = 0" using conjunct2 [OF try_pass_ends] unfolding v by simp
  from exit_zero_all_confirmed [OF v this] show ?thesis unfolding w v snd_conv by blast
qed

definition try_resume :: world where
  "try_resume = try_world [answer 206 [1, 2, 3, 4]] (\<lambda>_. Some [1, 2])"

definition try_entry :: chunk_entry where
  "try_entry = \<lparr>c_name = ''a'', c_seq = 0, c_size = 0, c_first = None, c_last = None\<rparr>"

lemma try_resume_ends: "fst (download try_entry (''dev'', ''a.part'') 2 try_resume) = Inr ()"
  by code_simp



end
