(* ===== verification/CollectorErrors.thy ===== *)
theory CollectorErrors
  imports CollectorResume
begin

text \<open>
  The error contract of a pass: which exceptions each step can raise, which its handlers stop, and the
  few that leave \<open>collect\<close>.  The last section evaluates passes that go wrong.
\<close>

section \<open>Which exceptions leave an action\<close>

text \<open>\<open>raises I P m\<close>: from a state with \<open>I\<close>, \<open>m\<close> ends in a state with \<open>I\<close>, and any exception it
  raises satisfies \<open>P\<close>.\<close>

definition raises :: "('w \<Rightarrow> bool) \<Rightarrow> ('e \<Rightarrow> bool) \<Rightarrow> ('w, 'e, 'a) act \<Rightarrow> bool" where
  "raises I P m \<longleftrightarrow> (\<forall>w r v. m w = (r, v) \<longrightarrow> I w \<longrightarrow> I v \<and> (\<forall>e. r = Inl e \<longrightarrow> P e))"

named_theorems raises_intros "the exceptions of composed actions"

lemma raisesI: "(\<And>w r v. m w = (r, v) \<Longrightarrow> I w \<Longrightarrow> I v \<and> (\<forall>e. r = Inl e \<longrightarrow> P e)) \<Longrightarrow> raises I P m"
  unfolding raises_def by blast

lemma raisesD: "raises I P m \<Longrightarrow> m w = (r, v) \<Longrightarrow> I w \<Longrightarrow> I v \<and> (\<forall>e. r = Inl e \<longrightarrow> P e)"
  unfolding raises_def by blast

lemma raises_pure [raises_intros]:
  "raises I P (ret a)" "raises I P (gets f)" "P e \<Longrightarrow> raises I P (raise e)"
  by (simp_all add: raises_def ret_def gets_def raise_def)

lemma raises_modify: "(\<And>w. I w \<Longrightarrow> I (g w)) \<Longrightarrow> raises I P (modify g)"
  by (simp add: raises_def modify_def)

lemma raises_bindA [raises_intros]:
  assumes "raises I P m" and "\<And>a. raises I P (f a)"
  shows "raises I P (bindA m f)"
proof (rule raisesI)
  fix w r v
  assume b: "bindA m f w = (r, v)" and I: "I w"
  obtain x u where m: "m w = (x, u)" by (cases "m w")
  note 1 = raisesD [OF assms(1) m I]
  show "I v \<and> (\<forall>e. r = Inl e \<longrightarrow> P e)"
  proof (cases x)
    case (Inl e)
    with b m 1 show ?thesis by (auto simp: bindA_def)
  next
    case (Inr a)
    with b m have "f a u = (r, v)" by (simp add: bindA_def)
    with raisesD [OF assms(2)] 1 show ?thesis by blast
  qed
qed

lemma raises_thenA [raises_intros]: "raises I P m \<Longrightarrow> raises I P n \<Longrightarrow> raises I P (thenA m n)"
  unfolding thenA_def by (rule raises_bindA)

lemma raises_catchA:
  assumes "raises I Q m" and "\<And>e. Q e \<Longrightarrow> raises I P (h e)"
  shows "raises I P (catchA m h)"
proof (rule raisesI)
  fix w r v
  assume b: "catchA m h w = (r, v)" and I: "I w"
  obtain x u where m: "m w = (x, u)" by (cases "m w")
  note 1 = raisesD [OF assms(1) m I]
  show "I v \<and> (\<forall>e. r = Inl e \<longrightarrow> P e)"
  proof (cases x)
    case (Inr a)
    with b m 1 show ?thesis by (auto simp: catchA_def)
  next
    case (Inl e)
    with b m have "h e u = (r, v)" by (simp add: catchA_def)
    with raisesD [OF assms(2)] 1 Inl show ?thesis by blast
  qed
qed

lemma raises_finallyA: "raises I P m \<Longrightarrow> (\<And>w. I w \<Longrightarrow> I (f w)) \<Longrightarrow> raises I P (finallyA m f)"
  unfolding raises_def finallyA_def by (auto split: prod.splits)

lemma raises_whenA [raises_intros]: "raises I P m \<Longrightarrow> raises I P (whenA b m)"
  by (simp add: whenA_def raises_pure)

lemma raises_if [raises_intros]: "(b \<Longrightarrow> raises I P m) \<Longrightarrow> (\<not> b \<Longrightarrow> raises I P n) \<Longrightarrow> raises I P (if b then m else n)"
  by simp

lemma raises_tries [raises_intros]:
  assumes "\<And>k. raises I P (nap k)" and "raises I P body"
  shows "raises I P (tries nap n k body reason)"
proof (induction n arbitrary: k reason)
  case (Suc n)
  have "raises I P (case v of Done a \<Rightarrow> ret (Inr a) | Again r \<Rightarrow> tries nap n (k + 1) body r)" for v
    by (cases v) (simp_all add: raises_pure Suc)
  then show ?case unfolding tries.simps by (intro raises_intros assms)
qed (simp add: raises_pure)

lemma raises_cases [raises_intros]:
  "raises I P a \<Longrightarrow> (\<And>y. raises I P (f y)) \<Longrightarrow> raises I P (case x of None \<Rightarrow> a | Some y \<Rightarrow> f y)"
  "(\<And>y. s = Inl y \<Longrightarrow> raises I P (g y)) \<Longrightarrow> (\<And>z. s = Inr z \<Longrightarrow> raises I P (h z)) \<Longrightarrow>
    raises I P (case s of Inl y \<Rightarrow> g y | Inr z \<Rightarrow> h z)"
  "(\<And>y z. raises I P (k y z)) \<Longrightarrow> raises I P (case q of (y, z) \<Rightarrow> k y z)"
  by (auto split: option.split sum.split prod.split)

section \<open>The collector's exceptions\<close>

text \<open>A disk of which, when \<open>b\<close> is set, no operation fails.\<close>

definition sound :: "bool \<Rightarrow> world \<Rightarrow> bool" where
  "sound b w \<longleftrightarrow> (b \<longrightarrow> False \<notin> set (disk w))"

text \<open>Exceptions no handler of a pass is meant for; the others by where they are handled.\<close>

fun escapes :: "bool \<Rightarrow> env \<Rightarrow> exn \<Rightarrow> bool" where
  "escapes b cf ValueError = True"
| "escapes b cf TypeError = True"
| "escapes b cf OverflowError = True"
| "escapes b cf OsError = (\<not> b)"
| "escapes b cf RecursionError = (\<exists>t. too_deep cf t)"
| "escapes b cf _ = False"

definition on_wire :: "bool \<Rightarrow> env \<Rightarrow> exn \<Rightarrow> bool" where
  "on_wire b cf e \<longleftrightarrow> e = Transport \<or> (\<exists>st. e = HttpError st) \<or> is_refused e \<or> escapes b cf e"

definition of_attempt :: "bool \<Rightarrow> env \<Rightarrow> exn \<Rightarrow> bool" where
  "of_attempt b cf e \<longleftrightarrow> on_wire b cf e \<or> (\<exists>why. e = Mismatch why \<or> e = Interrupted why \<or> e = ArchiveError why)"

definition of_chunk :: "bool \<Rightarrow> env \<Rightarrow> exn \<Rightarrow> bool" where
  "of_chunk b cf e \<longleftrightarrow> is_refused e \<or> escapes b cf e \<or> (\<exists>why tr. e = ChunkFailed why tr) \<or> (\<exists>why. e = ArchiveError why)"

definition of_pass :: "bool \<Rightarrow> env \<Rightarrow> exn \<Rightarrow> bool" where
  "of_pass b cf e \<longleftrightarrow> is_refused e \<or> escapes b cf e"

lemmas exn_kinds = on_wire_def of_attempt_def of_chunk_def of_pass_def

lemma raises_send: "raises (sound b) (on_wire b cf) (send req)"
  by (auto simp: raises_def send_def Let_def open_reply_def exn_kinds sound_def split: list.splits reply.splits if_splits)

lemma raises_weaken: "raises I P m \<Longrightarrow> (\<And>e. P e \<Longrightarrow> Q e) \<Longrightarrow> raises I Q m"
  by (auto simp: raises_def)

lemma raises_disk_ok [raises_intros]: "raises (sound b) P disk_ok"
  by (auto simp: raises_def disk_ok_def sound_def split: list.splits)

lemma raises_states [raises_intros]:
  "raises (sound b) P (put_file p x)" "raises (sound b) P (nap k)" "raises (sound b) P (note_transfer f)"
  "raises (sound b) P (note_out g)" "raises (sound b) P (modify (\<lambda>w. w\<lparr>device := d\<rparr>))"
  "raises (sound b) P (modify (\<lambda>w. w\<lparr>index_problems := ps\<rparr>))"
  unfolding put_file_def nap_def note_transfer_def note_out_def by (intro raises_modify; simp add: sound_def)+

lemma raises_unlink [raises_intros]: "raises (sound b) P (unlink p)"
  unfolding unlink_def by (intro raises_intros)

text \<open>The disk's own error leaves a read only when the disk fails.\<close>

lemma raises_read_ok: "(\<not> b \<Longrightarrow> P OsError) \<Longrightarrow> raises (sound b) P read_ok"
  by (cases b) (auto simp: raises_def read_ok_def disk_ok_def act_simps sound_def split: list.splits if_splits)

lemma raises_parses: "((\<exists>t. too_deep cf t) \<Longrightarrow> P RecursionError) \<Longrightarrow> raises (sound b) P (parses cf p)"
  by (auto simp: raises_def parses_def act_simps split: if_splits option.splits)

lemma raises_archive [raises_intros]: "raises (sound b) P m \<Longrightarrow> P (ArchiveError why) \<Longrightarrow> raises (sound b) P (or_archive_error why m)"
  unfolding or_archive_error_def by (intro raises_intros)

lemma raises_promised: "P ValueError \<Longrightarrow> raises (sound b) P (promised r)"
  by (auto simp: promised_def intro!: raises_intros split: length_header.split)

lemma raises_attempts [raises_intros]: "raises (sound b) P body \<Longrightarrow> raises (sound b) P (attempts cf body)"
  unfolding attempts_def by (intro raises_intros)

lemmas raises_reads = raises_read_ok raises_parses raises_promised

lemma raises_probe: "raises (sound b) (of_attempt b cf) (probe_head c n)"
  unfolding probe_head_def Let_def
  by (intro raises_intros raises_promised raises_weaken [OF raises_send]) (auto simp: exn_kinds)

lemma raises_prove: "raises (sound b) (of_attempt b cf) (prove_local c p)"
  unfolding prove_local_def Let_def by (intro raises_intros raises_probe raises_reads) (auto simp: exn_kinds)

lemma raises_handler:
  "(\<And>why. e = Mismatch why \<Longrightarrow> raises I Q (a why)) \<Longrightarrow> (\<And>why. e = Interrupted why \<Longrightarrow> raises I Q (b why)) \<Longrightarrow>
   (\<And>st. e = HttpError st \<Longrightarrow> raises I Q (c st)) \<Longrightarrow> (e = Transport \<Longrightarrow> raises I Q d) \<Longrightarrow>
   (\<And>why tr. e = ChunkFailed why tr \<Longrightarrow> raises I Q (f why tr)) \<Longrightarrow> (\<And>why. e = ArchiveError why \<Longrightarrow> raises I Q (g why)) \<Longrightarrow>
   (\<And>why. e = Refused why \<Longrightarrow> raises I Q (h why)) \<Longrightarrow> (\<And>why off. e = Unreachable why off \<Longrightarrow> raises I Q (k why off)) \<Longrightarrow>
   (e = ValueError \<Longrightarrow> raises I Q l) \<Longrightarrow> (e = TypeError \<Longrightarrow> raises I Q m) \<Longrightarrow> (e = OverflowError \<Longrightarrow> raises I Q n) \<Longrightarrow>
   (e = OsError \<Longrightarrow> raises I Q q) \<Longrightarrow> (e = RecursionError \<Longrightarrow> raises I Q u) \<Longrightarrow>
   raises I Q (case e of Mismatch why \<Rightarrow> a why | Interrupted why \<Rightarrow> b why | HttpError st \<Rightarrow> c st | Transport \<Rightarrow> d
     | ChunkFailed why tr \<Rightarrow> f why tr | ArchiveError why \<Rightarrow> g why | Refused why \<Rightarrow> h why | Unreachable why off \<Rightarrow> k why off
     | ValueError \<Rightarrow> l | TypeError \<Rightarrow> m | OverflowError \<Rightarrow> n | OsError \<Rightarrow> q | RecursionError \<Rightarrow> u)"
  by (cases e) simp_all

lemma raises_defect [raises_intros]: "(\<And>tr. P (ChunkFailed why tr)) \<Longrightarrow> raises (sound b) P (defect why)"
  unfolding defect_def by (intro raises_intros)

lemma raises_already_have: "raises (sound b) (of_chunk b cf) (already_have cf c)"
proof -
  have "raises (sound b) (of_attempt b cf) (thenA (prove_local c p) (ret (Done ())))" for p
    by (intro raises_intros raises_prove)
  note catch = raises_catchA [OF this]
  show ?thesis
    unfolding already_have_def
    by (intro raises_intros raises_reads catch raises_handler) (auto simp: exn_kinds intro!: raises_intros)
qed

lemma raises_pull: "raises (sound b) P (pull p app overlap expected bs got seen opened)"
  by (induction p app overlap expected bs got seen opened rule: pull.induct)
    (auto simp: Let_def intro!: raises_intros)

lemma raises_download: "raises (sound b) (of_attempt b cf) (download c p offset)"
  unfolding download_def Let_def
  by (intro raises_intros raises_reads raises_pull raises_weaken [OF raises_send])
    (auto simp: exn_kinds intro!: raises_intros split: pull_end.split)

lemma raises_fetch_attempt: "raises (sound b) (of_chunk b cf) (fetch_attempt cf c p)"
proof -
  have "raises (sound b) (of_attempt b cf)
         (if offset \<noteq> 0
          then thenA (prove_local c p)
                 (if c_size c \<noteq> 0 \<and> int offset = c_size c then ret (Done ())
                  else thenA (download c p offset) (ret (Done ())))
          else thenA (download c p offset) (ret (Done ())))" for offset
    by (intro raises_intros raises_prove raises_download)
  note catch = raises_catchA [OF this]
  show ?thesis
    unfolding fetch_attempt_def
    by (intro raises_intros catch raises_handler) (auto simp: exn_kinds intro!: raises_intros)
qed

lemma json_int_escapes: "json_int v = Inl e \<Longrightarrow> escapes b cf e"
  by (induction v rule: json_int.induct) (auto split: option.splits)

lemma raises_torn_sighting: "raises (sound b) (of_chunk b cf) (torn_sighting cf c p r)"
  unfolding torn_sighting_def Let_def drop_candidate_def
  by (intro raises_intros raises_reads)
    (auto simp: exn_kinds intro!: raises_intros raises_reads dest: json_int_escapes split: option.splits)

lemma raises_fetch: "raises (sound b) (of_chunk b cf) (fetch cf c)"
proof -
  have chunk: "of_chunk b cf (ChunkFailed why tr)" for why tr by (simp add: exn_kinds)
  have disk: "of_chunk b cf (ArchiveError why)" for why by (simp add: exn_kinds)
  have j: "raises (sound b) (of_chunk b cf) (judge cf c p)" for p
    unfolding judge_def
    by (intro raises_intros) (auto simp: chunk split: prod.split intro!: raises_intros raises_torn_sighting)
  have st: "raises (sound b) (of_chunk b cf) (store_final cf c p final)" for p final
    unfolding store_final_def write_torn_sidecar_def drop_candidate_def
    by (intro raises_intros raises_reads) (simp_all add: exn_kinds)
  have "of_chunk b cf ValueError" by (simp add: exn_kinds)
  then show ?thesis
    unfolding fetch_def
    by (auto simp: chunk disk intro!: raises_intros raises_fetch_attempt j st split: sum.split)
qed

lemma raises_secure: "raises (sound b) (of_pass b cf) (secure cf c)"
proof -
  have "raises (sound b) (of_chunk b cf) (thenA read_ok (bindA (gets (\<lambda>w. files w (archive_path cf w (c_name c)) \<noteq> None)) (\<lambda>have_it.
            if have_it
            then thenA (already_have cf c)
                   (thenA (note_out (\<lambda>q. q\<lparr>skipped := skipped q @ [c_name c]\<rparr>)) (ret Confirm))
            else thenA (fetch cf c) (thenA (note_fetched (c_name c)) (ret Confirm)))))"
    unfolding note_fetched_def
    by (intro raises_intros raises_read_ok raises_already_have raises_fetch) (simp add: exn_kinds)
  note catch = raises_catchA [OF this]
  show ?thesis
    unfolding secure_def record_failure_def
    by (intro raises_finallyA raises_intros catch raises_handler) (auto simp: exn_kinds sound_def intro!: raises_intros)
qed

lemma raises_confirm: "raises (sound b) (of_pass b cf) (confirm_step cf n)"
proof -
  have "raises (sound b) (on_wire b cf) (bindA (send (PostDone n)) (\<lambda>r.
            if status r = 200 then ret (Done None)
            else if retryable (status r) then ret (Again ''HTTP'')
            else ret (Done (Some (''confirm: HTTP'', False)))))"
    by (intro raises_intros raises_send)
  note catch = raises_catchA [OF this]
  have "raises (sound b) (of_pass b cf) (confirm_chunk cf n)"
    unfolding confirm_chunk_def
    by (intro raises_intros catch raises_handler) (auto simp: exn_kinds intro!: raises_intros)
  then show ?thesis
    unfolding confirm_step_def record_failure_def by (auto intro!: raises_intros)
qed

lemma raises_chunks: "raises (sound b) (of_pass b cf) (collect_chunks cf cs)"
  by (induction cs) (auto intro!: raises_intros raises_secure raises_confirm split: next_move.split)

definition of_index :: "bool \<Rightarrow> env \<Rightarrow> exn \<Rightarrow> bool" where
  "of_index b cf e \<longleftrightarrow> of_pass b cf e \<or> (\<exists>why off. e = Unreachable why off)"

lemma raises_index: "raises (sound b) (of_index b cf) (index cf)"
proof -
  let ?E = "\<lambda>e. on_wire b cf e \<or> (\<exists>why off. e = Unreachable why off)"
  have "raises (sound b) ?E (bindA (send GetIndex) (\<lambda>r. bindA (read_all r) (\<lambda>body.
          if too_deep cf body then raise RecursionError
          else
            (case loads cf body of
               None \<Rightarrow> raise (Unreachable ''the reply is not JSON'' False)
             | Some (JObj kvs) \<Rightarrow> ret (Done kvs)
             | Some _ \<Rightarrow> raise (Unreachable ''the index is not a JSON object'' False)))))"
    unfolding read_all_def Let_def
    by (intro raises_intros raises_weaken [OF raises_send])
      (auto simp: exn_kinds intro!: raises_intros split: length_header.split json.split)
  note catch = raises_catchA [OF this]
  have "raises (sound b) (of_index b cf) (fetch_index cf)"
    unfolding fetch_index_def
    by (intro raises_intros catch raises_handler) (auto simp: exn_kinds of_index_def intro!: raises_intros)
  then show ?thesis
    unfolding index_def Let_def
    by (intro raises_intros) (auto simp: exn_kinds of_index_def intro!: raises_intros dest!: scan_error split: sum.split)
qed

lemma raises_collect: "raises (sound b) (escapes b cf) (collect cf)"
proof -
  have "raises (sound b) (of_pass b cf) (collect_inner cf)"
    unfolding collect_inner_def
    by (intro raises_intros raises_catchA [where Q = "of_index b cf"] raises_handler raises_index raises_chunks)
      (auto simp: exn_kinds of_index_def sound_def intro!: raises_intros raises_modify)
  note catch = raises_catchA [OF this]
  show ?thesis
    unfolding collect_def
    by (intro raises_intros catch raises_handler) (auto simp: exn_kinds sound_def intro!: raises_intros raises_modify)
qed


section \<open>Passes that go wrong\<close>

definition try_bad_length :: world where
  "try_bad_length = try_world [answer 200 [1],
     Answer \<lparr>status = 200, promise = BadLength, blocks = [], breaks = False\<rparr>] (\<lambda>_. None)"

lemma try_bad_length_ends: "fst (collect try_env try_bad_length) = Inl ValueError"
  by code_simp


text \<open>A test for a file that the disk refuses, and a reply nested too deeply, end the pass: the later
  chunks are not collected and there is no report.\<close>

lemma refused_read_ends_pass: "fst (collect try_env (try_pass\<lparr>disk := [False]\<rparr>)) = Inl OsError"
  by code_simp

lemma nested_index_ends_pass: "fst (collect (try_env\<lparr>too_deep := (\<lambda>b. b = [1])\<rparr>) try_pass) = Inl RecursionError"
  by code_simp

lemma nul_name_ends_pass:
  "fst (collect (try_env\<lparr>loads := (\<lambda>_. Some (JObj [(''device'', JStr [CHR ''d'', CHR 0x00]), (''chunks'', JArr [JObj [(''name'', JStr ''a'')]])]))\<rparr>)
     try_pass) = Inl ValueError"
  by code_simp

text \<open>A broken index entry is skipped, but not one whose \<open>seq\<close> is an infinite float.\<close>

definition try_infinite :: env where
  "try_infinite = try_env\<lparr>loads := (\<lambda>_. Some (JObj [(''chunks'', JArr [JObj [(''name'', JStr ''a''), (''seq'', JFloat PosInf)]])]))\<rparr>"

lemma infinite_seq_ends_pass: "fst (collect try_infinite (try_world [answer 200 [1]] (\<lambda>_. None))) = Inl OverflowError"
  by code_simp

text \<open>The device's own name becomes the archive directory as it is.\<close>

definition try_climbing :: env where
  "try_climbing = try_env\<lparr>loads := (\<lambda>_. Some (JObj [(''device'', JStr ''../other''), (''chunks'', JArr [JObj [(''name'', JStr ''a'')]])]))\<rparr>"

lemma device_name_leaves_archive:
  "files (snd (collect try_climbing try_pass)) (''../other'', ''a'') = Some try_chunk"
  by code_simp

text \<open>A chunk whose name ends in the partial's suffix is archived, and confirmed, under the name that
  the next chunk's partial has; collecting that one deletes it.\<close>

definition try_suffix :: env where
  "try_suffix = try_env\<lparr>loads := (\<lambda>b. if b = [1]
     then Some (JObj [(''device'', JStr ''dev''), (''chunks'', JArr [JObj [(''name'', JStr ''a.part''), (''seq'', JInt 1)],
        JObj [(''name'', JStr ''a''), (''seq'', JInt 2)]])]) else None)\<rparr>"

definition try_collision :: world where
  "try_collision = try_world [answer 200 [1], answer 200 try_chunk, answer 200 [], answer 206 [7]] (\<lambda>_. None)"

lemma confirmed_chunk_is_deleted:
  "confirmed (out (snd (collect try_suffix try_collision))) = [''a.part'']"
  "files (snd (collect try_suffix try_collision)) (''dev'', ''a.part'') = None"
  by code_simp+

end
