(* ===== verification/Relay.thy ===== *)
theory Relay
  imports Collector
begin

text \<open>
  \<open>custom_components/sdlog_relay\<close>: the relay through which a collector reaches a logger, and the
  firmware it hands out.  What the HTTP library, the loggers and the clock give are arguments: header
  lookup is a function, a logger's behaviour is an \<open>upstream\<close>, MD5 is a function on bytes.
  Waiting for the logger's lock is a step relation over the requests of all loggers.
\<close>

section \<open>Paths\<close>

record target =
  host :: string
  port :: int

type_synonym target_map = "string \<Rightarrow> target option"

text \<open>\<open>json_error\<close>: a status and a reason.\<close>

type_synonym refusal = "int \<times> string"

definition relay_char :: "char \<Rightarrow> bool" where
  "relay_char c \<longleftrightarrow> alnum c \<or> c \<in> {CHR ''.'', CHR ''_'', CHR ''-''}"

text \<open>\<open>NAME_RE.fullmatch\<close>.\<close>

definition relay_name :: "string \<Rightarrow> bool" where
  "relay_name s \<longleftrightarrow> s \<noteq> [] \<and> length s \<le> 32 \<and> alnum (hd s) \<and> list_all relay_char (tl s)"

text \<open>\<open>'..' in s\<close>.\<close>

fun has_dots :: "string \<Rightarrow> bool" where
  "has_dots (a # b # s) \<longleftrightarrow> a = CHR ''.'' \<and> b = CHR ''.'' \<or> has_dots (b # s)"
| "has_dots _ \<longleftrightarrow> False"

definition upstream_path :: "string \<Rightarrow> string \<Rightarrow> refusal + string" where
  "upstream_path tail method =
     (if tail = ''index'' \<or> tail = ''status''
      then (if method \<noteq> ''GET'' then Inl (405, ''method_not_allowed'') else Inr (''/sdlog/'' @ tail))
      else
        (case partition_on (CHR ''/'') tail of (kind, sep, name) \<Rightarrow>
           if \<not> sep \<or> kind \<notin> {''f'', ''done''} then Inl (404, ''unknown_endpoint'')
           else if \<not> relay_name name \<or> has_dots name then Inl (400, ''bad_name'')
           else if method \<noteq> (if kind = ''f'' then ''GET'' else ''POST'') then Inl (405, ''method_not_allowed'')
           else Inr (''/sdlog/'' @ kind @ ''/'' @ name)))"

section \<open>Forwarding one request\<close>

type_synonym headers = "string \<Rightarrow> string option"

definition REQUEST_HEADERS :: "string list" where
  "REQUEST_HEADERS = [''Range'']"

definition RESPONSE_HEADERS :: "string list" where
  "RESPONSE_HEADERS = [''Content-Length'', ''Content-Range'', ''Content-Type'', ''Accept-Ranges'']"

definition pick_headers :: "string list \<Rightarrow> headers \<Rightarrow> (string \<times> string) list" where
  "pick_headers names hs = [(n, v). n \<leftarrow> names, v \<leftarrow> (case hs n of None \<Rightarrow> [] | Some v \<Rightarrow> [v])]"

text \<open>What the logger does with a request: no connection, or a status, headers, the blocks of the
  body and whether the connection then fails.\<close>

datatype upstream = NoLogger | Logger int headers "bytes list" bool

text \<open>What the client gets: an error of the relay, or the logger's answer, whole or cut off.\<close>

datatype relayed = Refusal int string | Relayed int "(string \<times> string) list" "bytes list" bool

record job =
  j_id :: nat
  j_target :: target
  j_method :: string
  j_path :: string
  j_headers :: "(string \<times> string) list"

definition request_headers :: "headers \<Rightarrow> (string \<times> string) list" where
  "request_headers hs = (''Accept-Encoding'', ''identity'') # pick_headers REQUEST_HEADERS hs"

definition relay_answer :: "upstream \<Rightarrow> relayed" where
  "relay_answer u =
     (case u of
        NoLogger \<Rightarrow> Refusal 502 ''logger_unreachable''
      | Logger st hs body broken \<Rightarrow>
          (if st = 401 then Refusal 502 ''logger_answered_401''
           else Relayed st (pick_headers RESPONSE_HEADERS hs) body (\<not> broken)))"

text \<open>The part of \<open>forward\<close> before the lock.\<close>

definition admit :: "target_map \<Rightarrow> nat \<Rightarrow> string \<Rightarrow> string \<Rightarrow> string \<Rightarrow> headers \<Rightarrow> refusal + job" where
  "admit tg i logger tail method hs =
     (case tg logger of
        None \<Rightarrow> Inl (404, ''unknown_logger'')
      | Some t \<Rightarrow>
          bindE (upstream_path tail method) (\<lambda>path.
            Inr \<lparr>j_id = i, j_target = t, j_method = method, j_path = path, j_headers = request_headers hs\<rparr>))"

section \<open>The lock of each logger\<close>

text \<open>\<open>locked\<close> holds the loggers whose lock is taken, \<open>queued\<close> the requests that wait for one in
  order of arrival, \<open>inflight\<close> the requests running upstream; \<open>arrived\<close> and \<open>replies\<close> are history.\<close>

record relay_state =
  locked :: "string set"
  queued :: "(string \<times> job) list"
  inflight :: "(string \<times> job) list"
  arrived :: "nat list"
  replies :: "(nat \<times> relayed) list"

definition new_relay :: relay_state where
  "new_relay = \<lparr>locked = {}, queued = [], inflight = [], arrived = [], replies = []\<rparr>"

definition reply_to :: "nat \<Rightarrow> relayed \<Rightarrow> relay_state \<Rightarrow> relay_state" where
  "reply_to i r s = s\<lparr>replies := replies s @ [(i, r)]\<rparr>"

inductive relay_step :: "relay_state \<Rightarrow> relay_state \<Rightarrow> bool" where
  Refuse: "admit tg i lg tail m hs = Inl (st, why) \<Longrightarrow>
     relay_step s (reply_to i (Refusal st why) (s\<lparr>arrived := arrived s @ [i]\<rparr>))"
| Enter: "admit tg i lg tail m hs = Inr j \<Longrightarrow> lg \<notin> locked s \<Longrightarrow> lg \<notin> fst ` set (queued s) \<Longrightarrow>
     relay_step s (s\<lparr>arrived := arrived s @ [i], locked := insert lg (locked s), inflight := inflight s @ [(lg, j)]\<rparr>)"
| Wait: "admit tg i lg tail m hs = Inr j \<Longrightarrow> lg \<in> locked s \<or> lg \<in> fst ` set (queued s) \<Longrightarrow>
     relay_step s (s\<lparr>arrived := arrived s @ [i], queued := queued s @ [(lg, j)]\<rparr>)"
| Expire: "queued s = before @ (lg, j) # after \<Longrightarrow>
     relay_step s (reply_to (j_id j) (Refusal 503 ''busy'') (s\<lparr>queued := before @ after\<rparr>))"
| Wake: "queued s = before @ (lg, j) # after \<Longrightarrow> lg \<notin> fst ` set before \<Longrightarrow> lg \<notin> locked s \<Longrightarrow>
     relay_step s (s\<lparr>queued := before @ after, locked := insert lg (locked s), inflight := inflight s @ [(lg, j)]\<rparr>)"
| Finish: "inflight s = before @ (lg, j) # after \<Longrightarrow>
     relay_step s (reply_to (j_id j) (relay_answer u) (s\<lparr>inflight := before @ after, locked := locked s - {lg}\<rparr>))"

inductive relay_run :: "relay_state \<Rightarrow> bool" where
  Start: "relay_run new_relay"
| Step: "relay_run s \<Longrightarrow> relay_step s t \<Longrightarrow> relay_run t"

section \<open>Addresses\<close>

text \<open>\<open>ipaddress.ip_address\<close>.\<close>

datatype address = V4 int | V6 int "string option"

definition read_octet :: "string \<Rightarrow> int option" where
  "read_octet s =
     (if s = [] \<or> \<not> list_all ascii_digit s \<or> 3 < length s \<or> s \<noteq> ''0'' \<and> hd s = CHR ''0'' \<or> 255 < dec_value s
      then None else Some (dec_value s))"

definition read_v4 :: "string \<Rightarrow> int option" where
  "read_v4 s =
     (if CHR ''/'' \<in> set s then None
      else
        (case map read_octet (split_on (CHR ''.'') s) of
           [Some a, Some b, Some c, Some d] \<Rightarrow> Some (((a * 256 + b) * 256 + c) * 256 + d)
         | _ \<Rightarrow> None))"

definition any_hex :: "char \<Rightarrow> bool" where
  "any_hex c \<longleftrightarrow> ascii_digit c \<or> c \<in> set ''abcdefABCDEF''"

definition hex_of :: "char \<Rightarrow> int" where
  "hex_of c = (let n = of_char c in if n < 58 then n - 48 else if n < 97 then n - 55 else n - 87)"

definition read_hextet :: "string \<Rightarrow> int option" where
  "read_hextet s =
     (if s = [] \<or> \<not> list_all any_hex s \<or> 4 < length s then None
      else Some (foldl (\<lambda>v c. 16 * v + hex_of c) 0 s))"

fun read_hextets :: "int \<Rightarrow> string list \<Rightarrow> int option" where
  "read_hextets v [] = Some v"
| "read_hextets v (s # ss) =
     (case read_hextet s of None \<Rightarrow> None | Some h \<Rightarrow> read_hextets (v * 65536 + h) ss)"

text \<open>A dotted last part stands for two hextets, given here as their values' text.\<close>

definition hextet_text :: "int \<Rightarrow> string" where
  "hextet_text n = map (\<lambda>d. ''0123456789abcdef'' ! nat d) (if n < 16 then [n] else if n < 256 then [n div 16, n mod 16]
     else if n < 4096 then [n div 256, n div 16 mod 16, n mod 16]
     else [n div 4096, n div 256 mod 16, n div 16 mod 16, n mod 16])"

definition v6_parts :: "string \<Rightarrow> string list option" where
  "v6_parts s =
     (let parts = split_on (CHR '':'') s in
      if length parts < 3 then None
      else if CHR ''.'' \<in> set (last parts)
      then (case read_v4 (last parts) of
              None \<Rightarrow> None
            | Some n \<Rightarrow> Some (butlast parts @ [hextet_text (n div 65536), hextet_text (n mod 65536)]))
      else Some parts)"

text \<open>The empty parts strictly inside: the places of \<open>::\<close>.\<close>

definition gap_places :: "string list \<Rightarrow> nat list" where
  "gap_places parts = [i \<leftarrow> [1..<length parts - 1]. parts ! i = []]"

definition read_v6 :: "string \<Rightarrow> int option" where
  "read_v6 s =
     (case v6_parts s of
        None \<Rightarrow> None
      | Some parts \<Rightarrow>
          (if 9 < length parts then None
           else
             (case gap_places parts of
                [] \<Rightarrow>
                  (if length parts \<noteq> 8 \<or> hd parts = [] \<or> last parts = [] then None
                   else read_hextets 0 parts)
              | [i] \<Rightarrow>
                  (let hi = (if hd parts = [] then i - 1 else i);
                       lo = (if last parts = [] then length parts - i - 2 else length parts - i - 1) in
                   if hd parts = [] \<and> hi \<noteq> 0 \<or> last parts = [] \<and> lo \<noteq> 0 \<or> 8 \<le> hi + lo then None
                   else
                     (case read_hextets 0 (take hi parts) of
                        None \<Rightarrow> None
                      | Some v \<Rightarrow> read_hextets (v * 65536 ^ (8 - (hi + lo))) (drop (length parts - lo) parts)))
              | _ \<Rightarrow> None)))"

definition read_address :: "string \<Rightarrow> address option" where
  "read_address s =
     (case read_v4 s of
        Some n \<Rightarrow> Some (V4 n)
      | None \<Rightarrow>
          (if CHR ''/'' \<in> set s then None
           else
             (case partition_on (CHR ''%'') s of (addr, scoped, scope) \<Rightarrow>
                if scoped \<and> (scope = [] \<or> CHR ''%'' \<in> set scope) then None
                else map_option (\<lambda>n. V6 n (if scoped then Some scope else None)) (read_v6 addr))))"

definition unmapped :: "address \<Rightarrow> address" where
  "unmapped a =
     (case a of
        V6 n scope \<Rightarrow> (if n div 2 ^ 32 = 65535 then V4 (n mod 2 ^ 32) else a)
      | V4 n \<Rightarrow> a)"

definition same_address :: "string option \<Rightarrow> string \<Rightarrow> bool" where
  "same_address remote configured_host =
     (case remote of
        None \<Rightarrow> False
      | Some r \<Rightarrow>
          (if r = [] then False
           else
             (case (read_address r, read_address configured_host) of
                (Some a, Some b) \<Rightarrow> unmapped a = b
              | _ \<Rightarrow> False)))"

section \<open>Firmware\<close>

text \<open>A logger's directory in the order \<open>iterdir\<close> gives: name, contents and time of the last write.\<close>

record manifest =
  m_name :: string
  m_version :: string
  m_chip :: string
  m_md5 :: string
  m_path :: string

datatype fw_file = Blob bytes | Doc manifest

type_synonym directory = "(string \<times> fw_file \<times> nat) list"

type_synonym store = "string \<Rightarrow> directory"

definition MANIFEST :: string where "MANIFEST = ''manifest.json''"
definition MAX_FIRMWARE :: nat where "MAX_FIRMWARE = 8 * 1024 * 1024"
definition KEEP_BINARIES :: nat where "KEEP_BINARIES = 2"

definition CHIP_FAMILIES :: "string list" where
  "CHIP_FAMILIES = [''ESP32'', ''ESP32-C2'', ''ESP32-C3'', ''ESP32-C5'', ''ESP32-C6'', ''ESP32-H2'', ''ESP32-P4'',
     ''ESP32-S2'', ''ESP32-S3'']"

definition low_alnum :: "char \<Rightarrow> bool" where
  "low_alnum c \<longleftrightarrow> (let n = of_char c :: nat in 48 \<le> n \<and> n \<le> 57 \<or> 97 \<le> n \<and> n \<le> 122)"

definition is_logger_id :: "string \<Rightarrow> bool" where
  "is_logger_id s \<longleftrightarrow> s \<noteq> [] \<and> length s \<le> 32 \<and> low_alnum (hd s) \<and>
     list_all (\<lambda>c. low_alnum c \<or> c \<in> {CHR ''_'', CHR ''-''}) (tl s)"

definition is_version :: "string \<Rightarrow> bool" where
  "is_version s \<longleftrightarrow> s \<noteq> [] \<and> length s \<le> 32 \<and> alnum (hd s) \<and>
     list_all (\<lambda>c. alnum c \<or> c \<in> {CHR ''.'', CHR ''_'', CHR ''+'', CHR ''-''}) (tl s)"

definition low_hex :: "char \<Rightarrow> bool" where
  "low_hex c \<longleftrightarrow> c \<in> set ''0123456789abcdef''"

definition firmware_name :: "string \<Rightarrow> string" where
  "firmware_name md5 = ''firmware-'' @ md5 @ ''.ota.bin''"

text \<open>\<open>BINARY_RE.fullmatch\<close>.\<close>

definition is_binary :: "string \<Rightarrow> bool" where
  "is_binary s \<longleftrightarrow> length s = 49 \<and> take 9 s = ''firmware-'' \<and> list_all low_hex (take 32 (drop 9 s)) \<and> drop 41 s = ''.ota.bin''"

definition check_upload :: "string \<Rightarrow> bytes \<Rightarrow> string \<Rightarrow> string \<Rightarrow> refusal + unit" where
  "check_upload logger data version chip =
     bindE (guardE (is_logger_id logger) (400, ''bad_logger_id'')) (\<lambda>_.
     bindE (guardE (is_version version) (400, ''bad_version'')) (\<lambda>_.
     bindE (guardE (chip \<in> set CHIP_FAMILIES) (400, ''bad_chip_family'')) (\<lambda>_.
     bindE (guardE (data \<noteq> []) (400, ''empty_firmware'')) (\<lambda>_.
     guardE (length data \<le> MAX_FIRMWARE) (413, ''firmware_too_large'')))))"

text \<open>\<open>_atomic_write\<close> as the file system shows it: the old file or the whole new one.\<close>

definition atomic_write :: "nat \<Rightarrow> string \<Rightarrow> fw_file \<Rightarrow> directory \<Rightarrow> directory" where
  "atomic_write clk name c d = assoc_put name (c, clk) d"

text \<open>\<open>sorted(..., key=mtime, reverse=True)\<close>: newest first, files of equal age in directory order.\<close>

definition newest_first :: "directory \<Rightarrow> directory" where
  "newest_first d = rev (sort_key (\<lambda>(_, _, t). t) (rev d))"

definition prune :: "string \<Rightarrow> directory \<Rightarrow> directory" where
  "prune current d =
     (let binaries = newest_first [f \<leftarrow> d. is_binary (fst f) \<and> fst f \<noteq> current];
          old = map fst (drop (KEEP_BINARIES - 1) binaries)
      in [f \<leftarrow> d. fst f \<notin> set old])"

definition manifest_of :: "(bytes \<Rightarrow> string) \<Rightarrow> string \<Rightarrow> bytes \<Rightarrow> string \<Rightarrow> string \<Rightarrow> manifest" where
  "manifest_of md5 logger data version chip =
     \<lparr>m_name = logger, m_version = version, m_chip = chip, m_md5 = md5 data, m_path = firmware_name (md5 data)\<rparr>"

text \<open>The changes \<open>put\<close> makes to the directory, in order; a failing disk stops it between two of them.\<close>

definition put_steps :: "(bytes \<Rightarrow> string) \<Rightarrow> nat \<Rightarrow> string \<Rightarrow> bytes \<Rightarrow> string \<Rightarrow> string \<Rightarrow> (directory \<Rightarrow> directory) list" where
  "put_steps md5 clk logger data version chip =
     [atomic_write clk (firmware_name (md5 data)) (Blob data),
      atomic_write clk MANIFEST (Doc (manifest_of md5 logger data version chip)),
      prune (firmware_name (md5 data))]"

definition put_firmware :: "(bytes \<Rightarrow> string) \<Rightarrow> nat \<Rightarrow> string \<Rightarrow> bytes \<Rightarrow> string \<Rightarrow> string \<Rightarrow> store \<Rightarrow> refusal + manifest \<times> store" where
  "put_firmware md5 clk logger data version chip st =
     bindE (check_upload logger data version chip) (\<lambda>_.
       Inr (manifest_of md5 logger data version chip,
         st(logger := fold (\<lambda>f d. f d) (put_steps md5 clk logger data version chip) (st logger))))"

text \<open>\<open>FirmwareStore.resolve\<close> and the read of the file it names.\<close>

definition resolve_firmware :: "store \<Rightarrow> string \<Rightarrow> string \<Rightarrow> fw_file option" where
  "resolve_firmware st logger name =
     (if \<not> is_logger_id logger then None
      else if name \<noteq> MANIFEST \<and> \<not> is_binary name then None
      else map_option fst (map_of (st logger) name))"

datatype served = NotFound | Served string fw_file

definition serve_firmware :: "target_map \<Rightarrow> store \<Rightarrow> string option \<Rightarrow> string \<Rightarrow> string \<Rightarrow> served" where
  "serve_firmware tg st remote logger name =
     (case tg logger of
        None \<Rightarrow> NotFound
      | Some t \<Rightarrow>
          (if \<not> same_address remote (host t) then NotFound
           else
             (case resolve_firmware st logger name of
                None \<Rightarrow> NotFound
              | Some c \<Rightarrow> Served (if name = MANIFEST then ''application/json'' else ''application/octet-stream'') c)))"

text \<open>The body is read block by block and given up as soon as it is too long.\<close>

fun read_body :: "bytes \<Rightarrow> bytes list \<Rightarrow> refusal + bytes" where
  "read_body data [] = Inr data"
| "read_body data (b # bs) =
     (if MAX_FIRMWARE < length (data @ b) then Inl (413, ''firmware_too_large'') else read_body (data @ b) bs)"

definition upload_firmware :: "(bytes \<Rightarrow> string) \<Rightarrow> nat \<Rightarrow> bool \<Rightarrow> target_map \<Rightarrow> string \<Rightarrow> bytes list \<Rightarrow> string \<Rightarrow> string
    \<Rightarrow> store \<Rightarrow> refusal + manifest \<times> store" where
  "upload_firmware md5 clk admin tg logger parts version chip st =
     (if \<not> admin then Inl (403, ''admin_required'')
      else if tg logger = None then Inl (404, ''unknown_logger'')
      else bindE (read_body [] parts) (\<lambda>data. put_firmware md5 clk logger data version chip st))"

section \<open>Configuration\<close>

text \<open>\<open>_address_errors\<close> and the two forms of the configuration flow: errors per
  field, or the entry; \<open>known\<close> are the ids that have an entry already.\<close>

definition address_errors :: "string \<Rightarrow> int \<Rightarrow> (string \<times> string) list" where
  "address_errors h p =
     (if read_v4 h = None then [(''host'', ''bad_host'')] else []) @
     (if 1 \<le> p \<and> p \<le> 65535 then [] else [(''port'', ''bad_port'')])"

datatype flow = Form "(string \<times> string) list" | AlreadyConfigured | Entry string target

definition step_user :: "string set \<Rightarrow> string \<Rightarrow> string \<Rightarrow> int \<Rightarrow> flow" where
  "step_user known logger h p =
     (let errors = (if is_logger_id logger then [] else [(''logger_id'', ''bad_logger_id'')]) @ address_errors h p in
      if errors \<noteq> [] then Form errors
      else if logger \<in> known then AlreadyConfigured
      else Entry logger \<lparr>host = h, port = p\<rparr>)"

definition step_reconfigure :: "string \<Rightarrow> string \<Rightarrow> int \<Rightarrow> flow" where
  "step_reconfigure logger h p =
     (if address_errors h p \<noteq> [] then Form (address_errors h p)
      else Entry logger \<lparr>host = h, port = p\<rparr>)"

text \<open>\<open>async_setup_entry\<close> and the unload callback it registers.\<close>

definition setup_entry :: "string \<Rightarrow> target \<Rightarrow> target_map \<Rightarrow> target_map" where
  "setup_entry logger t tg = tg(logger \<mapsto> t)"

definition forget :: "string \<Rightarrow> target_map \<Rightarrow> target_map" where
  "forget logger tg = tg(logger := None)"

inductive configured :: "target_map \<Rightarrow> bool" where
  Empty: "configured (\<lambda>_. None)"
| User: "configured ts \<Longrightarrow> step_user known logger h p = Entry lg t \<Longrightarrow> configured (setup_entry lg t ts)"
| Reconfigure: "configured ts \<Longrightarrow> ts logger \<noteq> None \<Longrightarrow> step_reconfigure logger h p = Entry lg t \<Longrightarrow>
     configured (setup_entry lg t ts)"
| Unload: "configured ts \<Longrightarrow> configured (forget logger ts)"

end
