(* ===== verification/RelayFacts.thy ===== *)
theory RelayFacts
  imports Relay CollectorSteps "HOL-Library.Multiset"
begin

text \<open>
  The relay is correct: requests to one logger are serialised and answered once, answers pass
  unchanged, only the four endpoints can be reached; an upload is crash consistent, what it stored is
  what the logger is served, and the previous binary stays.
\<close>

section \<open>Requests\<close>

inductive_cases relay_stepE: "relay_step s t"

definition serialised :: "relay_state \<Rightarrow> bool" where
  "serialised s \<longleftrightarrow>
     (\<forall>lg. length [x \<leftarrow> inflight s. fst x = lg] = (if lg \<in> locked s then 1 else 0)) \<and>
     mset (arrived s) =
       mset (map fst (replies s)) + mset (map (j_id \<circ> snd) (queued s)) + mset (map (j_id \<circ> snd) (inflight s))"

lemma admit_id: "admit tg i lg tail m hs = Inr j \<Longrightarrow> j_id j = i"
  by (auto simp: admit_def err_simps split: option.splits)

lemma serialised_step: "relay_step s t \<Longrightarrow> serialised s \<Longrightarrow> serialised t"
proof (induction rule: relay_step.induct)
  case (Finish s before lg j after u)
  then have n: "\<And>l. length [x \<leftarrow> before @ (lg, j) # after. fst x = l] = (if l \<in> locked s then 1 else 0)"
    and m: "mset (arrived s) = mset (map fst (replies s)) + mset (map (j_id \<circ> snd) (queued s))
      + mset (map (j_id \<circ> snd) (before @ (lg, j) # after))"
    unfolding serialised_def by simp_all
  have "length [x \<leftarrow> before @ after. fst x = l] = (if l \<in> locked s - {lg} then 1 else 0)" for l
    using n [of l] by (cases "l = lg") (auto split: if_splits)
  with m show ?case unfolding serialised_def by (simp add: reply_to_def)
qed (auto simp: serialised_def reply_to_def admit_id split: if_splits)

lemma serialised_run: "relay_run s \<Longrightarrow> serialised s"
  by (induction rule: relay_run.induct) (simp_all add: serialised_def new_relay_def serialised_step [unfolded serialised_def])

text \<open>
  C15: requests to a logger are serialised and each gets one answer.  In every state the relay can
  reach, at most one request per logger runs upstream, and every request that arrived has been answered
  exactly once, waits for a lock, or runs upstream.
\<close>

theorem relay_serialises:
  assumes "relay_run s"
  shows "length [x \<leftarrow> inflight s. fst x = lg] \<le> 1 \<and>
     mset (arrived s) = mset (map fst (replies s)) + mset (map (j_id \<circ> snd) (queued s @ inflight s))"
  using serialised_run [OF assms] by (auto simp: serialised_def)

text \<open>A state with work left can move on without turning anyone away.\<close>

definition served_only :: "relay_state \<Rightarrow> relay_state \<Rightarrow> bool" where
  "served_only s t \<longleftrightarrow> arrived t = arrived s \<and>
     (\<exists>new. replies t = replies s @ new \<and> (\<forall>x\<in>set new. snd x \<noteq> Refusal 503 ''busy''))"

lemma served_only_trans: "served_only s t \<Longrightarrow> served_only t u \<Longrightarrow> served_only s u"
  by (fastforce simp: served_only_def)

lemma first_of:
  "lg \<in> fst ` set q \<Longrightarrow> \<exists>before j after. q = before @ (lg, j) # after \<and> lg \<notin> fst ` set before"
proof (induction q)
  case (Cons x q)
  obtain l j where x: "x = (l, j)" by (cases x)
  show ?case
  proof (cases "l = lg")
    case True
    then show ?thesis using x by (intro exI [of _ "[]"]) auto
  next
    case False
    with Cons.prems x have "lg \<in> fst ` set q" by auto
    from Cons.IH [OF this] obtain before j' after where "q = before @ (lg, j') # after" "lg \<notin> fst ` set before" by blast
    then show ?thesis using x False by (intro exI [of _ "x # before"]) auto
  qed
qed simp

lemma serve_one:
  assumes "serialised s" and "queued s \<noteq> [] \<or> inflight s \<noteq> []"
  shows "\<exists>t. relay_step s t \<and> served_only s t \<and>
     2 * length (queued t) + length (inflight t) < 2 * length (queued s) + length (inflight s)"
proof (cases "inflight s")
  case (Cons x xs)
  obtain lg j where x: "x = (lg, j)" by (cases x)
  have "relay_step s (reply_to (j_id j) (relay_answer NoLogger) (s\<lparr>inflight := [] @ xs, locked := locked s - {lg}\<rparr>))"
    by (rule relay_step.Finish) (simp add: Cons x)
  then show ?thesis
    by (intro exI conjI) (assumption, auto simp: served_only_def reply_to_def relay_answer_def Cons)
next
  case Nil
  with assms obtain lg j q where q: "queued s = (lg, j) # q" by (cases "queued s") auto
  have "lg \<notin> locked s" using assms(1) Nil by (auto simp: serialised_def split: if_splits)
  then have "relay_step s (s\<lparr>queued := [] @ q, locked := insert lg (locked s), inflight := inflight s @ [(lg, j)]\<rparr>)"
    using q by (intro relay_step.Wake) simp_all
  then show ?thesis
    by (intro exI conjI) (assumption, auto simp: served_only_def q)
qed

lemma serve_all:
  "serialised s \<Longrightarrow> \<exists>t. relay_step\<^sup>*\<^sup>* s t \<and> served_only s t \<and> queued t = [] \<and> inflight t = []"
proof (induction "2 * length (queued s) + length (inflight s)" arbitrary: s rule: less_induct)
  case less
  show ?case
  proof (cases "queued s = [] \<and> inflight s = []")
    case True
    then show ?thesis by (intro exI [of _ s]) (simp add: served_only_def)
  next
    case False
    with serve_one [OF less.prems] obtain t where t: "relay_step s t" "served_only s t"
      "2 * length (queued t) + length (inflight t) < 2 * length (queued s) + length (inflight s)" by auto
    from less.hyps [OF t(3) serialised_step [OF t(1) less.prems]] obtain u
      where "relay_step\<^sup>*\<^sup>* t u" "served_only t u" "queued u = []" "inflight u = []" by blast
    with t(1,2) show ?thesis by (blast intro: converse_rtranclp_into_rtranclp served_only_trans)
  qed
qed

text \<open>
  C16: the relay cannot get stuck.  From every state it can reach, the requests it has accepted can all
  be brought to an answer, none of them the 503 of a logger that stays busy and without a new request.
\<close>

theorem relay_drains:
  assumes "relay_run s"
  shows "\<exists>t. relay_step\<^sup>*\<^sup>* s t \<and> queued t = [] \<and> inflight t = [] \<and> mset (arrived s) = mset (map fst (replies t)) \<and>
     (\<exists>new. replies t = replies s @ new \<and> (\<forall>x\<in>set new. snd x \<noteq> Refusal 503 ''busy''))"
proof -
  from serve_all [OF serialised_run [OF assms]] obtain t
    where t: "relay_step\<^sup>*\<^sup>* s t" "served_only s t" "queued t = []" "inflight t = []" by blast
  have "serialised t" using t(1)
    by (induction rule: rtranclp_induct) (auto intro: serialised_run [OF assms] serialised_step)
  with t show ?thesis unfolding serialised_def served_only_def by auto
qed

section \<open>What the collector sees\<close>

definition length_promise :: "string option \<Rightarrow> length_header" where
  "length_promise h = (case h of None \<Rightarrow> NoLength | Some s \<Rightarrow> (case int_text s of None \<Rightarrow> BadLength | Some n \<Rightarrow> Length n))"

text \<open>A logger's answer as the collector gets it on the LAN, and through the relay.\<close>

definition on_lan :: "upstream \<Rightarrow> reply" where
  "on_lan u =
     (case u of
        NoLogger \<Rightarrow> Silence
      | Logger st hs body broken \<Rightarrow>
          Answer \<lparr>status = st, promise = length_promise (hs ''Content-Length''), blocks = body, breaks = broken\<rparr>)"

definition via_relay :: "relayed \<Rightarrow> reply" where
  "via_relay r =
     (case r of
        Refusal st why \<Rightarrow> Answer \<lparr>status = st, promise = NoLength, blocks = [], breaks = False\<rparr>
      | Relayed st hs body whole \<Rightarrow>
          Answer \<lparr>status = st, promise = length_promise (map_of hs ''Content-Length''), blocks = body, breaks = \<not> whole\<rparr>)"

lemma pick_headers_lookup:
  "map_of (pick_headers names hs) n = (if n \<in> set names then hs n else None)"
  by (induction names) (auto simp: pick_headers_def split: option.splits)


section \<open>Paths\<close>

lemma relay_name_no_slash: "relay_name n \<Longrightarrow> CHR ''/'' \<notin> set n"
  by (cases n) (auto simp: relay_name_def relay_char_def alnum_def Let_def list_all_iff)

text \<open>
  C36: exactly the four collection endpoints are reachable, each with its own method, and a chunk
  name can neither hold a slash nor two dots in a row.
\<close>

theorem upstream_path_iff:
  "upstream_path tail method = Inr path \<longleftrightarrow>
     path = ''/sdlog/'' @ tail \<and>
     (tail \<in> {''index'', ''status''} \<and> method = ''GET'' \<or>
      (\<exists>name. relay_name name \<and> CHR ''/'' \<notin> set name \<and> \<not> has_dots name \<and>
         (tail = ''f/'' @ name \<and> method = ''GET'' \<or> tail = ''done/'' @ name \<and> method = ''POST'')))"
proof (cases "tail = ''index'' \<or> tail = ''status''")
  case True
  then show ?thesis by (auto simp: upstream_path_def)
next
  case False
  obtain kind sep name where p: "partition_on (CHR ''/'') tail = (kind, sep, name)" by (cases "partition_on (CHR ''/'') tail")
  show ?thesis
  proof (cases sep)
    case True
    with p have t: "tail = kind @ CHR ''/'' # name" "CHR ''/'' \<notin> set kind" by (simp_all add: partition_on_found)
    have u: "tail = ''f/'' @ n \<longleftrightarrow> kind = ''f'' \<and> name = n" "tail = ''done/'' @ n \<longleftrightarrow> kind = ''done'' \<and> name = n" for n
      using p True partition_on_found [of "CHR ''/''" tail "''f''" n] partition_on_found [of "CHR ''/''" tail "''done''" n] by auto
    show ?thesis unfolding u using False p True t relay_name_no_slash [of name]
      by (auto simp: upstream_path_def split: if_splits)
  next
    case f: False
    have "tail \<noteq> ''f/'' @ n" "tail \<noteq> ''done/'' @ n" for n
      using p f partition_on_found [of "CHR ''/''" tail "''f''" n] partition_on_found [of "CHR ''/''" tail "''done''" n] by auto
    with False p f show ?thesis by (simp add: upstream_path_def)
  qed
qed

section \<open>Firmware\<close>

lemma map_of_filter_key: "map_of [f \<leftarrow> d. P (fst f)] k = (if P k then map_of d k else None)"
  by (induction d) auto

lemma firmware_name_inj: "firmware_name a = firmware_name b \<longleftrightarrow> a = b"
  by (simp add: firmware_name_def)

lemma manifest_not_binary: "\<not> is_binary MANIFEST" "firmware_name md5 \<noteq> MANIFEST"
  by (simp_all add: is_binary_def MANIFEST_def firmware_name_def)

lemma firmware_name_binary: "length h = 32 \<Longrightarrow> list_all low_hex h \<Longrightarrow> is_binary (firmware_name h)"
  by (simp add: is_binary_def firmware_name_def numeral_eq_Suc)

lemma newest_first_set [simp]: "set (newest_first d) = set d"
  by (simp add: newest_first_def)

text \<open>What \<open>prune\<close> leaves of a file.\<close>

definition pruned :: "string \<Rightarrow> directory \<Rightarrow> string set" where
  "pruned current d = fst ` set (drop (KEEP_BINARIES - 1) (newest_first [f \<leftarrow> d. is_binary (fst f) \<and> fst f \<noteq> current]))"

lemma prune_lookup: "map_of (prune current d) n = (if n \<in> pruned current d then None else map_of d n)"
  using map_of_filter_key [of "\<lambda>n. n \<notin> pruned current d" d n] by (simp add: prune_def Let_def pruned_def)

lemma pruned_old: "n \<in> pruned current d \<Longrightarrow> is_binary n \<and> n \<noteq> current"
  by (auto simp: pruned_def dest!: in_set_dropD)

definition names_binary :: "(bytes \<Rightarrow> string) \<Rightarrow> directory \<Rightarrow> bool" where
  "names_binary md5 d \<longleftrightarrow>
     (case map_of d MANIFEST of
        Some (Doc m, _) \<Rightarrow>
          (case map_of d (m_path m) of
             Some (Blob b, _) \<Rightarrow> md5 b = m_md5 m \<and> m_path m = firmware_name (m_md5 m)
           | _ \<Rightarrow> False)
      | _ \<Rightarrow> True)"

lemma names_binary_write:
  assumes "names_binary md5 d"
  shows "names_binary md5 (atomic_write t (firmware_name (md5 data)) (Blob data) d)"
proof (cases "\<exists>m t0. map_of d MANIFEST = Some (Doc m, t0)")
  case True
  then obtain m t0 where m: "map_of d MANIFEST = Some (Doc m, t0)" by blast
  with assms obtain b t1 where "map_of d (m_path m) = Some (Blob b, t1)" "md5 b = m_md5 m" "m_path m = firmware_name (m_md5 m)"
    by (auto simp: names_binary_def split: option.splits fw_file.splits)
  with m show ?thesis
    by (cases "m_path m = firmware_name (md5 data)")
      (auto simp: names_binary_def atomic_write_def manifest_not_binary firmware_name_inj)
next
  case False
  then show ?thesis
    by (auto simp: names_binary_def atomic_write_def manifest_not_binary split: option.splits fw_file.splits)
qed

lemma names_binary_manifest:
  assumes "map_of d (firmware_name (md5 data)) = Some (Blob data, t0)"
  shows "names_binary md5 (atomic_write t MANIFEST (Doc (manifest_of md5 lg data v c)) d)"
  using assms unfolding names_binary_def atomic_write_def by (simp add: manifest_of_def manifest_not_binary)

lemma names_binary_prune:
  assumes "map_of d MANIFEST = Some (Doc (manifest_of md5 lg data v c), t)" and "names_binary md5 d"
  shows "names_binary md5 (prune (firmware_name (md5 data)) d)"
proof -
  have "MANIFEST \<notin> pruned (firmware_name (md5 data)) d" using pruned_old manifest_not_binary by blast
  moreover have "firmware_name (md5 data) \<notin> pruned (firmware_name (md5 data)) d" using pruned_old by blast
  ultimately show ?thesis using assms by (simp add: names_binary_def prune_lookup manifest_of_def)
qed

text \<open>
  C14: whenever an upload is cut short, between any two of the changes it makes to the directory, the
  manifest on disk still names a binary that is there and has the MD5 the manifest gives.
\<close>

theorem firmware_crash_consistent:
  assumes "names_binary md5 d"
  shows "names_binary md5 (fold (\<lambda>f d. f d) (take k (put_steps md5 t lg data v c)) d)"
proof -
  let ?b = "firmware_name (md5 data)"
  define d1 where "d1 = atomic_write t ?b (Blob data) d"
  define d2 where "d2 = atomic_write t MANIFEST (Doc (manifest_of md5 lg data v c)) d1"
  have 1: "names_binary md5 d1" unfolding d1_def by (rule names_binary_write [OF assms])
  have "map_of d1 ?b = Some (Blob data, t)" by (simp add: d1_def atomic_write_def)
  then have 2: "names_binary md5 d2" unfolding d2_def by (rule names_binary_manifest)
  have "map_of d2 MANIFEST = Some (Doc (manifest_of md5 lg data v c), t)" by (simp add: d2_def atomic_write_def)
  then have 3: "names_binary md5 (prune ?b d2)" using 2 by (rule names_binary_prune)
  have k: "k = 0 \<or> k = Suc 0 \<or> k = Suc (Suc 0) \<or> (\<exists>j. k = Suc (Suc (Suc j)))" by presburger
  show ?thesis using assms 1 2 3 k by (auto simp: put_steps_def d1_def d2_def)
qed

text \<open>The directory an upload leaves.\<close>

lemma put_directory:
  assumes "put_firmware md5 t lg data v c st = Inr (m, st')"
  shows "m = manifest_of md5 lg data v c" and "is_logger_id lg"
    and "st' = st(lg := prune (firmware_name (md5 data)) (atomic_write t MANIFEST (Doc m)
           (atomic_write t (firmware_name (md5 data)) (Blob data) (st lg))))"
  using assms by (auto simp: put_firmware_def check_upload_def err_simps put_steps_def)

lemma read_body_all: "read_body data parts = Inr x \<Longrightarrow> x = data @ concat parts"
proof (induction parts arbitrary: data)
  case (Cons b bs)
  then have "read_body (data @ b) bs = Inr x" by (simp split: if_splits)
  from Cons.IH [OF this] show ?case by simp
qed simp

text \<open>
  C25: what was uploaded is what the logger gets.  After a successful upload the logger, asking from
  its own address, is served the new manifest, and under the path the manifest names the uploaded bytes;
  nobody else is served anything.
\<close>

theorem upload_then_serve:
  assumes "\<forall>b. length (md5 b) = 32 \<and> list_all low_hex (md5 b)"
    and "upload_firmware md5 t admin tg lg parts v c st = Inr (m, st')" and "tg lg = Some target"
  shows "admin \<and>
    serve_firmware tg st' remote lg MANIFEST =
      (if same_address remote (host target) then Served ''application/json'' (Doc m) else NotFound) \<and>
    serve_firmware tg st' remote lg (m_path m) =
      (if same_address remote (host target) then Served ''application/octet-stream'' (Blob (concat parts)) else NotFound)"
proof -
  from assms(2,3) have "admin" and "put_firmware md5 t lg (concat parts) v c st = Inr (m, st')"
    by (auto simp: upload_firmware_def err_simps dest: read_body_all split: if_splits)
  note p = put_directory [OF this(2)]
  have b: "is_binary (firmware_name (md5 (concat parts)))" using assms(1) firmware_name_binary by blast
  have "MANIFEST \<notin> pruned x d" "x \<notin> pruned x d" for x d using pruned_old manifest_not_binary by blast+
  then show ?thesis using p(2) b assms(3) \<open>admin\<close>
    by (simp add: serve_firmware_def resolve_firmware_def p(1,3) prune_lookup atomic_write_def manifest_of_def manifest_not_binary)
qed

lemma newest_first_head:
  assumes "(n, x) \<in> set d" and "\<forall>f\<in>set d. fst f \<noteq> n \<longrightarrow> snd (snd f) < snd x" and "distinct (map fst d)"
  shows "\<exists>r. newest_first d = (n, x) # r"
proof -
  let ?k = "\<lambda>(_, _, t). t"
  have ne: "d \<noteq> []" using assms(1) by auto
  let ?s = "sort_key ?k (rev d)"
  have s: "set ?s = set d" by simp
  then have s': "?s \<noteq> []" using ne by (metis set_empty)
  have srt: "sorted (map ?k ?s)" by simp
  have "(n, x) \<in> set ?s" using assms(1) by simp
  then obtain i where i: "i < length ?s" "?s ! i = (n, x)" unfolding in_set_conv_nth by blast
  have "?k (?s ! i) \<le> ?k (last ?s)"
    using sorted_nth_mono [OF srt, of i "length ?s - 1"] i s' by (simp add: last_conv_nth)
  moreover have "last ?s \<in> set d" using s s' by (metis last_in_set)
  ultimately have "fst (last ?s) = n" using assms(2) i(2) by (cases "last ?s"; cases x) fastforce
  with \<open>last ?s \<in> set d\<close> assms(1,3) have "last ?s = (n, x)"
    by (metis eq_key_imp_eq_value prod.collapse)
  then have "?s = butlast ?s @ [(n, x)]" using s' by (metis append_butlast_last_id)
  then show ?thesis unfolding newest_first_def by (metis rev_append rev.simps append_Nil append_Cons)
qed

lemma prune_distinct: "distinct (map fst d) \<Longrightarrow> distinct (map fst (prune c d))"
  by (simp add: prune_def Let_def distinct_map_filter)

lemma newest_first_distinct: "distinct (map fst d) \<Longrightarrow> distinct (map fst (newest_first d))"
  by (simp add: newest_first_def distinct_map inj_on_def)

lemma prune_bound:
  assumes "distinct (map fst d)"
  shows "length [f \<leftarrow> prune c d. is_binary (fst f)] \<le> KEEP_BINARIES"
proof -
  let ?F = "newest_first [f \<leftarrow> d. is_binary (fst f) \<and> fst f \<noteq> c]" and ?L = "[f \<leftarrow> prune c d. is_binary (fst f)]"
  have "fst ` set ?L \<subseteq> insert c (fst ` set (take 1 ?F))"
  proof
    fix n
    assume "n \<in> fst ` set ?L"
    then obtain f where f: "f \<in> set d" "fst f = n" "n \<notin> pruned c d" "is_binary n"
      by (auto simp: prune_def Let_def pruned_def)
    show "n \<in> insert c (fst ` set (take 1 ?F))"
    proof (cases "n = c")
      case False
      with f have "f \<in> set ?F" by simp
      then have "f \<in> set (take 1 ?F) \<union> set (drop 1 ?F)" by (metis append_take_drop_id set_append)
      with f show ?thesis by (auto simp: pruned_def KEEP_BINARIES_def)
    qed simp
  qed
  then have "card (fst ` set ?L) \<le> card (insert c (fst ` set (take 1 ?F)))" by (intro card_mono) simp_all
  also have "\<dots> \<le> 1 + card (fst ` set (take 1 ?F))" by (simp add: card_insert_if)
  also have "card (fst ` set (take 1 ?F)) \<le> 1"
    using card_length [of "map fst (take 1 ?F)"] by (simp add: order_trans)
  finally have "card (fst ` set ?L) \<le> 2" by simp
  moreover have "distinct (map fst ?L)" using prune_distinct [OF assms] by (simp add: distinct_map_filter)
  ultimately show ?thesis using distinct_card [of "map fst ?L"] by (simp add: KEEP_BINARIES_def)
qed

lemma put_keeps_newest:
  assumes "map_of e n = Some (x, t1)" and "\<forall>f\<in>set e. is_binary (fst f) \<and> fst f \<noteq> n \<and> fst f \<noteq> c \<longrightarrow> snd (snd f) < t1"
    and "distinct (map fst e)" and "n \<noteq> c"
  shows "map_of (prune c e) n = Some (x, t1)"
proof -
  have "n \<notin> pruned c e"
  proof (cases "is_binary n")
    case True
    let ?d = "[f \<leftarrow> e. is_binary (fst f) \<and> fst f \<noteq> c]"
    have d: "(n, (x, t1)) \<in> set ?d" "\<forall>f\<in>set ?d. fst f \<noteq> n \<longrightarrow> snd (snd f) < snd (x, t1)" "distinct (map fst ?d)"
      using True assms map_of_SomeD [OF assms(1)] by (simp_all add: distinct_map_filter)
    from newest_first_head [OF d] obtain r where r: "newest_first ?d = (n, x, t1) # r" by blast
    with newest_first_distinct [OF d(3)] have "n \<notin> fst ` set r" by simp
    then show ?thesis by (simp add: pruned_def r KEEP_BINARIES_def)
  qed (use pruned_old in blast)
  then show ?thesis using assms(1) by (simp add: prune_lookup)
qed

lemma assoc_put_mem: "x \<in> set (assoc_put k v d) \<Longrightarrow> x = (k, v) \<or> x \<in> set d"
  by (induction k v d rule: assoc_put.induct) (auto split: if_splits)

text \<open>
  C26: the binary of the previous manifest stays.  When an upload follows another one of the same logger
  and the clock has moved on, the directory still holds the binary of the earlier upload, and never more
  than two binaries.
\<close>

theorem previous_firmware_kept:
  assumes "put_firmware md5 t1 lg data1 v1 c1 st = Inr (m1, st1)" and "put_firmware md5 t2 lg data2 v2 c2 st1 = Inr (m2, st2)"
    and "t1 < t2" and "\<forall>f\<in>set (st lg). snd (snd f) < t1" and "distinct (map fst (st lg))"
  shows "(\<exists>b t. map_of (st2 lg) (m_path m1) = Some (Blob b, t) \<and> md5 b = m_md5 m1) \<and>
     length [f \<leftarrow> st2 lg. is_binary (fst f)] \<le> KEEP_BINARIES"
proof -
  let ?b1 = "firmware_name (md5 data1)" and ?b2 = "firmware_name (md5 data2)"
  note p1 = put_directory [OF assms(1)] and p2 = put_directory [OF assms(2)]
  define e where "e = st1 lg"
  define f where "f = atomic_write t2 MANIFEST (Doc m2) (atomic_write t2 ?b2 (Blob data2) e)"
  have e: "e = prune ?b1 (atomic_write t1 MANIFEST (Doc m1) (atomic_write t1 ?b1 (Blob data1) (st lg)))"
    by (simp add: e_def p1(3))
  have st2: "st2 lg = prune ?b2 f" by (simp add: p2(3) f_def e_def)
  have m1: "m_path m1 = ?b1" "m_md5 m1 = md5 data1" by (simp_all add: p1(1) manifest_of_def)
  have not_pruned: "MANIFEST \<notin> pruned c d" "c \<notin> pruned c d" for c d using pruned_old manifest_not_binary by blast+
  have de: "distinct (map fst e)" unfolding e atomic_write_def by (intro prune_distinct distinct_assoc_put assms(5))
  have df: "distinct (map fst f)" unfolding f_def atomic_write_def by (intro distinct_assoc_put de)
  have e1: "map_of e ?b1 = Some (Blob data1, t1)"
    by (simp add: e prune_lookup not_pruned atomic_write_def manifest_not_binary)
  have old: "snd (snd x) < t1" if "x \<in> set e" "is_binary (fst x)" "fst x \<noteq> ?b1" for x
  proof -
    have "x \<in> set (assoc_put MANIFEST (Doc m1, t1) (assoc_put ?b1 (Blob data1, t1) (st lg)))"
      using that(1) by (auto simp: e atomic_write_def prune_def Let_def)
    then have "x = (MANIFEST, Doc m1, t1) \<or> x = (?b1, Blob data1, t1) \<or> x \<in> set (st lg)"
      by (auto dest!: assoc_put_mem)
    then have "x \<in> set (st lg)" using that(2,3) manifest_not_binary by auto
    then show ?thesis using assms(4) by blast
  qed
  have "\<exists>b t. map_of (st2 lg) ?b1 = Some (Blob b, t) \<and> md5 b = md5 data1"
  proof (cases "?b1 = ?b2")
    case True
    then have "md5 data2 = md5 data1" by (simp add: firmware_name_inj)
    with True show ?thesis
      by (simp add: st2 prune_lookup not_pruned f_def atomic_write_def manifest_not_binary)
  next
    case False
    have "\<forall>x\<in>set f. is_binary (fst x) \<and> fst x \<noteq> ?b1 \<and> fst x \<noteq> ?b2 \<longrightarrow> snd (snd x) < t1"
    proof (intro ballI impI)
      fix x
      assume x: "x \<in> set f" "is_binary (fst x) \<and> fst x \<noteq> ?b1 \<and> fst x \<noteq> ?b2"
      then have "x = (MANIFEST, Doc m2, t2) \<or> x = (?b2, Blob data2, t2) \<or> x \<in> set e"
        unfolding f_def atomic_write_def by (auto dest!: assoc_put_mem)
      then have "x \<in> set e" using x(2) manifest_not_binary by auto
      then show "snd (snd x) < t1" using old x(2) by blast
    qed
    moreover have "map_of f ?b1 = Some (Blob data1, t1)"
      using False e1 by (simp add: f_def atomic_write_def manifest_not_binary)
    ultimately have "map_of (prune ?b2 f) ?b1 = Some (Blob data1, t1)"
      using put_keeps_newest [OF _ _ df False, of "Blob data1" t1] by blast
    then show ?thesis by (simp add: st2)
  qed
  then show ?thesis using prune_bound [OF df] by (simp add: m1 st2)
qed

section \<open>A small relay\<close>

definition try_targets :: target_map where
  "try_targets = (\<lambda>n. if n = ''car'' then Some \<lparr>host = ''192.168.1.20'', port = 8080\<rparr> else None)"

definition try_job :: "nat \<Rightarrow> job" where
  "try_job i = \<lparr>j_id = i, j_target = \<lparr>host = ''192.168.1.20'', port = 8080\<rparr>, j_method = ''GET'', j_path = ''/sdlog/index'',
     j_headers = [(''Accept-Encoding'', ''identity'')]\<rparr>"

definition try_busy :: relay_state where
  "try_busy = \<lparr>locked = {''car''}, queued = [(''car'', try_job 2)], inflight = [(''car'', try_job 1)], arrived = [1, 2], replies = []\<rparr>"

lemma try_admit: "admit try_targets i ''car'' ''index'' ''GET'' (\<lambda>_. None) = Inr (try_job i)"
  by (simp add: admit_def try_targets_def upstream_path_def request_headers_def pick_headers_def REQUEST_HEADERS_def try_job_def)

lemma try_busy_run: "relay_run try_busy"
proof -
  have "relay_run (new_relay\<lparr>arrived := arrived new_relay @ [1], locked := insert ''car'' (locked new_relay),
      inflight := inflight new_relay @ [(''car'', try_job 1)]\<rparr>)" (is "relay_run ?s")
    by (rule relay_run.Step [OF relay_run.Start relay_step.Enter [OF try_admit]]) (simp_all add: new_relay_def)
  from relay_run.Step [OF this relay_step.Wait [OF try_admit, of ?s 2]] show ?thesis
    by (simp add: new_relay_def try_busy_def)
qed

theorem relay_serialises_witness:
  "length [x \<leftarrow> inflight try_busy. fst x = ''car''] \<le> 1 \<and> length (queued try_busy) = 1"
  using conjunct1 [OF relay_serialises [OF try_busy_run, of "''car''"]] by (simp add: try_busy_def)

theorem relay_drains_witness:
  "\<exists>t. relay_step\<^sup>*\<^sup>* try_busy t \<and> queued t = [] \<and> inflight t = [] \<and> mset (map fst (replies t)) = {#1, 2#}"
proof -
  from relay_drains [OF try_busy_run] obtain t where "relay_step\<^sup>*\<^sup>* try_busy t" "queued t = []" "inflight t = []"
    "mset (arrived try_busy) = mset (map fst (replies t))" by blast
  then show ?thesis by (intro exI [of _ t]) (simp add: try_busy_def)
qed

definition try_md5 :: "bytes \<Rightarrow> string" where
  "try_md5 b = (if b = [1] then replicate 32 (CHR ''1'') else replicate 32 (CHR ''0''))"

lemma try_md5_hex: "\<forall>b. length (try_md5 b) = 32 \<and> list_all low_hex (try_md5 b)"
  by (simp add: try_md5_def list_all_iff low_hex_def)

theorem firmware_crash_consistent_witness:
  "names_binary try_md5 (fold (\<lambda>f d. f d) (take 2 (put_steps try_md5 5 ''car'' [1] ''1.0'' ''ESP32'')) [])"
  by (rule firmware_crash_consistent) (simp add: names_binary_def)

lemma try_upload:
  "put_firmware try_md5 t ''car'' [b] ''1.0'' ''ESP32'' st = Inr (manifest_of try_md5 ''car'' [b] ''1.0'' ''ESP32'',
     st(''car'' := fold (\<lambda>f d. f d) (put_steps try_md5 t ''car'' [b] ''1.0'' ''ESP32'') (st ''car'')))"
  by (simp add: put_firmware_def check_upload_def is_logger_id_def is_version_def low_alnum_def alnum_def CHIP_FAMILIES_def MAX_FIRMWARE_def)

theorem upload_then_serve_witness:
  "\<exists>(m :: manifest) st. serve_firmware try_targets st (Some ''::ffff:192.168.1.20'') ''car'' (m_path m) = Served ''application/octet-stream'' (Blob [1]) \<and>
     serve_firmware try_targets st (Some ''192.168.1.21'') ''car'' MANIFEST = NotFound"
proof -
  let ?m = "manifest_of try_md5 ''car'' [1] ''1.0'' ''ESP32''"
  obtain st where "upload_firmware try_md5 5 True try_targets ''car'' [[1]] ''1.0'' ''ESP32'' (\<lambda>_. []) = Inr (?m, st)"
    by (simp add: upload_firmware_def try_targets_def MAX_FIRMWARE_def try_upload)
  note u = upload_then_serve [OF try_md5_hex this]
  have t: "try_targets ''car'' = Some \<lparr>host = ''192.168.1.20'', port = 8080\<rparr>" by (simp add: try_targets_def)
  have "same_address (Some ''::ffff:192.168.1.20'') ''192.168.1.20''" "\<not> same_address (Some ''192.168.1.21'') ''192.168.1.20''"
    by code_simp+
  with u [OF t, of "Some ''::ffff:192.168.1.20''"] u [OF t, of "Some ''192.168.1.21''"]
  have "serve_firmware try_targets st (Some ''::ffff:192.168.1.20'') ''car'' (m_path ?m) = Served ''application/octet-stream'' (Blob [1])"
    and "serve_firmware try_targets st (Some ''192.168.1.21'') ''car'' MANIFEST = NotFound"
    by simp_all
  then show ?thesis by blast
qed

theorem previous_firmware_kept_witness:
  "\<exists>st1 m st2 b t. put_firmware try_md5 6 ''car'' [2] ''1.0'' ''ESP32'' st1 = Inr (m, st2) \<and>
     m_path m \<noteq> firmware_name (try_md5 [1]) \<and> map_of (st2 ''car'') (firmware_name (try_md5 [1])) = Some (Blob b, t)"
proof -
  let ?m = "manifest_of try_md5 ''car'' [1] ''1.0'' ''ESP32''" and ?n = "manifest_of try_md5 ''car'' [2] ''1.0'' ''ESP32''"
  obtain st1 where a: "put_firmware try_md5 5 ''car'' [1] ''1.0'' ''ESP32'' (\<lambda>_. []) = Inr (?m, st1)"
    by (simp add: try_upload)
  obtain st2 where b: "put_firmware try_md5 6 ''car'' [2] ''1.0'' ''ESP32'' st1 = Inr (?n, st2)"
    by (simp add: try_upload)
  have "m_path ?m = firmware_name (try_md5 [1])" "m_path ?n \<noteq> firmware_name (try_md5 [1])"
    by (simp_all add: manifest_of_def firmware_name_inj try_md5_def)
  moreover from this previous_firmware_kept [OF a b] obtain d t
    where "map_of (st2 ''car'') (firmware_name (try_md5 [1])) = Some (Blob d, t)" by auto
  ultimately show ?thesis using b by blast
qed

text \<open>A logger configured under its IPv4-mapped address could never fetch: only the remote address is
  unmapped.  The configuration flow accepts dotted IPv4 addresses only.\<close>

lemma mapped_host_never_matches: "\<not> same_address (Some ''::ffff:192.168.1.20'') ''::ffff:192.168.1.20''"
  by code_simp

lemma configured_targets:
  "configured ts \<Longrightarrow> ts lg = Some t \<Longrightarrow> read_v4 (host t) \<noteq> None \<and> 1 \<le> port t \<and> port t \<le> 65535"
proof (induction arbitrary: lg t rule: configured.induct)
  case (User ts known logger h p lg' t')
  then show ?case
    by (auto simp: step_user_def address_errors_def setup_entry_def Let_def split: if_splits)
next
  case (Reconfigure ts logger h p lg' t')
  then show ?case
    by (auto simp: step_reconfigure_def address_errors_def setup_entry_def split: if_splits)
qed (auto simp: forget_def split: if_splits)

end
