(* ===== verification/Fleet.thy ===== *)
theory Fleet
  imports Collector UdsChunk
begin

text \<open>
  \<open>script/sdlog_fleet.py\<close>: the collector run for every device of a configuration, with a heartbeat
  per device, an alarm and a push.  The child process, the clock, the token file's state, the lock and
  the outcome of writing the heartbeat are inputs of a pass; the heartbeat files are a map from device
  names.  Times are whole microseconds.  Reasons the code only reports are shortened.
\<close>

section \<open>Configuration\<close>

record device =
  d_name :: string
  d_url :: string
  d_push :: "string option"
  d_token :: "string option"

record config =
  cfg_archive :: string
  cfg_state :: string
  cfg_devices :: "device list"
  cfg_stale :: pyfloat
  cfg_min_free :: pyfloat
  cfg_timeout :: pyfloat
  cfg_retries :: "int option"
  cfg_backoff :: "pyfloat option"

text \<open>\<open>x < y\<close> on floats.\<close>

fun flt :: "pyfloat \<Rightarrow> pyfloat \<Rightarrow> bool" where
  "flt NaN _ = False"
| "flt _ NaN = False"
| "flt NegInf y = (y \<noteq> NegInf)"
| "flt x NegInf = False"
| "flt PosInf y = False"
| "flt x PosInf = True"
| "flt (Fin a) (Fin b) = (a < b)"

text \<open>\<open>_number\<close> with the minimum 0, which every caller has.\<close>

definition number :: "(string \<times> toml) list \<Rightarrow> string \<Rightarrow> pyfloat \<Rightarrow> bool \<Rightarrow> string + pyfloat" where
  "number raw key fallback strict =
     bindE (case map_of raw key of
              None \<Rightarrow> Inr fallback
            | Some (TInt n) \<Rightarrow> (if n < 0 \<or> strict \<and> n = 0 then Inl ''too small'' else Inr (py_float n))
            | Some (TFloat x) \<Rightarrow> Inr x
            | Some _ \<Rightarrow> Inl ''not a number'') (\<lambda>x.
       if flt x (Fin 0) \<or> strict \<and> x = Fin 0 then Inl ''too small'' else Inr x)"

definition TOP_KEYS :: "string set" where
  "TOP_KEYS = {''archive'', ''state'', ''stale_after_days'', ''min_free_mb'', ''timeout_s'', ''retries'', ''backoff'', ''device''}"

definition DEVICE_KEYS :: "string set" where
  "DEVICE_KEYS = {''name'', ''url'', ''push_url'', ''token_file''}"

text \<open>\<open>_http_url\<close>; \<open>http_ok\<close> is \<open>urlparse\<close> finding an http(s) scheme and a host.\<close>

definition http_url :: "(string \<Rightarrow> bool) \<Rightarrow> toml \<Rightarrow> string + string" where
  "http_url http_ok v = (case v of TStr s \<Rightarrow> (if http_ok s then Inr s else Inl ''not an http(s) URL'') | _ \<Rightarrow> Inl ''not a string'')"

definition device_of :: "(string \<Rightarrow> bool) \<Rightarrow> string set \<Rightarrow> toml \<Rightarrow> string + device" where
  "device_of http_ok seen entry =
     (case entry of
        TTable kvs \<Rightarrow>
          bindE (guardE (set (map fst kvs) \<subseteq> DEVICE_KEYS) ''unknown key(s)'') (\<lambda>_.
          bindE (case map_of kvs ''name'' of
                   Some (TStr n) \<Rightarrow> (if is_safe_name n then Inr n else Inl ''bad name'') | _ \<Rightarrow> Inl ''bad name'') (\<lambda>name.
          bindE (guardE (name \<notin> seen) ''duplicate name'') (\<lambda>_.
          bindE (case map_of kvs ''url'' of None \<Rightarrow> Inl ''url is required'' | Some v \<Rightarrow> http_url http_ok v) (\<lambda>url.
          bindE (case map_of kvs ''push_url'' of
                   None \<Rightarrow> Inr None | Some v \<Rightarrow> bindE (http_url http_ok v) (\<lambda>u. Inr (Some u))) (\<lambda>push.
          bindE (case map_of kvs ''token_file'' of
                   None \<Rightarrow> Inr None
                 | Some (TStr t) \<Rightarrow> (if starts_with ''/'' t then Inr (Some t) else Inl ''token_file must be an absolute path'')
                 | Some _ \<Rightarrow> Inl ''token_file must be an absolute path'') (\<lambda>token.
          Inr \<lparr>d_name = name, d_url = url, d_push = push, d_token = token\<rparr>))))))
      | _ \<Rightarrow> Inl ''not a table'')"

fun devices_of :: "(string \<Rightarrow> bool) \<Rightarrow> string set \<Rightarrow> toml list \<Rightarrow> string + device list" where
  "devices_of http_ok seen [] = Inr []"
| "devices_of http_ok seen (e # es) =
     bindE (device_of http_ok seen e) (\<lambda>d.
     bindE (devices_of http_ok (insert (d_name d) seen) es) (\<lambda>ds. Inr (d # ds)))"

definition directory_of :: "(string \<times> toml) list \<Rightarrow> string \<Rightarrow> string + string" where
  "directory_of raw key =
     (case map_of raw key of Some (TStr s) \<Rightarrow> (if s = [] then Inl ''must be set'' else Inr s) | _ \<Rightarrow> Inl ''must be set'')"

text \<open>\<open>load_config\<close> of the decoded file.\<close>

definition load_config :: "(string \<Rightarrow> bool) \<Rightarrow> (string \<times> toml) list \<Rightarrow> string + config" where
  "load_config http_ok raw =
     bindE (guardE (set (map fst raw) \<subseteq> TOP_KEYS) ''unknown key(s)'') (\<lambda>_.
     bindE (directory_of raw ''archive'') (\<lambda>arch.
     bindE (directory_of raw ''state'') (\<lambda>state.
     bindE (case map_of raw ''device'' of
              Some (TArray es) \<Rightarrow> (if es = [] then Inl ''no device'' else devices_of http_ok {} es)
            | _ \<Rightarrow> Inl ''no device'') (\<lambda>devices.
     bindE (case map_of raw ''retries'' of
              None \<Rightarrow> Inr None
            | Some (TInt n) \<Rightarrow> (if n < 1 then Inl ''retries'' else Inr (Some n))
            | Some _ \<Rightarrow> Inl ''retries'') (\<lambda>retries.
     bindE (if map_of raw ''backoff'' = None then Inr None
            else bindE (number raw ''backoff'' (Fin 0) False) (\<lambda>x. Inr (Some x))) (\<lambda>backoff.
     bindE (number raw ''stale_after_days'' (Fin 3) True) (\<lambda>stale.
     bindE (number raw ''min_free_mb'' (Fin 1024) False) (\<lambda>min_free.
     bindE (number raw ''timeout_s'' (Fin 3600) True) (\<lambda>timeout.
     Inr \<lparr>cfg_archive = arch, cfg_state = state, cfg_devices = devices, cfg_stale = stale, cfg_min_free = min_free,
        cfg_timeout = timeout, cfg_retries = retries, cfg_backoff = backoff\<rparr>)))))))))"

section \<open>Text\<close>

definition any_space :: "char \<Rightarrow> bool" where
  "any_space c \<longleftrightarrow> (of_char c :: nat) \<in> {9, 10, 11, 12, 13, 28, 29, 30, 31, 32, 133, 160}"

definition py_strip :: "string \<Rightarrow> string" where
  "py_strip s = rev (dropWhile any_space (rev (dropWhile any_space s)))"

definition line_end :: "char \<Rightarrow> bool" where
  "line_end c \<longleftrightarrow> (of_char c :: nat) \<in> {10, 11, 12, 13, 28, 29, 30, 133}"

text \<open>\<open>str.splitlines\<close>.\<close>

fun splitlines :: "string \<Rightarrow> string list" where
  "splitlines [] = []"
| "splitlines (c # s) =
     (if line_end c
      then [] # splitlines (if c = CHR 13 \<and> s \<noteq> [] \<and> hd s = CHR 10 then tl s else s)
      else (case splitlines s of
              [] \<Rightarrow> [[c]]
            | l # ls \<Rightarrow> if s \<noteq> [] \<and> line_end (hd s) then [c] # ls else (c # l) # ls))"

text \<open>\<open>str.split()\<close>.\<close>

definition words :: "string \<Rightarrow> string list" where
  "words s = [w \<leftarrow> foldr (\<lambda>c ws. if any_space c then [] # ws else (c # hd ws) # tl ws) s [[]]. w \<noteq> []]"

text \<open>The UTF-8 bytes of the ellipsis.\<close>

definition ellipsis :: string where
  "ellipsis = map char_of [0xE2 :: nat, 0x80, 0xA6]"

definition compact :: "string \<Rightarrow> nat \<Rightarrow> string" where
  "compact s limit = (let t = join_with '' '' (words s) in if length t \<le> limit then t else take (limit - 1) t @ ellipsis)"

definition last_line :: "string \<Rightarrow> string" where
  "last_line s = (let ls = [l \<leftarrow> map py_strip (splitlines s). l \<noteq> []] in if ls = [] then [] else last ls)"

text \<open>\<open>TORN (\S+): (.+)\<close>: the longest run without space, which has to end in the colon.\<close>

definition torn_line :: "string \<Rightarrow> (string \<times> string) option" where
  "torn_line l =
     (if \<not> starts_with ''TORN '' l then None
      else
        (let rest = drop 5 l; run = takeWhile (\<lambda>c. \<not> any_space c) rest; more = drop (length run) rest in
         if length run < 2 \<or> last run \<noteq> CHR '':'' \<or> length more < 2 \<or> hd more \<noteq> CHR '' '' then None
         else Some (butlast run, tl more)))"

definition torn_lines :: "string \<Rightarrow> (string \<times> string) list" where
  "torn_lines s = List.map_filter (\<lambda>l. torn_line (py_strip l)) (splitlines s)"

section \<open>One pass of one device\<close>

record pass_result =
  p_result :: string
  p_exit :: "int option"
  p_reason :: "string option"
  p_summary :: "string option"
  p_torn :: "(string \<times> string) list"
  p_refused :: bool

definition no_result :: "string \<Rightarrow> pass_result" where
  "no_result r = \<lparr>p_result = r, p_exit = None, p_reason = None, p_summary = None, p_torn = [], p_refused = False\<rparr>"

text \<open>The heartbeat file.  \<open>h_last_error\<close>: when, the exit status and the reason; \<open>h_locked\<close>: when
  and the credential.\<close>

record heartbeat =
  h_created :: int
  h_last_success :: "int option"
  h_verdict :: string
  h_last_error :: "(int \<times> int option \<times> string option) option"
  h_summary :: "string option"
  h_url :: string
  h_last_run :: int
  h_last_result :: string
  h_last_exit :: "int option"
  h_locked :: "(int \<times> string) option"
  h_torn :: nat
  h_last_torn :: "(int \<times> string \<times> string) option"

datatype child = Exited int string | TimedOut | NotRun

text \<open>What a pass finds: the time, whether the device's lock is held, the disk's problem, the token
  file's state, what the collector does with its arguments, and whether the heartbeat can be written.\<close>

record pass_env =
  e_at :: int
  e_held :: bool
  e_blocked :: "string option"
  e_mtime :: "int option"
  e_run :: "string list \<Rightarrow> child"
  e_writes :: bool

record fleet =
  beats :: "string \<Rightarrow> heartbeat option"
  asked :: "(string \<times> string list) list"
  pushes :: "(string \<times> string \<times> string) list"

definition FLEET_TEMPFAIL :: int where "FLEET_TEMPFAIL = 75"
definition FLEET_NOPERM :: int where "FLEET_NOPERM = 77"
definition PUSH_MSG_MAX :: nat where "PUSH_MSG_MAX = 200"
definition MIB :: rat where "MIB = 1024 * 1024"

definition credential_of :: "device \<Rightarrow> int option \<Rightarrow> string" where
  "credential_of d mtime =
     (case d_token d of
        None \<Rightarrow> ''none''
      | Some t \<Rightarrow> t @ ''@'' @ (case mtime of None \<Rightarrow> ''missing'' | Some n \<Rightarrow> show_int n))"

text \<open>\<open>_argv\<close> after the interpreter and the script.\<close>

definition argv :: "config \<Rightarrow> device \<Rightarrow> string list" where
  "argv cfg d =
     [''pull'', d_url d, ''--into'', cfg_archive cfg, ''--expect'', d_name d]
     @ (case cfg_retries cfg of None \<Rightarrow> [] | Some n \<Rightarrow> [''--retries'', show_int n])
     @ (case cfg_backoff cfg of None \<Rightarrow> [] | Some x \<Rightarrow> [''--backoff'', fmt_g x])
     @ (case d_token d of None \<Rightarrow> [] | Some t \<Rightarrow> [''--token-file'', t])"

definition collect_result :: "child \<Rightarrow> pass_result" where
  "collect_result c =
     (case c of
        TimedOut \<Rightarrow> (no_result ''error'')\<lparr>p_reason := Some ''timeout''\<rparr>
      | NotRun \<Rightarrow> (no_result ''error'')\<lparr>p_reason := Some ''collector could not run''\<rparr>
      | Exited code text \<Rightarrow>
          (if code = 0
           then (no_result ''ok'')\<lparr>p_exit := Some 0, p_summary := Some (last_line text), p_torn := torn_lines text\<rparr>
           else if code = FLEET_TEMPFAIL
           then (no_result ''offline'')\<lparr>p_exit := Some code, p_reason := Some (last_line text)\<rparr>
           else if code = FLEET_NOPERM
           then (no_result ''error'')\<lparr>p_exit := Some code, p_reason := Some (''refused, locked: '' @ last_line text), p_refused := True\<rparr>
           else (no_result ''error'')\<lparr>p_exit := Some code,
                  p_reason := Some (''exit '' @ show_int code @ '': '' @
                    (if compact text 500 = [] then ''no output'' else compact text 500))\<rparr>))"

definition disk_problem :: "config \<Rightarrow> int option \<Rightarrow> string option" where
  "disk_problem cfg free =
     (case free of
        None \<Rightarrow> Some ''archive not usable''
      | Some n \<Rightarrow>
          (if flt (Fin (of_int n)) (fmul (cfg_min_free cfg) (Fin MIB)) then Some ''archive low on space'' else None))"

text \<open>\<open>_record\<close> without the write.\<close>

definition new_heartbeat :: "int \<Rightarrow> heartbeat" where
  "new_heartbeat tm = \<lparr>h_created = tm, h_last_success = None, h_verdict = ''ok'', h_last_error = None, h_summary = None,
     h_url = [], h_last_run = tm, h_last_result = [], h_last_exit = None, h_locked = None, h_torn = 0, h_last_torn = None\<rparr>"

definition update_heartbeat :: "device \<Rightarrow> pass_result \<Rightarrow> int \<Rightarrow> string \<Rightarrow> heartbeat \<Rightarrow> heartbeat" where
  "update_heartbeat d r tm cred h =
     (let h = h\<lparr>h_url := d_url d, h_last_run := tm, h_last_result := p_result r, h_last_exit := p_exit r\<rparr>;
          h = (if p_result r = ''ok''
               then h\<lparr>h_last_success := Some tm, h_verdict := ''ok'', h_summary := p_summary r, h_locked := None\<rparr> else h);
          h = (if p_refused r then h\<lparr>h_locked := Some (tm, cred)\<rparr> else h)
      in if p_torn r \<noteq> []
         then h\<lparr>h_torn := h_torn h + length (p_torn r), h_last_torn := Some (tm, fst (last (p_torn r)), snd (last (p_torn r)))\<rparr>
         else if p_result r = ''error''
         then h\<lparr>h_verdict := ''error'', h_last_error := Some (tm, p_exit r, p_reason r)\<rparr>
         else h)"

text \<open>\<open>_status_of\<close>: the alarm and the age in days, computed in binary64.\<close>

definition age_days :: "heartbeat \<Rightarrow> int \<Rightarrow> rat" where
  "age_days h tm =
     (let since = (case h_last_success h of Some t \<Rightarrow> t | None \<Rightarrow> h_created h)
      in round53 (round53 (of_int (tm - since) / 1000000) / 86400))"

definition alarmed :: "config \<Rightarrow> heartbeat \<Rightarrow> int \<Rightarrow> bool" where
  "alarmed cfg h tm \<longleftrightarrow> h_verdict h = ''error'' \<or> flt (cfg_stale cfg) (Fin (age_days h tm))"

text \<open>\<open>f\"{x:.1f}\"\<close> and \<open>f\"{x:.0f}\"\<close>.\<close>

definition fixed1 :: "rat \<Rightarrow> string" where
  "fixed1 x = (if x < 0 then CHR ''-'' # tenths (- x) else tenths x)"

definition fixed0 :: "rat \<Rightarrow> string" where
  "fixed0 x = (if x < 0 then CHR ''-'' # show_nat (nat (round_even (- x))) else show_nat (nat (round_even x)))"

definition human_age :: "rat \<Rightarrow> string" where
  "human_age days =
     (let seconds = round53 (days * 86400) in
      if seconds < 3600 then fixed0 (round53 (seconds / 60)) @ '' min''
      else if seconds < 86400 then fixed1 (round53 (seconds / 3600)) @ '' h''
      else fixed1 days @ '' d'')"

definition or_None :: "string option \<Rightarrow> string" where
  "or_None s = (case s of None \<Rightarrow> ''None'' | Some t \<Rightarrow> t)"

definition push_message :: "config \<Rightarrow> heartbeat \<Rightarrow> int \<Rightarrow> pass_result \<Rightarrow> string" where
  "push_message cfg h tm r =
     (let age = age_days h tm;
          parts =
            (if flt (cfg_stale cfg) (Fin age)
             then [''no collection for '' @ fixed1 age @ '' d (limit '' @ fmt_g (cfg_stale cfg) @ '' d)''] else [])
            @ (if p_result r = ''ok''
               then [''ok: '' @ (case p_summary r of None \<Rightarrow> ''collected'' | Some s \<Rightarrow> if s = [] then ''collected'' else s)]
               else if p_result r = ''error'' then [''error: '' @ or_None (p_reason r)]
               else if p_result r = ''locked'' then [''locked: '' @ or_None (p_reason r)]
               else [''offline; last collection '' @ human_age age @ '' ago'']
                 @ (if h_verdict h = ''error''
                    then [''unresolved error: '' @ (case h_last_error h of None \<Rightarrow> ''None'' | Some (_, _, why) \<Rightarrow> or_None why)]
                    else []))
      in compact (join_with ''; '' parts) PUSH_MSG_MAX)"

text \<open>\<open>_pass\<close>.\<close>

definition fleet_pass :: "config \<Rightarrow> device \<Rightarrow> pass_env \<Rightarrow> fleet \<Rightarrow> pass_result \<times> fleet" where
  "fleet_pass cfg d e f =
     (if e_held e then ((no_result ''busy'')\<lparr>p_reason := Some ''another pass holds the lock''\<rparr>, f)
      else
        (let cred = credential_of d (e_mtime e);
             old = beats f (d_name d);
             locked = (case old of None \<Rightarrow> None | Some h \<Rightarrow> h_locked h);
             (r, f) =
               (case e_blocked e of
                  Some why \<Rightarrow> ((no_result ''error'')\<lparr>p_reason := Some why\<rparr>, f)
                | None \<Rightarrow>
                    (if map_option snd locked = Some cred
                     then ((no_result ''locked'')\<lparr>p_reason := Some ''not asking until the token file changes''\<rparr>, f)
                     else (collect_result (e_run e (argv cfg d)), f\<lparr>asked := asked f @ [(d_name d, argv cfg d)]\<rparr>)));
             h = update_heartbeat d r (e_at e) cred (case old of None \<Rightarrow> new_heartbeat (e_at e) | Some h \<Rightarrow> h);
             f = (if e_writes e then f\<lparr>beats := (beats f)(d_name d \<mapsto> h)\<rparr> else f);
             f = (case d_push d of
                    None \<Rightarrow> f
                  | Some _ \<Rightarrow> f\<lparr>pushes := pushes f @ [(d_name d, if alarmed cfg h (e_at e) then ''down'' else ''up'',
                      push_message cfg h (e_at e) r)]\<rparr>)
         in (r, f)))"

text \<open>\<open>run_once\<close>, the devices in the order their threads finish: each with what its pass finds.\<close>

fun run_once :: "config \<Rightarrow> (device \<times> pass_env) list \<Rightarrow> fleet \<Rightarrow> (string \<times> pass_result) list \<times> fleet" where
  "run_once cfg [] f = ([], f)"
| "run_once cfg ((d, e) # ds) f =
     (let (r, f) = fleet_pass cfg d e f; (rs, f) = run_once cfg ds f in ((d_name d, r) # rs, f))"

definition exit_code :: "(string \<times> pass_result) list \<Rightarrow> int" where
  "exit_code rs = (if \<exists>r\<in>set rs. p_result (snd r) \<in> {''error'', ''locked''} then 1 else 0)"

text \<open>\<open>print_results\<close> and \<open>print_status\<close>: the lines, and the latter's exit status.  The dash is the
  UTF-8 bytes of the em dash.\<close>

definition dash :: string where
  "dash = '' '' @ map char_of [0xE2 :: nat, 0x80, 0x94] @ '' ''"

definition result_line :: "string \<times> pass_result \<Rightarrow> string" where
  "result_line nr =
     (case nr of (name, r) \<Rightarrow>
        let detail = (if p_result r = ''ok'' then p_summary r else p_reason r)
        in name @ '': '' @ p_result r @ (case detail of None \<Rightarrow> [] | Some t \<Rightarrow> if t = [] then [] else dash @ t))"

definition status_line :: "config \<Rightarrow> (int \<Rightarrow> string) \<Rightarrow> int \<Rightarrow> string \<Rightarrow> heartbeat option \<Rightarrow> string" where
  "status_line cfg show_time tm name h =
     (case h of
        None \<Rightarrow> name @ '': never run''
      | Some h \<Rightarrow>
          name @ '': '' @ (if alarmed cfg h tm then ''ALARM'' else ''ok'') @ dash @ ''last pass '' @ h_last_result h
          @ '' at '' @ show_time (h_last_run h) @ '', '' @ (if h_last_success h = None then ''never collected'' else ''last success'')
          @ '' '' @ human_age (age_days h tm) @ '' ago''
          @ (if h_verdict h = ''error''
             then ''; error: '' @ (case h_last_error h of None \<Rightarrow> ''None'' | Some (_, _, why) \<Rightarrow> or_None why) else [])
          @ (case h_locked h of None \<Rightarrow> [] | Some (t, _) \<Rightarrow> ''; auth locked since '' @ show_time t))"

definition print_status :: "config \<Rightarrow> (int \<Rightarrow> string) \<Rightarrow> int \<Rightarrow> fleet \<Rightarrow> string list \<times> int" where
  "print_status cfg show_time tm f =
     (map (\<lambda>d. status_line cfg show_time tm (d_name d) (beats f (d_name d))) (cfg_devices cfg),
      if \<exists>d\<in>set (cfg_devices cfg). \<exists>h. beats f (d_name d) = Some h \<and> alarmed cfg h tm then 1 else 0)"

end
