(* ===== verification/FleetFacts.thy ===== *)
theory FleetFacts
  imports Fleet
begin

text \<open>
  The fleet's policy: a refusal is remembered until the token file changes, an error stays in alarm
  until a pass succeeds, and devices do not disturb each other.  A small fleet closes the theory.
\<close>

section \<open>One pass\<close>

text \<open>Later passes over any devices, in any order.\<close>

fun fleet_passes :: "config \<Rightarrow> (device \<times> pass_env) list \<Rightarrow> fleet \<Rightarrow> fleet" where
  "fleet_passes cfg [] f = f"
| "fleet_passes cfg ((d, e) # ds) f = fleet_passes cfg ds (snd (fleet_pass cfg d e f))"

lemma run_once_passes: "snd (run_once cfg ds f) = fleet_passes cfg ds f"
  by (induction ds arbitrary: f) (auto simp: split_def Let_def)

lemma pass_other:
  assumes "n \<noteq> d_name d"
  shows "beats (snd (fleet_pass cfg d e f)) n = beats f n"
    and "[x \<leftarrow> asked (snd (fleet_pass cfg d e f)). fst x = n] = [x \<leftarrow> asked f. fst x = n]"
  using assms
  by (cases "e_held e"; cases "e_blocked e"; cases "d_push d"; simp add: fleet_pass_def Let_def)+

definition pass_input :: "config \<Rightarrow> device \<Rightarrow> pass_env \<Rightarrow> heartbeat option \<Rightarrow> pass_result" where
  "pass_input cfg d e old =
     (case e_blocked e of
        Some why \<Rightarrow> (no_result ''error'')\<lparr>p_reason := Some why\<rparr>
      | None \<Rightarrow>
          (if map_option snd (case old of None \<Rightarrow> None | Some h \<Rightarrow> h_locked h) = Some (credential_of d (e_mtime e))
           then (no_result ''locked'')\<lparr>p_reason := Some ''not asking until the token file changes''\<rparr>
           else collect_result (e_run e (argv cfg d))))"

lemma fleet_pass_own:
  "\<not> e_held e \<Longrightarrow> fst (fleet_pass cfg d e f) = pass_input cfg d e (beats f (d_name d))"
  "\<not> e_held e \<Longrightarrow> beats (snd (fleet_pass cfg d e f)) (d_name d) =
     (if e_writes e
      then Some (update_heartbeat d (pass_input cfg d e (beats f (d_name d))) (e_at e) (credential_of d (e_mtime e))
             (case beats f (d_name d) of None \<Rightarrow> new_heartbeat (e_at e) | Some h \<Rightarrow> h))
      else beats f (d_name d))"
  "e_held e \<Longrightarrow> fleet_pass cfg d e f = ((no_result ''busy'')\<lparr>p_reason := Some ''another pass holds the lock''\<rparr>, f)"
  by (auto simp: fleet_pass_def pass_input_def Let_def split: option.split)

lemma no_result_fields [simp]:
  "p_result (no_result r) = r" "p_torn (no_result r) = []" "\<not> p_refused (no_result r)"
  by (simp_all add: no_result_def)

lemma collect_result_cases:
  "p_torn (collect_result c) \<noteq> [] \<Longrightarrow> p_result (collect_result c) = ''ok''"
  "p_refused (collect_result c) \<longleftrightarrow> (\<exists>out. c = Exited FLEET_NOPERM out)"
  "p_result (collect_result c) = ''ok'' \<longleftrightarrow> (\<exists>out. c = Exited 0 out)"
  by (auto simp: collect_result_def FLEET_TEMPFAIL_def FLEET_NOPERM_def split: child.split)

section \<open>Refusals\<close>

definition locked_with :: "fleet \<Rightarrow> string \<Rightarrow> string \<Rightarrow> bool" where
  "locked_with f n cred \<longleftrightarrow> (\<exists>h t. beats f n = Some h \<and> h_locked h = Some (t, cred))"

lemma refused_locks:
  assumes "p_refused (fst (fleet_pass cfg d e f))" and "e_writes e"
  shows "locked_with (snd (fleet_pass cfg d e f)) (d_name d) (credential_of d (e_mtime e))"
proof -
  have held: "\<not> e_held e" using assms(1) by (auto simp: fleet_pass_own(3))
  let ?r = "pass_input cfg d e (beats f (d_name d))"
  have "p_refused ?r" using assms(1) held by (simp add: fleet_pass_own)
  then show ?thesis
    using held assms(2) by (simp add: locked_with_def fleet_pass_own(2) update_heartbeat_def Let_def)
qed

lemma locked_pass:
  assumes "locked_with f (d_name d) (credential_of d (e_mtime e))"
  shows "locked_with (snd (fleet_pass cfg d e f)) (d_name d) (credential_of d (e_mtime e))"
    and "asked (snd (fleet_pass cfg d e f)) = asked f"
proof -
  from assms obtain h t where h: "beats f (d_name d) = Some h" "h_locked h = Some (t, credential_of d (e_mtime e))"
    by (auto simp: locked_with_def)
  let ?r = "pass_input cfg d e (beats f (d_name d))"
  have r: "p_result ?r \<noteq> ''ok''" "\<not> p_refused ?r" "p_torn ?r = []"
    by (auto simp: pass_input_def h split: option.split)
  show "asked (snd (fleet_pass cfg d e f)) = asked f"
    by (auto simp: fleet_pass_def h Let_def split: option.split)
  show "locked_with (snd (fleet_pass cfg d e f)) (d_name d) (credential_of d (e_mtime e))"
  proof (cases "e_held e")
    case True
    then show ?thesis using assms by (simp add: fleet_pass_own(3))
  next
    case False
    then show ?thesis using r h by (simp add: locked_with_def fleet_pass_own(2) update_heartbeat_def Let_def)
  qed
qed

lemma locked_stays:
  assumes "\<forall>(d', e')\<in>set ps. d_name d' = n \<longrightarrow> credential_of d' (e_mtime e') = cred" and "locked_with f n cred"
  shows "[x \<leftarrow> asked (fleet_passes cfg ps f). fst x = n] = [x \<leftarrow> asked f. fst x = n] \<and> locked_with (fleet_passes cfg ps f) n cred"
  using assms
proof (induction ps arbitrary: f)
  case (Cons p ps)
  obtain d e where p: "p = (d, e)" by (cases p)
  let ?g = "snd (fleet_pass cfg d e f)"
  have g: "[x \<leftarrow> asked ?g. fst x = n] = [x \<leftarrow> asked f. fst x = n] \<and> locked_with ?g n cred"
  proof (cases "d_name d = n")
    case True
    then have "credential_of d (e_mtime e) = cred" using Cons.prems(1) p by simp
    then show ?thesis using locked_pass [of f d e cfg] Cons.prems(2) True by simp
  next
    case False
    then show ?thesis using pass_other [of n d cfg e f] Cons.prems(2) by (simp add: locked_with_def)
  qed
  with Cons show ?case by (simp add: p)
qed simp


section \<open>Alarms\<close>

lemma error_verdict:
  assumes "p_result r = ''error''" and "p_torn r = []"
  shows "h_verdict (update_heartbeat d r t c h) = ''error''"
  using assms by (simp add: update_heartbeat_def Let_def)

lemma verdict_keeps: "p_result r \<noteq> ''ok'' \<Longrightarrow> h_verdict h = ''error'' \<Longrightarrow> h_verdict (update_heartbeat d r t c h) = ''error''"
  by (simp add: update_heartbeat_def Let_def)

definition in_error :: "fleet \<Rightarrow> string \<Rightarrow> bool" where
  "in_error f n \<longleftrightarrow> (\<exists>h. beats f n = Some h \<and> h_verdict h = ''error'')"

lemma error_recorded:
  assumes "p_result (fst (fleet_pass cfg d e f)) = ''error''" and "e_writes e"
  shows "in_error (snd (fleet_pass cfg d e f)) (d_name d)"
proof -
  have held: "\<not> e_held e" using assms(1) by (auto simp: fleet_pass_own(3))
  let ?r = "pass_input cfg d e (beats f (d_name d))"
  have r: "p_result ?r = ''error''" using assms(1) held by (simp add: fleet_pass_own)
  moreover have "p_torn ?r = []"
  proof (rule ccontr)
    assume "p_torn ?r \<noteq> []"
    then have "p_result ?r = ''ok''"
      by (auto simp: pass_input_def dest: collect_result_cases(1) split: option.splits if_splits)
    with r show False by simp
  qed
  ultimately show ?thesis
    using held assms(2) error_verdict by (simp add: in_error_def fleet_pass_own(2))
qed

lemma error_pass:
  assumes "in_error f (d_name d)" and "p_result (fst (fleet_pass cfg d e f)) \<noteq> ''ok''"
  shows "in_error (snd (fleet_pass cfg d e f)) (d_name d)"
proof (cases "e_held e")
  case True
  then show ?thesis using assms(1) by (simp add: fleet_pass_own(3))
next
  case False
  from assms(1) obtain h where h: "beats f (d_name d) = Some h" "h_verdict h = ''error''" by (auto simp: in_error_def)
  have "p_result (pass_input cfg d e (Some h)) \<noteq> ''ok''" using assms(2) False h by (simp add: fleet_pass_own)
  then show ?thesis using False h verdict_keeps by (simp add: in_error_def fleet_pass_own(2))
qed

fun pass_results :: "config \<Rightarrow> (device \<times> pass_env) list \<Rightarrow> fleet \<Rightarrow> (string \<times> pass_result) list" where
  "pass_results cfg [] f = []"
| "pass_results cfg ((d, e) # ds) f =
     (d_name d, fst (fleet_pass cfg d e f)) # pass_results cfg ds (snd (fleet_pass cfg d e f))"

lemma run_once_results: "fst (run_once cfg ds f) = pass_results cfg ds f"
  by (induction ds arbitrary: f) (auto simp: split_def Let_def)

lemma error_stays:
  "\<forall>x\<in>set (pass_results cfg ps f). fst x = n \<longrightarrow> p_result (snd x) \<noteq> ''ok'' \<Longrightarrow> in_error f n \<Longrightarrow>
   in_error (fleet_passes cfg ps f) n"
proof (induction ps arbitrary: f)
  case (Cons p ps)
  obtain d e where p: "p = (d, e)" by (cases p)
  have "in_error (snd (fleet_pass cfg d e f)) n"
  proof (cases "d_name d = n")
    case True
    then have "p_result (fst (fleet_pass cfg d e f)) \<noteq> ''ok''" using Cons.prems(1) by (simp add: p)
    then show ?thesis using Cons.prems(2) error_pass True by blast
  next
    case False
    then show ?thesis using Cons.prems(2) pass_other(1) [of n d cfg e f] by (simp add: in_error_def)
  qed
  with Cons show ?case by (simp add: p)
qed simp

text \<open>
  C24: an error stays loud.  Once a pass of a device has ended in an error that could be recorded,
  \<open>status\<close> reports an alarm and exits with 1 at any later time, until a pass of that device succeeds.
\<close>

theorem error_stays_loud:
  assumes "fst (fleet_pass cfg d e f) = r" and "p_result r = ''error''" and "e_writes e" and "d \<in> set (cfg_devices cfg)"
    and "\<forall>x\<in>set (pass_results cfg ps (snd (fleet_pass cfg d e f))). fst x = d_name d \<longrightarrow> p_result (snd x) \<noteq> ''ok''"
  shows "snd (print_status cfg show_time t (fleet_passes cfg ps (snd (fleet_pass cfg d e f)))) = 1"
proof -
  have "in_error (snd (fleet_pass cfg d e f)) (d_name d)" using assms(1-3) error_recorded by blast
  from error_stays [OF assms(5) this] have "in_error (fleet_passes cfg ps (snd (fleet_pass cfg d e f))) (d_name d)" .
  with assms(4) show ?thesis by (auto simp: print_status_def in_error_def alarmed_def)
qed

section \<open>Devices do not disturb each other\<close>

lemma fleet_pass_local:
  assumes "beats f (d_name d) = beats g (d_name d)"
  shows "fst (fleet_pass cfg d e f) = fst (fleet_pass cfg d e g)"
    and "beats (snd (fleet_pass cfg d e f)) (d_name d) = beats (snd (fleet_pass cfg d e g)) (d_name d)"
  by (cases "e_held e"; use assms in \<open>simp add: fleet_pass_own\<close>)+

lemma passes_skip: "n \<notin> d_name ` fst ` set ps \<Longrightarrow> beats (fleet_passes cfg ps f) n = beats f n"
  by (induction cfg ps f rule: fleet_passes.induct) (auto simp: pass_other)

lemma passes_beat:
  "distinct (map (d_name \<circ> fst) ps) \<Longrightarrow> (d, e) \<in> set ps \<Longrightarrow>
   beats (fleet_passes cfg ps f) (d_name d) = beats (snd (fleet_pass cfg d e f)) (d_name d)"
proof (induction ps arbitrary: f)
  case (Cons p ps)
  obtain d' e' where p: "p = (d', e')" by (cases p)
  show ?case
  proof (cases "(d, e) = (d', e')")
    case True
    then have "d_name d \<notin> d_name ` fst ` set ps" using Cons.prems(1) by (auto simp: p)
    then show ?thesis using True by (simp add: p passes_skip)
  next
    case False
    then have m: "(d, e) \<in> set ps" and n: "d_name d \<noteq> d_name d'" using Cons.prems by (force simp: p)+
    have "beats (fleet_passes cfg ps (snd (fleet_pass cfg d' e' f))) (d_name d) =
        beats (snd (fleet_pass cfg d e (snd (fleet_pass cfg d' e' f)))) (d_name d)"
      using Cons.IH m Cons.prems(1) by simp
    also have "\<dots> = beats (snd (fleet_pass cfg d e f)) (d_name d)"
      by (rule fleet_pass_local(2)) (simp add: pass_other(1) [OF n])
    finally show ?thesis by (simp add: p)
  qed
qed simp

lemma passes_results:
  "distinct (map (d_name \<circ> fst) ps) \<Longrightarrow>
   set (pass_results cfg ps f) = (\<lambda>(d, e). (d_name d, fst (fleet_pass cfg d e f))) ` set ps"
proof (induction ps arbitrary: f)
  case (Cons p ps)
  obtain d e where p: "p = (d, e)" by (cases p)
  let ?g = "snd (fleet_pass cfg d e f)"
  have "(\<lambda>(d, e). (d_name d, fst (fleet_pass cfg d e ?g))) ` set ps = (\<lambda>(d, e). (d_name d, fst (fleet_pass cfg d e f))) ` set ps"
  proof (rule image_cong [OF refl])
    fix q
    assume q: "q \<in> set ps"
    obtain d' e' where q': "q = (d', e')" by (cases q)
    have "d_name d' \<noteq> d_name d" using q Cons.prems by (force simp: p q')
    then have "beats ?g (d_name d') = beats f (d_name d')" by (rule pass_other(1))
    from fleet_pass_local(1) [OF this] show "(\<lambda>(d, e). (d_name d, fst (fleet_pass cfg d e ?g))) q = (\<lambda>(d, e). (d_name d, fst (fleet_pass cfg d e f))) q"
      by (simp add: q')
  qed
  with Cons show ?case by (simp add: p)
qed simp

text \<open>
  C37: the order in which the devices' passes finish does not matter.  Two runs of the same passes in
  different orders leave the same heartbeats and give each device the same result, so the same exit
  status.
\<close>

theorem run_once_order:
  assumes "distinct (map (d_name \<circ> fst) ps)" and "set qs = set ps" and "distinct (map (d_name \<circ> fst) qs)"
  shows "beats (snd (run_once cfg ps f)) = beats (snd (run_once cfg qs f)) \<and>
     set (fst (run_once cfg ps f)) = set (fst (run_once cfg qs f)) \<and>
     exit_code (fst (run_once cfg ps f)) = exit_code (fst (run_once cfg qs f))"
proof -
  have "beats (snd (run_once cfg ps f)) n = beats (snd (run_once cfg qs f)) n" for n
  proof (cases "n \<in> d_name ` fst ` set ps")
    case True
    then obtain d e where "(d, e) \<in> set ps" "n = d_name d" by force
    then show ?thesis using passes_beat assms by (simp add: run_once_passes)
  next
    case False
    then show ?thesis using passes_skip [of n ps] passes_skip [of n qs] assms(2) by (simp add: run_once_passes)
  qed
  then have "beats (snd (run_once cfg ps f)) = beats (snd (run_once cfg qs f))" by (rule ext)
  moreover have results: "set (fst (run_once cfg ps f)) = set (fst (run_once cfg qs f))"
    unfolding run_once_results passes_results [OF assms(1)] passes_results [OF assms(3)] assms(2) ..
  moreover have "exit_code (fst (run_once cfg ps f)) = exit_code (fst (run_once cfg qs f))"
    unfolding exit_code_def results ..
  ultimately show ?thesis by (intro conjI)
qed

section \<open>A small fleet\<close>

definition try_device :: device where
  "try_device = \<lparr>d_name = ''car'', d_url = ''http://car'', d_push = None, d_token = Some ''/t''\<rparr>"

definition try_config :: config where
  "try_config = \<lparr>cfg_archive = ''/a'', cfg_state = ''/s'', cfg_devices = [try_device], cfg_stale = Fin 3, cfg_min_free = Fin 1024,
     cfg_timeout = Fin 3600, cfg_retries = None, cfg_backoff = None\<rparr>"

definition try_find :: "int \<Rightarrow> child \<Rightarrow> bool \<Rightarrow> pass_env" where
  "try_find t c writes = \<lparr>e_at = t, e_held = False, e_blocked = None, e_mtime = Some 5, e_run = (\<lambda>_. c), e_writes = writes\<rparr>"

definition no_fleet :: fleet where
  "no_fleet = \<lparr>beats = (\<lambda>_. None), asked = [], pushes = []\<rparr>"

lemma try_refused: "p_refused (fst (fleet_pass try_config try_device (try_find 0 (Exited 77 ''no'') w) no_fleet))"
  by (simp add: fleet_pass_own try_find_def pass_input_def no_fleet_def collect_result_def FLEET_TEMPFAIL_def FLEET_NOPERM_def)


text \<open>A refusal whose heartbeat could not be written is forgotten: the next pass asks again.\<close>

lemma unwritten_refusal_is_repeated:
  "length (asked (fleet_passes try_config [(try_device, try_find 1 (Exited 77 ''no'') False), (try_device, try_find 2 (Exited 77 ''no'') False)]
     (snd (fleet_pass try_config try_device (try_find 0 (Exited 77 ''no'') False) no_fleet)))) = 3"
  by (simp add: fleet_pass_def try_find_def no_fleet_def try_device_def Let_def)

lemma try_timeout: "p_result (fst (fleet_pass try_config try_device (try_find 0 TimedOut True) no_fleet)) = ''error''"
  by (simp add: fleet_pass_own try_find_def pass_input_def no_fleet_def collect_result_def)

theorem error_stays_loud_witness:
  "snd (print_status try_config (\<lambda>_. []) 100 (fleet_passes try_config [(try_device, try_find 1 (Exited 75 []) True)]
     (snd (fleet_pass try_config try_device (try_find 0 TimedOut True) no_fleet)))) = 1"
proof (rule error_stays_loud [OF refl try_timeout])
  let ?f = "snd (fleet_pass try_config try_device (try_find 0 TimedOut True) no_fleet)"
  obtain h where h: "beats ?f (d_name try_device) = Some h" "h_locked h = None"
    by (simp add: fleet_pass_own try_find_def no_fleet_def pass_input_def collect_result_def update_heartbeat_def new_heartbeat_def Let_def)
  have "p_result (fst (fleet_pass try_config try_device (try_find 1 (Exited 75 []) True) ?f)) = ''offline''"
    using h by (simp add: fleet_pass_own(1) try_find_def pass_input_def collect_result_def FLEET_TEMPFAIL_def)
  then show "\<forall>x\<in>set (pass_results try_config [(try_device, try_find 1 (Exited 75 []) True)] ?f).
      fst x = d_name try_device \<longrightarrow> p_result (snd x) \<noteq> ''ok''"
    by simp
qed (simp_all add: try_find_def try_config_def)

definition try_other :: device where
  "try_other = \<lparr>d_name = ''van'', d_url = ''http://van'', d_push = None, d_token = None\<rparr>"

theorem run_once_order_witness:
  "exit_code (fst (run_once try_config [(try_device, try_find 0 TimedOut True), (try_other, try_find 1 (Exited 0 []) True)] no_fleet)) =
   exit_code (fst (run_once try_config [(try_other, try_find 1 (Exited 0 []) True), (try_device, try_find 0 TimedOut True)] no_fleet))"
proof -
  let ?ps = "[(try_device, try_find 0 TimedOut True), (try_other, try_find 1 (Exited 0 []) True)]"
    and ?qs = "[(try_other, try_find 1 (Exited 0 []) True), (try_device, try_find 0 TimedOut True)]"
  have "distinct (map (d_name \<circ> fst) ?ps)" "set ?qs = set ?ps" "distinct (map (d_name \<circ> fst) ?qs)"
    by (auto simp: try_device_def try_other_def)
  from run_once_order [OF this] show ?thesis by blast
qed

text \<open>TOML has a float that is not a number, and every bound accepts it: with it in
  \<open>stale_after_days\<close> no heartbeat is ever too old, with it in \<open>min_free_mb\<close> no disk is too full.\<close>

lemma nan_thresholds_accepted:
  "number [(''stale_after_days'', TFloat NaN)] ''stale_after_days'' (Fin 3) True = Inr NaN"
  "\<not> alarmed (try_config\<lparr>cfg_stale := NaN\<rparr>) (new_heartbeat 0) t"
  "disk_problem (try_config\<lparr>cfg_min_free := NaN\<rparr>) (Some 0) = None"
  by (simp_all add: number_def alarmed_def new_heartbeat_def disk_problem_def)

end
