(* ===== verification/Spec2Isabelle.thy ===== *)
theory Spec2Isabelle
  imports CatalogTrip UdsFacts CollectorErrors RelayFacts FleetFacts
begin

text \<open>
  ESPCars: the tools around a car's CAN logger, as they are written in Python.  A logger in the car
  writes its recording to an SD card in chunks; a home server fetches, verifies, archives and confirms
  them, perhaps through a relay in Home Assistant; other tools read the recordings and decode the UDS
  answers in them with a binary catalog.

  \<^bold>\<open>Parts and how they interact\<close>

  \<^item> \<open>script/sdlog.py\<close>, the reader of card files: \<open>Stamps\<close> (time stamps, clock points, anchors, gaps,
    identity lines, record fields) and \<open>LogFile\<close> (\<open>parse_file\<close> with its report, the stream reader, and the
    commands check, extract and head).
  \<^item> \<open>components/uds/catalog.py\<close>, the catalog of diagnostic answers: \<open>Catalog\<close> (data model, name
    resolution, bit extraction, scale evaluation, limits), \<open>Binary\<close> (struct packing), \<open>CatalogFile\<close> (the
    binary writer and reader), \<open>CatalogWalk\<close> and \<open>CatalogTrip\<close> (the round trip).
  \<^item> \<open>script/sdlog_uds.py\<close>, UDS answers in a recording: \<open>UdsEcu\<close> (configuration, loading an ECU from a
    catalog, names), \<open>UdsChunk\<close> (ISO-TP reassembly and the handling of answers), \<open>UdsTransfer\<close> and
    \<open>UdsFacts\<close> (its properties).  It reads catalogs with \<open>read_catalog\<close> and decodes with \<open>evaluate\<close>.
  \<^item> \<open>script/sdlog_collect.py\<close>, the collector: \<open>Effects\<close> (actions with state and exceptions),
    \<open>Collector\<close> (the whole pass), \<open>CollectorSteps\<close> (its invariants as interpretations of locales),
    \<open>CollectorFacts\<close>, \<open>CollectorReport\<close>, \<open>CollectorResume\<close>, \<open>CollectorErrors\<close>.  It judges a download with
    \<open>parse_file\<close> of \<open>LogFile\<close>.
  \<^item> \<open>custom_components/sdlog_relay\<close>, the relay between a collector and a logger, and the firmware it
    hands out: \<open>Relay\<close>, \<open>RelayFacts\<close>.  \<open>relay_transparent\<close> puts its answers before the collector.
  \<^item> \<open>script/sdlog_fleet.py\<close>, the collector run for many devices: \<open>Fleet\<close>, \<open>FleetFacts\<close>, and below the
    collector as its child process.
  \<^item> \<open>Prelude\<close>: errors as sums, text, dictionaries in insertion order, digits.

  \<^bold>\<open>How the code is modelled\<close>

  Classes are records, enumerations and tagged values datatypes, errors the left part of a sum, bytes
  and bit patterns machine words; Python's integers are \<open>int\<close>, its dictionaries association lists or
  maps.  Text is a list of characters below 256; where the code handles UTF-8 the text is the bytes.
  Floats are rationals with infinities and not-a-number (\<open>pyfloat\<close>), rounded to binary64 by \<open>round53\<close>
  where the code computes with them.  Loops are structural recursions over the input (lines, bytes,
  blocks, entries, attempts), so nothing needs fuel and every function is total; a loop over the network
  is bounded by its attempts and its script of replies.  \<open>show_hex\<close>, \<open>show_nat\<close> and the digit counts terminate
  by the size of the number.  The pass is a state monad with exceptions that keeps the state of a raise.
  The locks of the relay are an inductive step relation over all its requests.

  Parameters: the decoded TOML and JSON, SHA-256 and MD5, the clock, the network as a script of replies,
  the disk as a script of outcomes, the logger behind the relay, the child process of the fleet.
  Hypotheses on them are named: \<open>json_ok\<close> (a JSON object written and read back keeps its digest) and
  32 hexadecimal digits of an MD5.  Each is met by a concrete function in a witness.

  \<^bold>\<open>What the lemmas show\<close>

  Card files: cutting a sound file leaves no malformed line, the two readers agree, stamps decode, the
  clock keeps the best reading.  Catalogs: what is written is read back, every read error is one of
  two kinds, names resolve uniquely, a signed field is its two's complement.  UDS: the receive state
  machine refines ISO-TP, segmented answers are reassembled once, nothing raises, faults are
  reported exactly when they change.  Collector: a chunk is confirmed only when its verified copy is in the
  archive, archived files are never changed, a resume never splices, a refusal ends the pass, the number of
  requests is bounded, the exit status tells the truth, only number parsing can raise.  Relay:
  one request per logger, one answer per request, no deadlock, unchanged answers, four endpoints; uploads
  survive a crash at any point.  Fleet: refusals are remembered, errors stay loud, order does not
  matter, and its verdicts are the collector's.

  \<^bold>\<open>Not modelled\<close>

  The catalog compiler \<open>script/uds_catalog.py\<close> beyond the library it calls; \<open>script/sdlog_decode.py\<close> and
  \<open>script/sdlog_publish.py\<close>, which move data between files, cantools, ClickHouse and MQTT;
  \<open>script/portal_schema.py\<close> and the packages under \<open>components\<close> apart from the catalog, which are
  configuration schemas and C++ generation for ESPHome; \<open>script/dbc2yaml.py\<close>, the bench scripts and the
  checks of the repository; the firmware, which is C++.  Of the modelled files, argument parsing, the
  unbounded loop of the fleet, suggestions for misspelt names and the wording of reasons are left out,
  and integers written with more than 4300 digits only where the collector meets them.  Files
  created by the operating system between two calls of one process are out of scope, as is a second
  process writing the same archive.
\<close>

section \<open>The fleet and its collector\<close>

text \<open>The collector as the fleet's child process: its exit status and its output; an exception that
  leaves \<open>main\<close> is the interpreter's status 1.\<close>

definition collector_child :: "env \<Rightarrow> world \<Rightarrow> child" where
  "collector_child cf w =
     (case cmd_pull cf w of
        Inl _ \<Rightarrow> Exited 1 ''Traceback''
      | Inr code \<Rightarrow> Exited code (case print_outcome (out (snd (collect cf w))) of (o_lines, e_lines) \<Rightarrow> join_with [CHR 10] (o_lines @ e_lines)))"

lemma pass_runs_collector:
  assumes "fst (fleet_pass cfg d e f) = r" and "p_result r \<in> {''ok'', ''offline''} \<or> p_refused r" and "e_run e = (\<lambda>_. collector_child cf w)"
  shows "r = collect_result (collector_child cf w)"
proof -
  have "\<not> e_held e" using assms(1,2) by (auto simp: fleet_pass_own(3))
  then have r: "r = pass_input cfg d e (beats f (d_name d))" using assms(1) by (simp add: fleet_pass_own)
  with assms(2,3) show ?thesis by (auto simp: pass_input_def split: option.splits if_splits)
qed

lemma exit_statuses:
  "exit_status v = FLEET_NOPERM \<longleftrightarrow> refused (out v) \<noteq> None"
  "exit_status v = FLEET_TEMPFAIL \<Longrightarrow> refused (out v) = None \<and> archive_error (out v) = None \<and> (unreachable v \<longrightarrow> offline v) \<and>
     (unreachable v \<or> defects (out v) = 0)"
  by (auto simp: exit_status_def Let_def FLEET_NOPERM_def FLEET_TEMPFAIL_def EX_NOPERM_def EX_IOERR_def EX_TEMPFAIL_def
      EX_WRONG_TARGET_def EX_DEFECT_def split: if_splits)

lemma collector_child_cases:
  "collector_child cf w = Exited code shown \<Longrightarrow> code \<noteq> 1 \<Longrightarrow>
     \<exists>v. collect cf w = (Inr (), v) \<and> code = exit_status v"
  using exit_statuses(1)
  by (auto simp: collector_child_def cmd_pull_def exit_status_def Let_def split: sum.splits prod.splits if_splits)

text \<open>
  C7: what the fleet reports of a pass is what the collector did.  A pass counted as ok has confirmed
  every chunk the device listed; one counted as offline met no defect, no refusal and no archive error;
  and the device is locked exactly when the collector was refused.
\<close>

theorem fleet_verdicts:
  assumes "fst (fleet_pass cfg d e f) = r" and "e_run e = (\<lambda>_. collector_child cf w)"
    and "p_result r \<in> {''ok'', ''offline''} \<or> p_refused r"
  shows "\<exists>v. collect cf w = (Inr (), v) \<and>
     (p_result r = ''ok'' \<longrightarrow>
        (\<exists>cs u. index cf (w\<lparr>out := new_outcome, unreachable := False, offline := False\<rparr>) = (Inr cs, u) \<and>
           index_problems u = [] \<and> confirmed (out v) = map c_name cs)) \<and>
     (p_result r = ''offline'' \<longrightarrow> archive_error (out v) = None \<and> (unreachable v \<and> offline v \<or> defects (out v) = 0)) \<and>
     (p_refused r \<longleftrightarrow> refused (out v) \<noteq> None)"
proof -
  have r: "r = collect_result (collector_child cf w)" using pass_runs_collector [OF assms(1,3,2)] .
  obtain code shown where c: "collector_child cf w = Exited code shown"
    by (cases "cmd_pull cf w") (auto simp: collector_child_def)
  have "code \<noteq> 1" using assms(3) unfolding r c
    by (auto simp: collect_result_def FLEET_TEMPFAIL_def FLEET_NOPERM_def)
  from collector_child_cases [OF c this] obtain v where v: "collect cf w = (Inr (), v)" "code = exit_status v" by blast
  have ok: "p_result r = ''ok'' \<longleftrightarrow> exit_status v = 0" and ref: "p_refused r \<longleftrightarrow> exit_status v = FLEET_NOPERM"
    using collect_result_cases(2,3) [of "collector_child cf w"] unfolding r c v(2) by auto
  have off: "exit_status v = FLEET_TEMPFAIL" if "p_result r = ''offline''"
    using that unfolding r c v(2) by (auto simp: collect_result_def split: if_splits)
  show ?thesis
    using v(1) ok ref off exit_statuses zero_confirms_all [OF v(1)] by (intro exI [of _ v]) blast
qed

theorem fleet_verdicts_witness:
  "\<exists>cs. index try_env try_pass = (Inr cs, snd (index try_env try_pass)) \<and> cs \<noteq> [] \<and>
     confirmed (out (snd (collect try_env try_pass))) = map c_name cs"
proof -
  let ?e = "try_find 0 (collector_child try_env try_pass) True"
  have w: "try_pass\<lparr>out := new_outcome, unreachable := False, offline := False\<rparr> = try_pass"
    by (simp add: try_pass_def try_world_def)
  obtain v where v: "collect try_env try_pass = (Inr (), v)" "exit_status v = 0"
    using try_pass_ends by (metis prod.collapse)
  then have "refused (out v) = None" using exit_statuses(1) by (metis FLEET_NOPERM_def zero_neq_numeral)
  with v have "\<exists>s. collector_child try_env try_pass = Exited 0 s"
    by (simp add: collector_child_def cmd_pull_def)
  then have "p_result (fst (fleet_pass try_config try_device ?e no_fleet)) = ''ok''"
    by (auto simp: fleet_pass_own try_find_def pass_input_def no_fleet_def collect_result_cases)
  moreover have "e_run ?e = (\<lambda>_. collector_child try_env try_pass)" by (simp add: try_find_def)
  ultimately obtain cs u where c: "index try_env try_pass = (Inr cs, u)" "confirmed (out v) = map c_name cs"
    using fleet_verdicts [OF refl, of ?e try_env try_pass try_config try_device no_fleet] v(1) unfolding w by auto
  have "cs \<noteq> []" using try_index_value c(1) by auto
  with c v(1) show ?thesis by simp
qed

end
